(* ===== verification/Wnr_Prelude.thy ===== *)
theory Wnr_Prelude
  imports Main "HOL-Library.Word" "HOL-Library.Monad_Syntax"
begin

text \<open>
  Shared ground of the development: the machine-integer types of the Rust code, its byte-order
  conversions, slice writes that panic, and the two interfaces that several components implement
  (a fixed-size wire format, and a table of entries kept in a vector with one entry per key).

  A Rust \<open>Result<T, E>\<close> is \<open>'e + 't\<close> (\<open>Inl\<close> the error), an \<open>Option\<close> is \<open>option\<close>; where an
  operation can panic its model returns an \<open>option\<close> whose \<open>None\<close> is the panic. Fixed-size arrays
  \<open>[u8; N]\<close> are byte lists, with the length as part of the component's well-formedness.
\<close>

unbundle bit_operations_syntax

section \<open>Machine integers\<close>

type_synonym u8 = "8 word"
type_synonym u16 = "16 word"
type_synonym u32 = "32 word"
type_synonym u64 = "64 word"
type_synonym i32 = "32 word"
type_synonym bytes = "8 word list"

named_theorems wire_simps "byte-order conversions and their inverses"

section \<open>Byte order\<close>

definition u16_from_be :: "u8 \<Rightarrow> u8 \<Rightarrow> u16" where
  "u16_from_be a b = push_bit 8 (ucast a) OR ucast b"

definition u16_to_be :: "u16 \<Rightarrow> bytes" where
  "u16_to_be w = [ucast (drop_bit 8 w), ucast w]"

definition u16_from_le :: "u8 \<Rightarrow> u8 \<Rightarrow> u16" where
  "u16_from_le a b = u16_from_be b a"

definition u16_to_le :: "u16 \<Rightarrow> bytes" where
  "u16_to_le w = rev (u16_to_be w)"

definition u32_from_be :: "u8 \<Rightarrow> u8 \<Rightarrow> u8 \<Rightarrow> u8 \<Rightarrow> u32" where
  "u32_from_be a b c d =
     push_bit 24 (ucast a) OR push_bit 16 (ucast b) OR push_bit 8 (ucast c) OR ucast d"

definition u32_to_be :: "u32 \<Rightarrow> bytes" where
  "u32_to_be w = [ucast (drop_bit 24 w), ucast (drop_bit 16 w), ucast (drop_bit 8 w), ucast w]"

definition u32_from_le :: "u8 \<Rightarrow> u8 \<Rightarrow> u8 \<Rightarrow> u8 \<Rightarrow> u32" where
  "u32_from_le a b c d = u32_from_be d c b a"

definition u32_to_le :: "u32 \<Rightarrow> bytes" where
  "u32_to_le w = rev (u32_to_be w)"

lemma u16_be_inverse [wire_simps]:
  "u16_from_be (ucast (drop_bit 8 w)) (ucast w) = w"
  unfolding u16_from_be_def
  by (rule bit_word_eqI) (auto simp: bit_simps)

lemma u32_be_inverse [wire_simps]:
  "u32_from_be (ucast (drop_bit 24 w)) (ucast (drop_bit 16 w)) (ucast (drop_bit 8 w)) (ucast w) = w"
  unfolding u32_from_be_def
proof (rule bit_word_eqI)
  fix n
  assume "n < LENGTH(32)"
  then consider "n < 8" | "8 \<le> n" "n < 16" | "16 \<le> n" "n < 24" | "24 \<le> n" "n < 32"
    by fastforce
  then show "bit (push_bit 24 (ucast (ucast (drop_bit 24 w) :: u8)) OR
      push_bit 16 (ucast (ucast (drop_bit 16 w) :: u8)) OR
      push_bit 8 (ucast (ucast (drop_bit 8 w) :: u8)) OR ucast (ucast w :: u8) :: u32) n = bit w n"
    by cases (auto simp: bit_simps)
qed

lemma byte_bit_high: "8 \<le> n \<Longrightarrow> bit (b :: u8) n = False"
  using bit_imp_le_length [of b n] by auto

lemma u16_be_bytes [wire_simps]: "u16_to_be (u16_from_be a b) = [a, b]"
  unfolding u16_to_be_def u16_from_be_def
  by (auto intro!: bit_word_eqI simp: bit_simps byte_bit_high)

lemma u32_be_bytes [wire_simps]: "u32_to_be (u32_from_be a b c d) = [a, b, c, d]"
  unfolding u32_to_be_def u32_from_be_def
  by (auto intro!: bit_word_eqI simp: bit_simps byte_bit_high)

lemma u16_to_be_length [simp]: "length (u16_to_be w) = 2"
  by (simp add: u16_to_be_def)

lemma u32_to_be_length [simp]: "length (u32_to_be w) = 4"
  by (simp add: u32_to_be_def)

lemma u16_to_le_length [simp]: "length (u16_to_le w) = 2"
  by (simp add: u16_to_le_def)

lemma u32_to_le_length [simp]: "length (u32_to_le w) = 4"
  by (simp add: u32_to_le_def)

section \<open>Slices\<close>

text \<open>
  \<open>buf[lo..hi].copy_from_slice(src)\<close>: the new buffer, or the panic when the range is not inside
  the buffer or the lengths differ.
\<close>

definition write_slice :: "nat \<Rightarrow> nat \<Rightarrow> bytes \<Rightarrow> bytes \<Rightarrow> bytes option" where
  "write_slice lo hi src buf =
     (if lo \<le> hi \<and> hi \<le> length buf \<and> length src = hi - lo
      then Some (take lo buf @ src @ drop hi buf) else None)"

text \<open>\<open>buf[i] = b\<close>, with the bounds check.\<close>

definition write_byte :: "nat \<Rightarrow> u8 \<Rightarrow> bytes \<Rightarrow> bytes option" where
  "write_byte i b buf = (if i < length buf then Some (buf[i := b]) else None)"

text \<open>\<open>&buf[lo..hi]\<close> of a range known to be inside the buffer.\<close>

definition slice :: "nat \<Rightarrow> nat \<Rightarrow> 'a list \<Rightarrow> 'a list" where
  "slice lo hi xs = take (hi - lo) (drop lo xs)"

lemma slice_length [simp]: "length (slice lo hi xs) = min (hi - lo) (length xs - lo)"
  by (simp add: slice_def)

lemma slice_append_left:
  "hi \<le> length xs \<Longrightarrow> slice lo hi (xs @ ys) = slice lo hi xs"
  by (simp add: slice_def)

lemma write_slice_length: "write_slice lo hi src buf = Some buf' \<Longrightarrow> length buf' = length buf"
  by (auto simp: write_slice_def split: if_splits)

text \<open>Writing consecutive ranges from the front lays their sources side by side.\<close>

lemma write_slice_front:
  assumes "length done = lo" "length src = hi - lo" "lo \<le> hi" "hi \<le> lo + length rest"
  shows "write_slice lo hi src (done @ rest) = Some ((done @ src) @ drop (hi - lo) rest)"
  using assms by (auto simp: write_slice_def)

text \<open>\<open>if let Some(x) = v.iter_mut().find(P) { modify x }\<close>: the vector with its first match
  modified, or \<open>None\<close> when nothing matches.\<close>

fun update_first :: "('a \<Rightarrow> bool) \<Rightarrow> ('a \<Rightarrow> 'a) \<Rightarrow> 'a list \<Rightarrow> 'a list option" where
  "update_first P f [] = None"
| "update_first P f (x # xs) =
     (if P x then Some (f x # xs) else map_option ((#) x) (update_first P f xs))"

lemma update_first_None: "update_first P f xs = None \<longleftrightarrow> (\<forall>x\<in>set xs. \<not> P x)"
  by (induction xs) auto

lemma find_snoc:
  "find P (xs @ [x]) = (case find P xs of None \<Rightarrow> if P x then Some x else None | Some y \<Rightarrow> Some y)"
  by (induction xs) auto

lemma find_filter_neg:
  "find P (filter (\<lambda>x. \<not> Q x) xs) = find (\<lambda>x. P x \<and> \<not> Q x) xs"
  by (induction xs) auto

lemma find_Some_set: "find P xs = Some x \<Longrightarrow> x \<in> set xs \<and> P x"
  by (induction xs) (auto split: if_splits)

lemma those_Some_iff: "those xs = Some ys \<longleftrightarrow> xs = map Some ys"
  by (induction xs arbitrary: ys) (auto split: option.splits)

lemma those_map:
  assumes "\<And>x. x \<in> set xs \<Longrightarrow> f x = Some (g x)"
  shows "those (map f xs) = Some (map g xs)"
  using assms by (auto simp: those_Some_iff)

text \<open>A buffer of at least \<open>n\<close> bytes, taken apart byte by byte (for a numeral \<open>n\<close>).\<close>

lemma numeral_le_length_iff:
  "numeral n \<le> length xs \<longleftrightarrow> (\<exists>y ys. xs = y # ys \<and> pred_numeral n \<le> length ys)"
  by (simp add: numeral_eq_Suc Suc_le_length_iff)

lemmas length_unfold = numeral_le_length_iff Suc_le_length_iff

lemma split_front:
  assumes "n + m \<le> length xs"
  shows "\<exists>p q. xs = p @ q \<and> length p = n \<and> m \<le> length q"
  using assms by (intro exI [of _ "take n xs"] exI [of _ "drop n xs"]) simp

lemma two_bytes: "2 \<le> length xs \<Longrightarrow> \<exists>a b r. xs = a # b # r"
  by (auto simp: length_unfold)

text \<open>\<open>Result::is_err\<close>.\<close>

definition is_err :: "'e + 'a \<Rightarrow> bool" where
  "is_err r \<longleftrightarrow> (case r of Inl _ \<Rightarrow> True | Inr _ \<Rightarrow> False)"

end
