(* ===== verification/Interfaces.thy ===== *)
theory Interfaces
  imports Wnr_Prelude
begin

text \<open>
  The interfaces of the program, as locales. \<open>wire_codec\<close> and its extension \<open>wire_format\<close> are what
  a fixed-size header promises (Ethernet, ARP, savefile); \<open>keyed_table\<close> is what the ARP cache and
  the routing table promise. Each is interpreted on the model's definitions in the theory of the
  component that provides it.
\<close>

section \<open>Fixed-size wire formats\<close>

text \<open>
  \<open>image\<close> is the run of \<open>size\<close> bytes that stands for a value on the wire, \<open>parse\<close> the reader of
  the code, which looks at the front of a buffer; \<open>wf\<close> are the values that the reader produces.
\<close>

locale wire_codec =
  fixes image :: "'a \<Rightarrow> bytes"
    and parse :: "bytes \<Rightarrow> 'a option"
    and size :: nat
    and wf :: "'a \<Rightarrow> bool"
  assumes image_length: "wf x \<Longrightarrow> length (image x) = size"
    and parse_image: "wf x \<Longrightarrow> parse (image x @ rest) = Some x"
    and parse_short: "length buf < size \<Longrightarrow> parse buf = None"
    and parse_total: "size \<le> length buf \<Longrightarrow> \<exists>x. wf x \<and> parse buf = Some x \<and> image x = take size buf"
begin

lemma parse_defined_iff: "(\<exists>x. parse buf = Some x) \<longleftrightarrow> size \<le> length buf"
  using parse_short parse_total by (metis linorder_not_less option.distinct(1))

lemma parse_inverts:
  assumes "parse buf = Some x"
  shows "wf x \<and> image x = take size buf"
proof -
  have "size \<le> length buf" using assms parse_short by (metis linorder_not_less option.distinct(1))
  from parse_total [OF this] assms show ?thesis by auto
qed

lemma image_inj: "wf x \<Longrightarrow> wf y \<Longrightarrow> image x = image y \<Longrightarrow> x = y"
  using parse_image [of x "[]"] parse_image [of y "[]"] by simp

lemma parse_ignores_tail:
  assumes "size \<le> length buf"
  shows "parse (buf @ rest) = parse buf"
proof -
  obtain x where x: "wf x" "image x = take size buf" "parse buf = Some x"
    using parse_total [OF assms] by blast
  have "buf @ rest = image x @ (drop size buf @ rest)" using x(2) by simp
  then show ?thesis using parse_image [OF x(1)] x(3) by metis
qed

end

text \<open>
  With the writer of the code, which overwrites the front of a caller's buffer and panics when the
  buffer is too short.
\<close>

locale wire_format = wire_codec +
  fixes encode :: "'a \<Rightarrow> bytes \<Rightarrow> bytes option"
  assumes encode_image: "wf x \<Longrightarrow> size \<le> length buf \<Longrightarrow> encode x buf = Some (image x @ drop size buf)"
    and encode_panics: "wf x \<Longrightarrow> length buf < size \<Longrightarrow> encode x buf = None"
begin

lemma encode_then_parse:
  assumes "wf x" "size \<le> length buf"
  shows "\<exists>buf'. encode x buf = Some buf' \<and> parse buf' = Some x
           \<and> length buf' = length buf \<and> drop size buf' = drop size buf"
  using assms by (auto simp: encode_image parse_image image_length)

lemma parse_then_encode:
  assumes "parse buf = Some x"
  shows "encode x buf = Some buf"
proof -
  have "size \<le> length buf" using assms parse_defined_iff by blast
  moreover have "wf x" "image x = take size buf" using parse_inverts [OF assms] by auto
  ultimately show ?thesis by (simp add: encode_image)
qed

lemma encode_defined_iff: "wf x \<Longrightarrow> (encode x buf \<noteq> None) \<longleftrightarrow> size \<le> length buf"
  using encode_image encode_panics by (metis linorder_not_less option.distinct(1))

end

section \<open>Tables of entries, one per key\<close>

text \<open>The map a vector of entries stands for: the first entry with the key.\<close>

definition table_map :: "('e \<Rightarrow> 'k) \<Rightarrow> 'e list \<Rightarrow> 'k \<Rightarrow> 'e option" where
  "table_map key es k = find (\<lambda>e. key e = k) es"

definition distinct_keys :: "('e \<Rightarrow> 'k) \<Rightarrow> 'e list \<Rightarrow> bool" where
  "distinct_keys key es \<longleftrightarrow> distinct (map key es)"

text \<open>A run of table operations, on a table and on the abstract map.\<close>

datatype ('e, 'k) table_op = AddEntry 'e | DeleteKey 'k

fun run_table :: "('e \<Rightarrow> 't \<Rightarrow> 't) \<Rightarrow> ('k \<Rightarrow> 't \<Rightarrow> 't) \<Rightarrow> ('e, 'k) table_op list \<Rightarrow> 't \<Rightarrow> 't" where
  "run_table add del [] t = t"
| "run_table add del (AddEntry e # ops) t = run_table add del ops (add e t)"
| "run_table add del (DeleteKey k # ops) t = run_table add del ops (del k t)"

fun run_map :: "('e \<Rightarrow> 'k) \<Rightarrow> ('e, 'k) table_op list \<Rightarrow> ('k \<Rightarrow> 'e option) \<Rightarrow> ('k \<Rightarrow> 'e option)" where
  "run_map key [] m = m"
| "run_map key (AddEntry e # ops) m = run_map key ops (m(key e := Some e))"
| "run_map key (DeleteKey k # ops) m = run_map key ops (m(k := None))"

lemma run_map_origin: "run_map key ops (\<lambda>_. None) k = Some e \<Longrightarrow> AddEntry e \<in> set ops"
proof -
  have "run_map key ops m k = Some e \<Longrightarrow> AddEntry e \<in> set ops \<or> m k = Some e" for m
  proof (induction ops arbitrary: m)
    case (Cons op1 ops)
    then show ?case by (cases op1) (fastforce split: if_splits)+
  qed simp
  then show "run_map key ops (\<lambda>_. None) k = Some e \<Longrightarrow> ?thesis" by blast
qed

lemma table_map_empty [simp]: "table_map key [] = (\<lambda>_. None)"
  by (rule ext) (simp add: table_map_def)

lemma table_map_key: "table_map key es k = Some e \<Longrightarrow> e \<in> set es \<and> key e = k"
  unfolding table_map_def by (drule find_Some_set) simp

lemma table_map_in:
  "distinct_keys key es \<Longrightarrow> e \<in> set es \<Longrightarrow> table_map key es (key e) = Some e"
  unfolding table_map_def distinct_keys_def
  by (induction es) (auto simp: rev_image_eqI)

lemma table_map_dom: "dom (table_map key es) = key ` set es"
  unfolding table_map_def dom_def
  by (auto simp: find_None_iff dest: find_Some_set)

lemma table_size: "distinct_keys key es \<Longrightarrow> length es = card (dom (table_map key es))"
  by (simp add: table_map_dom distinct_keys_def flip: set_map add: distinct_card)

text \<open>The two vector idioms of the code: replace in place or push, and retain.\<close>

lemma update_first_table:
  assumes "\<And>x. key x = key e \<Longrightarrow> f x = e"
  shows "update_first (\<lambda>x. key x = key e) f es = Some es' \<Longrightarrow>
           table_map key es' = (table_map key es)(key e := Some e) \<and> map key es' = map key es"
proof (induction es arbitrary: es')
  case (Cons x es)
  then show ?case
    using assms [of x]
    by (cases "key x = key e") (auto simp: table_map_def fun_eq_iff)
qed simp

lemma push_table:
  assumes "update_first (\<lambda>x. key x = key e) f es = None"
  shows "table_map key (es @ [e]) = (table_map key es)(key e := Some e)"
    and "distinct_keys key es \<Longrightarrow> distinct_keys key (es @ [e])"
proof -
  have fresh: "key e \<notin> key ` set es" using assms by (auto simp: update_first_None)
  then show "distinct_keys key es \<Longrightarrow> distinct_keys key (es @ [e])"
    by (simp add: distinct_keys_def)
  have "find (\<lambda>x. key x = key e) es = None" using fresh by (induction es) auto
  then show "table_map key (es @ [e]) = (table_map key es)(key e := Some e)"
    by (auto simp: table_map_def fun_eq_iff find_snoc split: option.splits)
qed

lemma retain_table:
  "table_map key (filter (\<lambda>x. key x \<noteq> k) es) = (table_map key es)(k := None)"
  "distinct_keys key es \<Longrightarrow> distinct_keys key (filter (\<lambda>x. key x \<noteq> k) es)"
proof -
  have "find (\<lambda>x. key x = k' \<and> key x \<noteq> k) es = (if k' = k then None else find (\<lambda>x. key x = k') es)" for k'
    by (induction es) auto
  then show "table_map key (filter (\<lambda>x. key x \<noteq> k) es) = (table_map key es)(k := None)"
    by (auto simp: table_map_def fun_eq_iff find_filter_neg)
  show "distinct_keys key es \<Longrightarrow> distinct_keys key (filter (\<lambda>x. key x \<noteq> k) es)"
    unfolding distinct_keys_def by (rule distinct_map_filter)
qed

locale keyed_table =
  fixes empty :: "'t"
    and add :: "'e \<Rightarrow> 't \<Rightarrow> 't"
    and delete :: "'k \<Rightarrow> 't \<Rightarrow> 't"
    and entries :: "'t \<Rightarrow> 'e list"
    and key :: "'e \<Rightarrow> 'k"
  assumes entries_empty: "entries empty = []"
    and add_map: "table_map key (entries (add e t)) = (table_map key (entries t))(key e := Some e)"
    and add_distinct: "distinct_keys key (entries t) \<Longrightarrow> distinct_keys key (entries (add e t))"
    and delete_map: "table_map key (entries (delete k t)) = (table_map key (entries t))(k := None)"
    and delete_distinct: "distinct_keys key (entries t) \<Longrightarrow> distinct_keys key (entries (delete k t))"
begin

lemma run_refines_map:
  "table_map key (entries (run_table add delete ops t)) = run_map key ops (table_map key (entries t))"
proof (induction ops arbitrary: t)
  case (Cons op ops)
  then show ?case by (cases op) (simp_all add: add_map delete_map del: fun_upd_apply)
qed simp

lemma run_distinct:
  "distinct_keys key (entries t) \<Longrightarrow> distinct_keys key (entries (run_table add delete ops t))"
proof (induction ops arbitrary: t)
  case (Cons op ops)
  then show ?case by (cases op) (simp_all add: add_distinct delete_distinct)
qed simp

lemma run_size:
  "length (entries (run_table add delete ops empty)) = card (dom (run_map key ops (\<lambda>_. None)))"
proof -
  have "distinct_keys key (entries (run_table add delete ops empty))"
    by (rule run_distinct) (simp add: entries_empty distinct_keys_def)
  then show ?thesis by (simp add: table_size run_refines_map entries_empty)
qed

lemma run_members:
  "e \<in> set (entries (run_table add delete ops empty)) \<longleftrightarrow> run_map key ops (\<lambda>_. None) (key e) = Some e"
proof -
  let ?es = "entries (run_table add delete ops empty)"
  have d: "distinct_keys key ?es"
    by (rule run_distinct) (simp add: entries_empty distinct_keys_def)
  have m: "table_map key ?es = run_map key ops (\<lambda>_. None)"
    by (simp add: run_refines_map entries_empty)
  show ?thesis
    using table_map_in [OF d] table_map_key [of key ?es "key e" e] by (auto simp: m)
qed

end

section \<open>Packet sources\<close>

text \<open>
  A source hands out packets one at a time, or reports its end or an error. \<open>drain\<close> is the loop
  \<open>while let Ok(Some(p)) = next()\<close>, with fuel: the packets, the error that ended it if one did, and
  the source after it; \<open>None\<close> when the fuel runs out. \<open>exhaust\<close> runs it with the fuel that a source
  with a bound on its remaining packets needs.
\<close>

fun drain :: "('s \<Rightarrow> ('e + 'p option) \<times> 's) \<Rightarrow> nat \<Rightarrow> 's \<Rightarrow> ('p list \<times> 'e option \<times> 's) option" where
  "drain nxt 0 s = None"
| "drain nxt (Suc n) s =
     (case nxt s of
        (Inr (Some p), s') \<Rightarrow> map_option (\<lambda>(ps, out). (p # ps, out)) (drain nxt n s')
      | (Inr None, s') \<Rightarrow> Some ([], None, s')
      | (Inl e, s') \<Rightarrow> Some ([], Some e, s'))"

definition exhaust ::
  "('s \<Rightarrow> ('e + 'p option) \<times> 's) \<Rightarrow> ('s \<Rightarrow> nat) \<Rightarrow> 's \<Rightarrow> 'p list \<times> 'e option \<times> 's" where
  "exhaust nxt left s = the (drain nxt (Suc (left s)) s)"

text \<open>A source wrapped in another type, its errors converted, yields the same packets.\<close>

lemma drain_wrap:
  assumes "\<And>s. nxt2 (wrap s) = map_prod (map_sum f id) wrap (nxt s)"
  shows "drain nxt2 n (wrap s) = map_option (map_prod id (map_prod (map_option f) wrap)) (drain nxt n s)"
proof (induction n arbitrary: s)
  case (Suc n)
  obtain out s' where nx: "nxt s = (out, s')" by (cases "nxt s")
  consider (err) e where "out = Inl e" | (fin) "out = Inr None" | (pkt) p where "out = Inr (Some p)"
    by (cases out) auto
  then show ?case
    by cases (simp_all add: assms nx Suc option.map_comp o_def case_prod_beta map_prod_def)
qed simp

lemma drain_more: "drain nxt n s = Some r \<Longrightarrow> n \<le> m \<Longrightarrow> drain nxt m s = Some r"
proof (induction n arbitrary: m s r)
  case (Suc n)
  then obtain k where k: "m = Suc k" "n \<le> k" by (cases m) auto
  obtain out s' where nx: "nxt s = (out, s')" by (cases "nxt s")
  show ?case
  proof (cases "\<exists>p. out = Inr (Some p)")
    case True
    with Suc.prems(1) nx obtain r' where "drain nxt n s' = Some r'" by auto
    with Suc.IH [OF this k(2)] True Suc.prems(1) nx k(1) show ?thesis by auto
  next
    case False
    with Suc.prems(1) nx k(1) show ?thesis by (cases out) (simp_all split: option.splits)
  qed
qed simp

locale packet_source =
  fixes nxt :: "'s \<Rightarrow> ('e + 'p option) \<times> 's"
    and left :: "'s \<Rightarrow> nat"
  assumes progress: "nxt s = (Inr (Some p), s') \<Longrightarrow> left s' < left s"
begin

lemma drain_enough: "left s < n \<Longrightarrow> \<exists>r. drain nxt n s = Some r"
proof (induction n arbitrary: s)
  case (Suc n)
  show ?case
  proof (cases "nxt s")
    case (Pair out s')
    show ?thesis
    proof (cases "\<exists>p. out = Inr (Some p)")
      case True
      then obtain p where "out = Inr (Some p)" by blast
      with Pair progress [of s p s'] Suc.prems have "left s' < n" by simp
      from Suc.IH [OF this] Pair \<open>out = Inr (Some p)\<close> show ?thesis by auto
    qed (use Pair in \<open>auto split: sum.splits option.splits\<close>)
  qed
qed simp

lemma exhaust_drain: "drain nxt n s = Some r \<Longrightarrow> exhaust nxt left s = r"
proof -
  assume n: "drain nxt n s = Some r"
  obtain r' where r': "drain nxt (Suc (left s)) s = Some r'" using drain_enough by blast
  then have "r' = r"
    using drain_more [OF n, of "max n (Suc (left s))"] drain_more [OF r', of "max n (Suc (left s))"] by simp
  with r' show ?thesis by (simp add: exhaust_def)
qed

lemma exhaust_packet:
  assumes "nxt s = (Inr (Some p), s')"
  shows "exhaust nxt left s = (p # fst (exhaust nxt left s'), snd (exhaust nxt left s'))"
proof (rule exhaust_drain)
  obtain r where r: "drain nxt (Suc (left s')) s' = Some r" using drain_enough by blast
  then show "drain nxt (Suc (Suc (left s'))) s = Some (p # fst (exhaust nxt left s'), snd (exhaust nxt left s'))"
    using assms exhaust_drain [OF r] by (cases r) simp
qed

lemma exhaust_end: "nxt s = (Inr None, s') \<Longrightarrow> exhaust nxt left s = ([], None, s')"
  by (rule exhaust_drain [of 1]) simp

lemma exhaust_error: "nxt s = (Inl e, s') \<Longrightarrow> exhaust nxt left s = ([], Some e, s')"
  by (rule exhaust_drain [of 1]) simp

lemma exhaust_same: "nxt s = nxt s' \<Longrightarrow> exhaust nxt left s = exhaust nxt left s'"
proof -
  assume nx: "nxt s = nxt s'"
  obtain out t where n: "nxt s' = (out, t)" by (cases "nxt s'")
  consider (err) e where "out = Inl e" | (fin) "out = Inr None" | (pkt) p where "out = Inr (Some p)"
    by (cases out) auto
  then show ?thesis
    using n nx exhaust_packet [of s _ t] exhaust_packet [of s' _ t] exhaust_end [of s t] exhaust_end [of s' t]
      exhaust_error [of s _ t] exhaust_error [of s' _ t]
    by cases simp_all
qed

lemma exhaust_wrap:
  assumes "\<And>s. nxt2 (wrap s) = map_prod (map_sum f id) wrap (nxt s)" "\<And>s. left2 (wrap s) = left s"
  shows "exhaust nxt2 left2 (wrap s) = map_prod id (map_prod (map_option f) wrap) (exhaust nxt left s)"
proof -
  obtain r where "drain nxt (Suc (left s)) s = Some r" using drain_enough by blast
  with drain_wrap [of nxt2 wrap f nxt, OF assms(1)] show ?thesis
    by (simp add: exhaust_def assms(2) del: drain.simps)
qed

lemma exhaust_all:
  assumes "\<And>s p s'. nxt s = (Inr (Some p), s') \<Longrightarrow> P p"
  shows "\<forall>p \<in> set (fst (exhaust nxt left s)). P p"
proof (induction "left s" arbitrary: s rule: less_induct)
  case less
  obtain out t where n: "nxt s = (out, t)" by (cases "nxt s")
  consider (err) e where "out = Inl e" | (fin) "out = Inr None" | (pkt) p where "out = Inr (Some p)"
    by (cases out) auto
  then show ?case
  proof cases
    case pkt
    with less [of t] progress n assms show ?thesis by (simp add: exhaust_packet)
  qed (use n in \<open>simp_all add: exhaust_end exhaust_error\<close>)
qed

end

section \<open>Ledgers of requests\<close>

text \<open>
  A component that issues numbered requests and answers each of them at most once keeps a ledger: how
  many requests it has issued, which are open, and which have been answered, in order. A step may
  issue requests, answer open ones, each once, and drop some without an answer; those it drops are
  among the \<open>waived\<close>.
\<close>

record ledger =
  led_issued :: nat
  led_open :: "nat set"
  led_log :: "nat list"

definition ledger_ok :: "ledger \<Rightarrow> bool" where
  "ledger_ok a \<longleftrightarrow> led_open a \<subseteq> {0<..led_issued a}"

definition ledger_step :: "nat set \<Rightarrow> ledger \<Rightarrow> ledger \<Rightarrow> bool" where
  "ledger_step waived a b \<longleftrightarrow>
     led_issued a \<le> led_issued b \<and>
     (\<exists>new gone. led_log b = led_log a @ new \<and> distinct new \<and>
        set new \<subseteq> led_open a \<union> {led_issued a<..led_issued b} \<and>
        gone \<subseteq> waived \<inter> (led_open a \<union> {led_issued a<..led_issued b}) \<and> gone \<inter> set new = {} \<and>
        led_open b = led_open a \<union> {led_issued a<..led_issued b} - set new - gone)"

lemma ledger_step_refl: "ledger_step W a a"
  unfolding ledger_step_def by (intro conjI exI [of _ "[]"] exI [of _ "{}"]) auto

lemma ledger_step_ok: "ledger_ok a \<Longrightarrow> ledger_step W a b \<Longrightarrow> ledger_ok b"
  unfolding ledger_ok_def ledger_step_def by fastforce

lemma ledger_step_mono: "ledger_step W a b \<Longrightarrow> W \<subseteq> V \<Longrightarrow> ledger_step V a b"
  unfolding ledger_step_def by (elim conjE exE, intro conjI exI; (assumption | blast))

lemma ledger_step_trans:
  assumes "ledger_ok a" "ledger_step W a b" "ledger_step V b c"
  shows "ledger_step (W \<union> V) a c"
proof -
  let ?ab = "{led_issued a<..led_issued b}" and ?bc = "{led_issued b<..led_issued c}"
  let ?ac = "{led_issued a<..led_issued c}"
  obtain new gone where 1: "led_log b = led_log a @ new" "distinct new" "set new \<subseteq> led_open a \<union> ?ab"
      "gone \<subseteq> W \<inter> (led_open a \<union> ?ab)" "gone \<inter> set new = {}" "led_open b = led_open a \<union> ?ab - set new - gone"
    and le1: "led_issued a \<le> led_issued b"
    using assms(2) unfolding ledger_step_def by auto
  obtain new' gone' where 2: "led_log c = led_log b @ new'" "distinct new'" "set new' \<subseteq> led_open b \<union> ?bc"
      "gone' \<subseteq> V \<inter> (led_open b \<union> ?bc)" "gone' \<inter> set new' = {}" "led_open c = led_open b \<union> ?bc - set new' - gone'"
    and le2: "led_issued b \<le> led_issued c"
    using assms(3) unfolding ledger_step_def by auto
  have ac: "?ac = ?ab \<union> ?bc" using le1 le2 by auto
  have old: "set new \<inter> ?bc = {}" "gone \<inter> ?bc = {}"
    using 1(3,4) assms(1) le1 unfolding ledger_ok_def by fastforce+
  have apart: "set new \<inter> set new' = {}" "gone \<inter> set new' = {}" "gone' \<inter> set new = {}"
    using 1(6) 2(3,4) old by blast+
  show ?thesis unfolding ledger_step_def
  proof (intro conjI exI [of _ "new @ new'"] exI [of _ "gone \<union> gone'"])
    show "led_log c = led_log a @ (new @ new')" using 1(1) 2(1) by simp
    show "distinct (new @ new')" using 1(2) 2(2) apart(1) by simp
    show "set (new @ new') \<subseteq> led_open a \<union> ?ac" using 1(3,6) 2(3) ac by auto
    show "gone \<union> gone' \<subseteq> (W \<union> V) \<inter> (led_open a \<union> ?ac)" using 1(4,6) 2(4) ac by blast
    show "(gone \<union> gone') \<inter> set (new @ new') = {}" using 1(5) 2(5) apart by auto
    show "led_open c = led_open a \<union> ?ac - set (new @ new') - (gone \<union> gone')"
      unfolding 2(6) 1(6) ac set_append using old by blast
  qed (use le1 le2 in simp)
qed

locale delivery_ledger =
  fixes view :: "'s \<Rightarrow> ledger"
    and step :: "'o \<Rightarrow> 's \<Rightarrow> 's"
    and waives :: "'o \<Rightarrow> nat set"
    and wf :: "'s \<Rightarrow> bool"
  assumes view_ok: "wf s \<Longrightarrow> ledger_ok (view s)"
    and step_wf: "wf s \<Longrightarrow> wf (step e s)"
    and step_ledger: "wf s \<Longrightarrow> ledger_step (waives e) (view s) (view (step e s))"
begin

lemma history_wf: "wf s \<Longrightarrow> wf (fold step es s)"
  by (induction es arbitrary: s) (simp_all add: step_wf)

lemma history_ledger: "wf s \<Longrightarrow> ledger_step (\<Union>(waives ` set es)) (view s) (view (fold step es s))"
proof (induction es arbitrary: s)
  case Nil
  then show ?case by (simp add: ledger_step_refl)
next
  case (Cons e es)
  show ?case
    using ledger_step_trans [OF view_ok [OF Cons.prems] step_ledger [OF Cons.prems] Cons.IH [OF step_wf [OF Cons.prems]]]
    by simp
qed

lemma history_accounts:
  fixes es :: "'o list"
  assumes "wf s" "led_issued (view s) = 0" "led_log (view s) = []"
  defines "v \<equiv> view (fold step es s)"
  shows "distinct (led_log v)" "set (led_log v) \<inter> led_open v = {}"
    and "set (led_log v) \<union> led_open v \<subseteq> {0<..led_issued v}"
    and "{0<..led_issued v} \<subseteq> set (led_log v) \<union> led_open v \<union> \<Union>(waives ` set es)"
proof -
  have none: "led_open (view s) = {}" using view_ok [OF assms(1)] assms(2) by (auto simp: ledger_ok_def)
  have "ledger_step (\<Union>(waives ` set es)) (view s) v" unfolding v_def by (rule history_ledger [OF assms(1)])
  with none assms(2,3) show "distinct (led_log v)" "set (led_log v) \<inter> led_open v = {}"
    "set (led_log v) \<union> led_open v \<subseteq> {0<..led_issued v}"
    "{0<..led_issued v} \<subseteq> set (led_log v) \<union> led_open v \<union> \<Union>(waives ` set es)"
    unfolding ledger_step_def by auto
qed

lemma history_answers:
  assumes "wf s" "k \<in> led_open (view s)" "k \<notin> led_open (view (fold step es s))" "k \<notin> \<Union>(waives ` set es)"
  shows "k \<in> set (drop (length (led_log (view s))) (led_log (view (fold step es s))))"
proof -
  obtain new gone where n: "led_log (view (fold step es s)) = led_log (view s) @ new"
      "gone \<subseteq> \<Union>(waives ` set es)"
      "led_open (view (fold step es s)) =
         led_open (view s) \<union> {led_issued (view s)<..led_issued (view (fold step es s))} - set new - gone"
    using history_ledger [OF assms(1), of es] unfolding ledger_step_def by auto
  have "k \<in> set new" using n(2,3) assms(2-4) by auto
  then show ?thesis using n(1) by simp
qed

end

end
