(* ===== verification/Rust_Text.thy ===== *)
theory Rust_Text
  imports Wnr_Prelude
begin

text \<open>
  What the code uses of Rust's standard library on text and IP addresses: \<open>str::trim\<close>, \<open>split\<close>,
  \<open>split_whitespace\<close>, \<open>to_ascii_lowercase\<close>, \<open>parse::<u16>\<close> and \<open>u8::from_str_radix\<close>, the parsers of
  \<open>Ipv4Addr\<close> and \<open>Ipv6Addr\<close> (the recursive-descent parser of \<open>core::net\<close>) and their \<open>Display\<close>.

  A \<open>str\<close> is the list of the bytes of its UTF-8 form, as HOL characters; text handling that goes by
  characters recognises them by their encodings.
\<close>

section \<open>Slicing text\<close>

text \<open>The encodings of the characters with the property \<open>White_Space\<close>, and the length of the one that
  a text starts with (0: none). None is the beginning or the end of another, and all start with the first
  byte of a character, so that the bytes of a text can be searched one by one.\<close>

definition white_space :: "string list" where
  "white_space =
     [[CHR 0x09], [CHR 0x0A], [CHR 0x0B], [CHR 0x0C], [CHR 0x0D], [CHR 0x20], [CHR 0xC2, CHR 0x85],
      [CHR 0xC2, CHR 0xA0], [CHR 0xE1, CHR 0x9A, CHR 0x80], [CHR 0xE2, CHR 0x80, CHR 0x80],
      [CHR 0xE2, CHR 0x80, CHR 0x81], [CHR 0xE2, CHR 0x80, CHR 0x82], [CHR 0xE2, CHR 0x80, CHR 0x83],
      [CHR 0xE2, CHR 0x80, CHR 0x84], [CHR 0xE2, CHR 0x80, CHR 0x85], [CHR 0xE2, CHR 0x80, CHR 0x86],
      [CHR 0xE2, CHR 0x80, CHR 0x87], [CHR 0xE2, CHR 0x80, CHR 0x88], [CHR 0xE2, CHR 0x80, CHR 0x89],
      [CHR 0xE2, CHR 0x80, CHR 0x8A], [CHR 0xE2, CHR 0x80, CHR 0xA8], [CHR 0xE2, CHR 0x80, CHR 0xA9],
      [CHR 0xE2, CHR 0x80, CHR 0xAF], [CHR 0xE2, CHR 0x81, CHR 0x9F], [CHR 0xE3, CHR 0x80, CHR 0x80]]"

definition ws_start :: "string \<Rightarrow> nat" where
  "ws_start s = (case find (\<lambda>w. take (length w) s = w) white_space of Some w \<Rightarrow> length w | None \<Rightarrow> 0)"

definition ws_end :: "string \<Rightarrow> nat" where
  "ws_end s =
     (case find (\<lambda>w. drop (length s - length w) s = w) white_space of Some w \<Rightarrow> length w | None \<Rightarrow> 0)"

function trim_start :: "string \<Rightarrow> string" where
  "trim_start s = (if ws_start s = 0 \<or> s = [] then s else trim_start (drop (ws_start s) s))"
  by pat_completeness auto
termination by (relation "measure length") auto

function trim_end :: "string \<Rightarrow> string" where
  "trim_end s = (if ws_end s = 0 \<or> s = [] then s else trim_end (take (length s - ws_end s) s))"
  by pat_completeness auto
termination by (relation "measure length") auto

declare trim_start.simps [simp del] trim_end.simps [simp del]

definition trim :: "string \<Rightarrow> string" where
  "trim s = trim_end (trim_start s)"

text \<open>\<open>s.split(c)\<close>: never empty; adjacent separators give empty pieces.\<close>

fun split_on :: "char \<Rightarrow> string \<Rightarrow> string list" where
  "split_on d [] = [[]]"
| "split_on d (c # cs) =
     (if c = d then [] # split_on d cs
      else (case split_on d cs of [] \<Rightarrow> [[c]] | w # ws \<Rightarrow> (c # w) # ws))"

fun split_ws_all :: "string \<Rightarrow> string list" where
  "split_ws_all [] = [[]]"
| "split_ws_all (c # cs) =
     (if ws_start (c # cs) \<noteq> 0 then [] # split_ws_all (drop (ws_start (c # cs) - 1) cs)
      else (case split_ws_all cs of [] \<Rightarrow> [[c]] | w # ws \<Rightarrow> (c # w) # ws))"

definition split_whitespace :: "string \<Rightarrow> string list" where
  "split_whitespace s = filter (\<lambda>w. w \<noteq> []) (split_ws_all s)"

definition to_ascii_lowercase :: "string \<Rightarrow> string" where
  "to_ascii_lowercase s =
     map (\<lambda>c. if 65 \<le> (of_char c :: nat) \<and> (of_char c :: nat) \<le> 90
              then char_of ((of_char c :: nat) + 32) else c) s"

section \<open>Numbers\<close>

text \<open>\<open>char::to_digit\<close> and its inverse, for radix 36 and below.\<close>

definition to_digit :: "nat \<Rightarrow> char \<Rightarrow> nat option" where
  "to_digit r c =
     (let n = (of_char c :: nat);
          v = (if 48 \<le> n \<and> n \<le> 57 then n - 48
               else if 97 \<le> n \<and> n \<le> 122 then n - 87
               else if 65 \<le> n \<and> n \<le> 90 then n - 55 else r)
      in if v < r then Some v else None)"

definition digit_char :: "nat \<Rightarrow> char" where
  "digit_char d = (if d < 10 then char_of (48 + d) else char_of (87 + d))"

text \<open>\<open>from_str_radix\<close> of an unsigned type with the maximum \<open>mx\<close>: an optional \<open>+\<close>, then at least
  one digit; a wrong character or a value above the maximum is an error.\<close>

fun digits_value :: "nat \<Rightarrow> nat \<Rightarrow> nat \<Rightarrow> string \<Rightarrow> nat option" where
  "digits_value r mx acc [] = Some acc"
| "digits_value r mx acc (c # cs) =
     (case to_digit r c of
        None \<Rightarrow> None
      | Some d \<Rightarrow> if acc * r + d \<le> mx then digits_value r mx (acc * r + d) cs else None)"

definition from_str_radix :: "nat \<Rightarrow> nat \<Rightarrow> string \<Rightarrow> nat option" where
  "from_str_radix r mx s =
     (case s of
        [] \<Rightarrow> None
      | c # cs \<Rightarrow> if c = CHR ''+'' then (if cs = [] then None else digits_value r mx 0 cs)
                  else digits_value r mx 0 s)"

definition parse_u16 :: "string \<Rightarrow> u16 option" where
  "parse_u16 s = map_option word_of_nat (from_str_radix 10 65535 s)"

definition parse_hex_u8 :: "string \<Rightarrow> u8 option" where
  "parse_hex_u8 s = map_option word_of_nat (from_str_radix 16 255 s)"

text \<open>Printing: \<open>{}\<close> and \<open>{:x}\<close> of an unsigned integer, and \<open>{:02x}\<close> of a byte.\<close>

function show_radix :: "nat \<Rightarrow> nat \<Rightarrow> string" where
  "show_radix r n =
     (if n < r \<or> r < 2 then [digit_char n] else show_radix r (n div r) @ [digit_char (n mod r)])"
  by pat_completeness auto
termination
  by (relation "measure snd") auto

declare show_radix.simps [simp del]

definition fmt_02x :: "u8 \<Rightarrow> string" where
  "fmt_02x b = (let s = show_radix 16 (unat b) in replicate (2 - length s) (CHR ''0'') @ s)"

section \<open>IP addresses\<close>

datatype ipv4_addr = Ipv4Addr u8 u8 u8 u8
datatype ipv6_addr = Ipv6Addr (v6_octets: bytes)

fun v4_octets :: "ipv4_addr \<Rightarrow> bytes" where
  "v4_octets (Ipv4Addr a b c d) = [a, b, c, d]"

text \<open>\<open>Parser::read_number\<close>: the longest run of digits, at most \<open>maxd\<close> of them, no leading zero
  unless allowed, and a value that fits. The rest of the input is returned with it.\<close>

definition read_number :: "nat \<Rightarrow> nat \<Rightarrow> bool \<Rightarrow> nat \<Rightarrow> string \<Rightarrow> (nat \<times> string) option" where
  "read_number r maxd zero_prefix mx s =
     (let ds = takeWhile (\<lambda>c. to_digit r c \<noteq> None) s;
          v = foldl (\<lambda>acc c. acc * r + the (to_digit r c)) 0 ds
      in if length ds > maxd \<or> ds = [] then None
         else if \<not> zero_prefix \<and> hd ds = CHR ''0'' \<and> length ds > 1 then None
         else if v \<le> mx then Some (v, drop (length ds) s) else None)"

text \<open>\<open>read_separator\<close>: the separator is expected before every element but the first.\<close>

definition read_separator ::
  "char \<Rightarrow> nat \<Rightarrow> (string \<Rightarrow> ('a \<times> string) option) \<Rightarrow> string \<Rightarrow> ('a \<times> string) option" where
  "read_separator sep i inner s =
     (if i = 0 then inner s
      else (case s of c # cs \<Rightarrow> if c = sep then inner cs else None | [] \<Rightarrow> None))"

definition read_ipv4 :: "string \<Rightarrow> (ipv4_addr \<times> string) option" where
  "read_ipv4 s = do {
     (a, s) \<leftarrow> read_separator (CHR ''.'') 0 (read_number 10 3 False 255) s;
     (b, s) \<leftarrow> read_separator (CHR ''.'') 1 (read_number 10 3 False 255) s;
     (c, s) \<leftarrow> read_separator (CHR ''.'') 2 (read_number 10 3 False 255) s;
     (d, s) \<leftarrow> read_separator (CHR ''.'') 3 (read_number 10 3 False 255) s;
     Some (Ipv4Addr (word_of_nat a) (word_of_nat b) (word_of_nat c) (word_of_nat d), s)
   }"

definition parse_ipv4 :: "string \<Rightarrow> ipv4_addr option" where
  "parse_ipv4 s = (case read_ipv4 s of Some (ip, []) \<Rightarrow> Some ip | _ \<Rightarrow> None)"

text \<open>\<open>read_groups\<close>: at most \<open>limit\<close> sixteen-bit groups, the last two of which may be a dotted IPv4
  address (the flag says so); \<open>n\<close> counts the groups still to read.\<close>

fun read_groups :: "nat \<Rightarrow> nat \<Rightarrow> string \<Rightarrow> u16 list \<times> bool \<times> string" where
  "read_groups limit 0 s = ([], False, s)"
| "read_groups limit (Suc n) s =
     (let i = limit - Suc n in
      case (if i < limit - 1 then read_separator (CHR '':'') i read_ipv4 s else None) of
        Some (Ipv4Addr a b c d, s') \<Rightarrow> ([u16_from_be a b, u16_from_be c d], True, s')
      | None \<Rightarrow>
          (case read_separator (CHR '':'') i (read_number 16 4 True 65535) s of
             None \<Rightarrow> ([], False, s)
           | Some (g, s') \<Rightarrow>
               (case read_groups limit n s' of (gs, v4, s'') \<Rightarrow> (word_of_nat g # gs, v4, s''))))"

definition groups_to_ipv6 :: "u16 list \<Rightarrow> ipv6_addr" where
  "groups_to_ipv6 gs = Ipv6Addr (concat (map u16_to_be gs))"

definition read_ipv6 :: "string \<Rightarrow> (ipv6_addr \<times> string) option" where
  "read_ipv6 s =
     (case read_groups 8 8 s of (hd_groups, hd_v4, s1) \<Rightarrow>
        if length hd_groups = 8 then Some (groups_to_ipv6 hd_groups, s1)
        else if hd_v4 then None
        else (case s1 of
                c1 # c2 # s2 \<Rightarrow>
                  if c1 = CHR '':'' \<and> c2 = CHR '':'' then
                    (let limit = 8 - (length hd_groups + 1) in
                     case read_groups limit limit s2 of (tl_groups, _, s3) \<Rightarrow>
                       Some (groups_to_ipv6 (hd_groups
                               @ replicate (8 - length hd_groups - length tl_groups) 0
                               @ tl_groups), s3))
                  else None
              | _ \<Rightarrow> None))"

definition parse_ipv6 :: "string \<Rightarrow> ipv6_addr option" where
  "parse_ipv6 s = (case read_ipv6 s of Some (ip, []) \<Rightarrow> Some ip | _ \<Rightarrow> None)"

text \<open>\<open>Display for Ipv4Addr\<close> and \<open>Display for Ipv6Addr\<close>: the longest run of two or more zero groups is
  compressed (the first of them on a tie), and a v4-mapped address shows its IPv4 part.\<close>

definition show_u8 :: "u8 \<Rightarrow> string" where
  "show_u8 b = show_radix 10 (unat b)"

fun show_ipv4 :: "ipv4_addr \<Rightarrow> string" where
  "show_ipv4 (Ipv4Addr a b c d) =
     show_u8 a @ ''.'' @ show_u8 b @ ''.'' @ show_u8 c @ ''.'' @ show_u8 d"

fun v6_segments :: "bytes \<Rightarrow> u16 list" where
  "v6_segments (a # b # bs) = u16_from_be a b # v6_segments bs"
| "v6_segments _ = []"

fun zero_span :: "u16 list \<Rightarrow> nat \<Rightarrow> nat \<times> nat \<Rightarrow> nat \<times> nat \<Rightarrow> nat \<times> nat" where
  "zero_span [] i longest current = longest"
| "zero_span (g # gs) i longest current =
     (if g = 0 then
        (let cur = (if snd current = 0 then (i, 1) else (fst current, snd current + 1)) in
         zero_span gs (i + 1) (if snd cur > snd longest then cur else longest) cur)
      else zero_span gs (i + 1) longest (0, 0))"

fun join_with :: "string \<Rightarrow> string list \<Rightarrow> string" where
  "join_with sep [] = []"
| "join_with sep [w] = w"
| "join_with sep (w # ws) = w @ sep @ join_with sep ws"

definition show_groups :: "u16 list \<Rightarrow> string" where
  "show_groups gs = join_with '':'' (map (\<lambda>g. show_radix 16 (unat g)) gs)"

definition show_ipv6 :: "ipv6_addr \<Rightarrow> string" where
  "show_ipv6 ip =
     (let gs = v6_segments (v6_octets ip);
          os = v6_octets ip
      in if take 6 gs = [0, 0, 0, 0, 0, 0xffff] then
           ''::ffff:'' @ show_ipv4 (Ipv4Addr (os ! 12) (os ! 13) (os ! 14) (os ! 15))
         else (case zero_span gs 0 (0, 0) (0, 0) of (start, n) \<Rightarrow>
           if n > 1 then show_groups (take start gs) @ ''::'' @ show_groups (drop (start + n) gs)
           else show_groups gs))"

section \<open>Splitting and joining\<close>

named_theorems text_simps "digits, separators and the parsers on printed text"

lemma split_on_not_Nil [simp]: "split_on d s \<noteq> []"
  by (induction s) (auto split: list.splits)

lemma split_on_none: "d \<notin> set s \<Longrightarrow> split_on d s = [s]"
  by (induction s) auto

lemma split_on_append: "d \<notin> set w \<Longrightarrow> split_on d (w @ d # s) = w # split_on d s"
  by (induction w) auto

lemma split_on_join:
  "ws \<noteq> [] \<Longrightarrow> (\<And>w. w \<in> set ws \<Longrightarrow> d \<notin> set w) \<Longrightarrow> split_on d (join_with [d] ws) = ws"
proof (induction "[d]" ws rule: join_with.induct)
  case (2 w)
  then show ?case by (simp add: split_on_none)
next
  case (3 w v ws)
  then show ?case by (simp add: split_on_append)
qed simp

lemma set_join_with: "set (join_with [d] ws) \<subseteq> insert d (\<Union>w\<in>set ws. set w)"
  by (induction "[d]" ws rule: join_with.induct) auto

text \<open>An ASCII character that is not white space is no part of any.\<close>

definition plain_char :: "char \<Rightarrow> bool" where
  "plain_char c \<longleftrightarrow> (of_char c :: nat) < 128 \<and> (of_char c :: nat) \<notin> {9, 10, 11, 12, 13, 32}"

lemma white_space_ends:
  "w \<in> set white_space \<Longrightarrow> w \<noteq> [] \<and> \<not> plain_char (hd w) \<and> \<not> plain_char (last w)"
proof -
  have "list_all (\<lambda>w. w \<noteq> [] \<and> \<not> plain_char (hd w) \<and> \<not> plain_char (last w)) white_space" by code_simp
  then show "w \<in> set white_space \<Longrightarrow> w \<noteq> [] \<and> \<not> plain_char (hd w) \<and> \<not> plain_char (last w)"
    by (simp add: list_all_iff)
qed

lemma ws_start_plain: "plain_char c \<Longrightarrow> ws_start (c # s) = 0"
proof -
  assume c: "plain_char c"
  have "take (length w) (c # s) \<noteq> w" if "w \<in> set white_space" for w
    using white_space_ends [OF that] c by (cases w) auto
  then show ?thesis by (simp add: ws_start_def option.case_eq_if find_None_iff)
qed

lemma ws_start_blank: "ws_start (CHR '' '' # s) = 1"
  by (simp add: ws_start_def white_space_def)

lemma ws_end_plain: "plain_char (last s) \<Longrightarrow> ws_end s = 0"
proof -
  assume c: "plain_char (last s)"
  have "drop (length s - length w) s \<noteq> w" if "w \<in> set white_space" for w
    using white_space_ends [OF that] c by (metis drop_eq_Nil last_drop not_le)
  then show ?thesis by (simp add: ws_end_def option.case_eq_if find_None_iff)
qed

lemma trim_id:
  assumes "\<And>c. c \<in> set s \<Longrightarrow> plain_char c"
  shows "trim s = s"
proof (cases s)
  case (Cons c cs)
  then have "ws_start s = 0" "ws_end s = 0"
    using assms by (simp_all add: ws_start_plain ws_end_plain)
  then show ?thesis by (simp add: trim_def trim_start.simps [of s] trim_end.simps [of s])
qed (simp add: trim_def trim_start.simps trim_end.simps)

section \<open>Digits\<close>

lemma to_digit_digit_char [text_simps]: "d < r \<Longrightarrow> r \<le> 36 \<Longrightarrow> to_digit r (digit_char d) = Some d"
  by (auto simp: to_digit_def digit_char_def Let_def take_bit_nat_eq_self)

lemma to_digit_bound: "to_digit r c = Some d \<Longrightarrow> d < r"
  by (auto simp: to_digit_def Let_def split: if_splits)

lemma digit_char_no_separator:
  assumes "d < 36"
  shows "digit_char d \<noteq> CHR '':''" "digit_char d \<noteq> CHR ''.''" "digit_char d \<noteq> CHR ''+''"
    "digit_char d \<noteq> CHR ''-''" "plain_char (digit_char d)" "digit_char d \<noteq> CHR '',''"
proof -
  have n: "of_char (digit_char d) = (if d < 10 then 48 + d else 87 + d)"
    using assms by (simp add: digit_char_def take_bit_nat_eq_self)
  have *: "digit_char d \<noteq> c" if "(of_char c :: nat) < 48 \<or> (of_char c :: nat) = 58" for c
    using n that assms by (auto split: if_splits)
  show "digit_char d \<noteq> CHR '':''" "digit_char d \<noteq> CHR ''.''" "digit_char d \<noteq> CHR ''+''"
    "digit_char d \<noteq> CHR ''-''" "digit_char d \<noteq> CHR '',''"
    by (rule *, simp)+
  show "plain_char (digit_char d)"
    using n assms by (auto simp: plain_char_def split: if_splits)
qed

lemma digit_char_zero: "d < 36 \<Longrightarrow> digit_char d = CHR ''0'' \<longleftrightarrow> d = 0"
proof -
  assume d: "d < 36"
  have n: "of_char (digit_char d) = (if d < 10 then 48 + d else 87 + d)"
    using d by (simp add: digit_char_def take_bit_nat_eq_self)
  have "of_char (digit_char d) = (of_char (CHR ''0'') :: nat) \<longleftrightarrow> d = 0"
    unfolding n using d by auto
  then show ?thesis by (simp only: of_char_eq_iff)
qed

lemma show_radix_small: "n < r \<Longrightarrow> show_radix r n = [digit_char n]"
  by (simp add: show_radix.simps)

lemma show_radix_not_Nil [simp]: "show_radix r n \<noteq> []"
  by (simp add: show_radix.simps [of r n])

lemma show_radix_chars:
  "2 \<le> r \<Longrightarrow> c \<in> set (show_radix r n) \<Longrightarrow> \<exists>d<r. c = digit_char d"
proof (induction r n rule: show_radix.induct)
  case (1 r n)
  show ?case
  proof (cases "n < r")
    case True
    with "1.prems" show ?thesis by (auto simp: show_radix_small)
  next
    case False
    with "1.prems" have "c \<in> set (show_radix r (n div r)) \<or> c = digit_char (n mod r)"
      by (auto simp: show_radix.simps [of r n])
    with "1.IH" False "1.prems"(1) show ?thesis
      by (metis mod_less_divisor not_less order_less_le_trans zero_less_numeral)
  qed
qed

lemma digits_value_append:
  "digits_value r mx acc (xs @ ys) =
     (case digits_value r mx acc xs of None \<Rightarrow> None | Some v \<Rightarrow> digits_value r mx v ys)"
  by (induction xs arbitrary: acc) (auto split: option.splits)

lemma digits_value_show:
  "2 \<le> r \<Longrightarrow> r \<le> 36 \<Longrightarrow> n \<le> mx \<Longrightarrow> digits_value r mx 0 (show_radix r n) = Some n"
proof (induction r n rule: show_radix.induct)
  case (1 r n)
  show ?case
  proof (cases "n < r")
    case True
    with "1.prems" show ?thesis by (simp add: show_radix_small text_simps)
  next
    case False
    have "n div r \<le> mx" using "1.prems"(3) div_le_dividend le_trans by blast
    with "1.IH" False "1.prems"
    have "digits_value r mx 0 (show_radix r (n div r)) = Some (n div r)" by simp
    with False "1.prems" show ?thesis
      by (simp add: show_radix.simps [of r n] digits_value_append text_simps)
  qed
qed

lemma digits_value_zeros:
  "0 < r \<Longrightarrow> r \<le> 36 \<Longrightarrow> digits_value r mx 0 (replicate k (CHR ''0'') @ s) = digits_value r mx 0 s"
proof (induction k)
  case (Suc k)
  have "to_digit r (CHR ''0'') = Some 0" using Suc.prems by (simp add: to_digit_def)
  with Suc show ?case by simp
qed simp

lemma from_str_radix_plain:
  "s \<noteq> [] \<Longrightarrow> hd s \<noteq> CHR ''+'' \<Longrightarrow> from_str_radix r mx s = digits_value r mx 0 s"
  by (cases s) (auto simp: from_str_radix_def)

lemma show_radix_hd:
  assumes "2 \<le> r" "r \<le> 36"
  shows "hd (show_radix r n) \<noteq> CHR ''+''"
proof -
  obtain d where "d < r" "hd (show_radix r n) = digit_char d"
    using show_radix_chars [OF assms(1) hd_in_set] by (metis show_radix_not_Nil)
  then show ?thesis using digit_char_no_separator(3) [of d] assms(2) by simp
qed

lemma from_str_radix_show:
  "2 \<le> r \<Longrightarrow> r \<le> 36 \<Longrightarrow> n \<le> mx \<Longrightarrow> from_str_radix r mx (show_radix r n) = Some n"
  by (simp add: from_str_radix_plain show_radix_hd digits_value_show)

lemma unat_u8 [simp]: "unat (b :: u8) < 256"
  using unsigned_less [of b] by simp

lemma unat_u16 [simp]: "unat (p :: u16) < 65536"
  using unsigned_less [of p] by simp

lemma parse_u16_show: "parse_u16 (show_radix 10 (unat p)) = Some p"
proof -
  have "unat p \<le> 65535" using unat_u16 [of p] by linarith
  then show ?thesis by (simp add: parse_u16_def from_str_radix_show)
qed

lemma fmt_02x_two:
  "fmt_02x b = [digit_char (unat b div 16), digit_char (unat b mod 16)]"
proof -
  have lt: "unat b div 16 < 16" using unat_u8 [of b] by linarith
  show ?thesis
  proof (cases "unat b < 16")
    case True
    moreover have "CHR ''0'' = digit_char 0" using digit_char_zero [of 0] by simp
    ultimately show ?thesis by (simp add: fmt_02x_def show_radix_small)
  next
    case False
    then have "show_radix 16 (unat b) = [digit_char (unat b div 16), digit_char (unat b mod 16)]"
      using lt by (simp add: show_radix.simps [of 16 "unat b"] show_radix_small)
    then show ?thesis by (simp add: fmt_02x_def)
  qed
qed

lemma fmt_02x_chars: "c \<in> set (fmt_02x b) \<Longrightarrow> \<exists>d<16. c = digit_char d"
proof -
  assume "c \<in> set (fmt_02x b)"
  then have "c = digit_char (unat b div 16) \<or> c = digit_char (unat b mod 16)"
    by (auto simp: fmt_02x_two)
  moreover have "unat b div 16 < 16" "unat b mod 16 < 16" using unat_u8 [of b] by linarith+
  ultimately show ?thesis by blast
qed

lemma fmt_02x_no_separator:
  "CHR '':'' \<notin> set (fmt_02x b)" "CHR ''.'' \<notin> set (fmt_02x b)" "CHR ''-'' \<notin> set (fmt_02x b)"
  "c \<in> set (fmt_02x b) \<Longrightarrow> plain_char c"
proof -
  have d: "c \<in> set (fmt_02x b) \<Longrightarrow> \<exists>d<36. c = digit_char d" for c
    by (drule fmt_02x_chars) force
  show "CHR '':'' \<notin> set (fmt_02x b)" "CHR ''.'' \<notin> set (fmt_02x b)" "CHR ''-'' \<notin> set (fmt_02x b)"
    using d digit_char_no_separator by metis+
  show "c \<in> set (fmt_02x b) \<Longrightarrow> plain_char c"
    using d digit_char_no_separator by metis
qed

lemma parse_hex_u8_fmt: "parse_hex_u8 (fmt_02x b) = Some b"
proof -
  have lt: "unat b div 16 < 16" "unat b \<le> 255" using unat_u8 [of b] by linarith+
  have "from_str_radix 16 255 (fmt_02x b) = Some (unat b)"
    using lt digit_char_no_separator(3) [of "unat b div 16"]
    by (simp add: fmt_02x_two from_str_radix_plain text_simps)
  then show ?thesis by (simp add: parse_hex_u8_def)
qed

section \<open>The address parsers on printed text\<close>

text \<open>A printed number, followed by something that is not a digit, reads back.\<close>

lemma takeWhile_digits:
  assumes "2 \<le> r" "r \<le> 36" "rest = [] \<or> to_digit r (hd rest) = None"
  shows "takeWhile (\<lambda>c. to_digit r c \<noteq> None) (show_radix r n @ rest) = show_radix r n"
proof -
  have "\<forall>c\<in>set (show_radix r n). to_digit r c \<noteq> None"
    using show_radix_chars [OF assms(1)] assms(2) by (fastforce simp: text_simps)
  then have "takeWhile (\<lambda>c. to_digit r c \<noteq> None) (show_radix r n @ rest)
      = show_radix r n @ takeWhile (\<lambda>c. to_digit r c \<noteq> None) rest"
    by simp
  also have "takeWhile (\<lambda>c. to_digit r c \<noteq> None) rest = []"
    using assms(3) by (cases rest) auto
  finally show ?thesis by simp
qed

lemma foldl_digits:
  "2 \<le> r \<Longrightarrow> r \<le> 36 \<Longrightarrow> foldl (\<lambda>acc c. acc * r + the (to_digit r c)) 0 (show_radix r n) = n"
proof (induction r n rule: show_radix.induct)
  case (1 r n)
  then show ?case
    by (cases "n < r") (simp_all add: show_radix_small show_radix.simps [of r n] text_simps)
qed

lemma show_radix_leading_zero:
  "2 \<le> r \<Longrightarrow> r \<le> 36 \<Longrightarrow> hd (show_radix r n) = CHR ''0'' \<Longrightarrow> n = 0"
proof (induction r n rule: show_radix.induct)
  case (1 r n)
  show ?case
  proof (cases "n < r")
    case True
    with "1.prems" show ?thesis using digit_char_zero [of n] by (simp add: show_radix_small)
  next
    case False
    with "1.prems" have "hd (show_radix r (n div r)) = CHR ''0''"
      by (simp add: show_radix.simps [of r n])
    with "1.IH" False "1.prems" have "n div r = 0" by simp
    with False "1.prems"(1) show ?thesis by (simp add: div_eq_0_iff)
  qed
qed

lemma show_radix_length:
  "2 \<le> r \<Longrightarrow> n < r ^ k \<Longrightarrow> 0 < k \<Longrightarrow> length (show_radix r n) \<le> k"
proof (induction k arbitrary: n)
  case (Suc k)
  show ?case
  proof (cases "n < r")
    case True
    then show ?thesis by (simp add: show_radix_small)
  next
    case False
    with Suc.prems have k: "0 < k" by (cases k) auto
    have "n div r < r ^ k" using Suc.prems(2) by (simp add: less_mult_imp_div_less mult.commute)
    then have "length (show_radix r (n div r)) \<le> k" using Suc.IH Suc.prems(1) k by blast
    with False Suc.prems(1) show ?thesis by (simp add: show_radix.simps [of r n])
  qed
qed simp

lemma read_number_show:
  assumes "2 \<le> r" "r \<le> 36" "rest = [] \<or> to_digit r (hd rest) = None"
    and "n < r ^ k" "0 < k" "n \<le> mx"
  shows "read_number r k z mx (show_radix r n @ rest) = Some (n, rest)"
proof -
  have "\<not> (hd (show_radix r n) = CHR ''0'' \<and> length (show_radix r n) > 1)"
    using show_radix_leading_zero [OF assms(1,2), of n] assms(1)
    by (auto simp: show_radix_small [of 0 r])
  moreover have "\<not> k < length (show_radix r n)"
    using show_radix_length [OF assms(1,4,5)] by simp
  ultimately show ?thesis
    using assms(6)
    by (simp only: read_number_def takeWhile_digits [OF assms(1-3)] foldl_digits [OF assms(1,2)] Let_def)
       simp
qed

lemma to_digit_separators [text_simps]:
  "to_digit 10 (CHR ''.'') = None" "to_digit 16 (CHR '':'') = None" "to_digit 10 (CHR '':'') = None"
  by (simp_all add: to_digit_def)

lemma parse_ipv4_show: "parse_ipv4 (show_ipv4 ip) = Some ip"
proof -
  have rn: "read_number 10 3 False 255 (show_radix 10 (unat b) @ rest) = Some (unat b, rest)"
    if "rest = [] \<or> hd rest = CHR ''.''" for b :: u8 and rest
  proof (rule read_number_show)
    show "unat b < 10 ^ 3" by (rule order_less_le_trans [OF unat_u8]) simp
    show "unat b \<le> 255" using unat_u8 [of b] by linarith
    show "rest = [] \<or> to_digit 10 (hd rest) = None" using that by (auto simp: text_simps)
  qed simp_all
  show ?thesis
    using rn [of "[]"]
    by (cases ip) (simp add: parse_ipv4_def read_ipv4_def read_separator_def show_u8_def rn)
qed

text \<open>The IPv4 parser needs a dot, so it fails on any text without one.\<close>

lemma read_number_suffix: "read_number r k z mx s = Some (v, s') \<Longrightarrow> set s' \<subseteq> set s"
  by (auto simp: read_number_def Let_def split: if_splits dest: in_set_dropD)

lemma read_ipv4_dot:
  assumes "CHR ''.'' \<notin> set s"
  shows "read_ipv4 s = None"
proof (rule ccontr)
  assume "read_ipv4 s \<noteq> None"
  then obtain a s1 where 1: "read_number 10 3 False 255 s = Some (a, s1)"
    and 2: "read_separator (CHR ''.'') 1 (read_number 10 3 False 255) s1 \<noteq> None"
    by (auto simp: read_ipv4_def read_separator_def [where i = 0] split: Option.bind_splits)
  from 2 have "CHR ''.'' \<in> set s1"
    by (auto simp: read_separator_def split: list.splits if_splits)
  with read_number_suffix [OF 1] assms show False by auto
qed

lemma parse_ipv4_no_dot: "CHR ''.'' \<notin> set s \<Longrightarrow> parse_ipv4 s = None"
  by (simp add: parse_ipv4_def read_ipv4_dot)

text \<open>
  Six two-digit groups, as a MAC address is printed, are not an IPv6 address: the parser reads
  them as the head of one and then misses the \<open>::\<close>.
\<close>

lemma read_hex_pair:
  assumes "rest = [] \<or> hd rest = CHR '':''"
  shows "read_number 16 4 True 65535 (fmt_02x b @ rest) = Some (unat b, rest)"
proof -
  have d: "unat b div 16 < 16" "unat b mod 16 < 16" using unat_u8 [of b] by linarith+
  have t: "takeWhile (\<lambda>c. to_digit 16 c \<noteq> None) (fmt_02x b @ rest) = fmt_02x b"
    using assms d by (cases rest) (auto simp: fmt_02x_two text_simps)
  have "unat b \<le> 65535" using unat_u8 [of b] by linarith
  moreover have "foldl (\<lambda>acc c. acc * 16 + the (to_digit 16 c)) 0 (fmt_02x b) = unat b"
    using d by (simp add: fmt_02x_two text_simps)
  moreover have "length (fmt_02x b) = 2" by (simp add: fmt_02x_two)
  ultimately show ?thesis
    by (simp only: read_number_def t Let_def) auto
qed

lemma read_groups_hex:
  assumes "CHR ''.'' \<notin> set (sep @ fmt_02x b @ rest)" "n < limit"
    and "sep = (if Suc n = limit then [] else '':'')" "rest = [] \<or> hd rest = CHR '':''"
  shows "read_groups limit (Suc n) (sep @ fmt_02x b @ rest) =
     (case read_groups limit n rest of (gs, v4, s) \<Rightarrow> (word_of_nat (unat b) # gs, v4, s))"
proof -
  have no4: "read_separator (CHR '':'') (limit - Suc n) read_ipv4 (sep @ fmt_02x b @ rest) = None"
    using assms(1,3) by (auto simp: read_separator_def read_ipv4_dot split: list.splits)
  have "read_separator (CHR '':'') (limit - Suc n) (read_number 16 4 True 65535) (sep @ fmt_02x b @ rest)
      = Some (unat b, rest)"
    using assms(2-4) by (auto simp: read_separator_def read_hex_pair split: list.splits)
  then show ?thesis by (simp add: no4 Let_def)
qed

lemma hex_text_no_dot: "CHR ''.'' \<notin> set (join_with '':'' (map fmt_02x bs))"
proof
  assume "CHR ''.'' \<in> set (join_with '':'' (map fmt_02x bs))"
  then have "\<exists>b\<in>set bs. CHR ''.'' \<in> set (fmt_02x b)"
    using set_join_with [of "CHR '':''" "map fmt_02x bs"] by auto
  then show False by (simp add: fmt_02x_no_separator)
qed

lemma parse_ipv6_mac: "parse_ipv6 (join_with '':'' (map fmt_02x [a, b, c, d, e, f])) = None"
proof -
  let ?s6 = "'':'' @ fmt_02x f @ []"
  let ?s5 = "'':'' @ fmt_02x e @ ?s6"
  let ?s4 = "'':'' @ fmt_02x d @ ?s5"
  let ?s3 = "'':'' @ fmt_02x c @ ?s4"
  let ?s2 = "'':'' @ fmt_02x b @ ?s3"
  let ?s1 = "[] @ fmt_02x a @ ?s2"
  have nd: "CHR ''.'' \<notin> set ?s1" using hex_text_no_dot [of "[a, b, c, d, e, f]"] by simp
  have g1: "read_groups 8 8 ?s1 = (case read_groups 8 7 ?s2 of (gs, v, s) \<Rightarrow> (ucast a # gs, v, s))"
    using read_groups_hex [of "[]" a ?s2 7 8] nd by simp
  have g2: "read_groups 8 7 ?s2 = (case read_groups 8 6 ?s3 of (gs, v, s) \<Rightarrow> (ucast b # gs, v, s))"
    using read_groups_hex [of "'':''" b ?s3 6 8] nd by simp
  have g3: "read_groups 8 6 ?s3 = (case read_groups 8 5 ?s4 of (gs, v, s) \<Rightarrow> (ucast c # gs, v, s))"
    using read_groups_hex [of "'':''" c ?s4 5 8] nd by simp
  have g4: "read_groups 8 5 ?s4 = (case read_groups 8 4 ?s5 of (gs, v, s) \<Rightarrow> (ucast d # gs, v, s))"
    using read_groups_hex [of "'':''" d ?s5 4 8] nd by simp
  have g5: "read_groups 8 4 ?s5 = (case read_groups 8 3 ?s6 of (gs, v, s) \<Rightarrow> (ucast e # gs, v, s))"
    using read_groups_hex [of "'':''" e ?s6 3 8] nd by simp
  have g6: "read_groups 8 3 ?s6 = (case read_groups 8 2 [] of (gs, v, s) \<Rightarrow> (ucast f # gs, v, s))"
    using read_groups_hex [of "'':''" f "[]" 2 8] nd by simp
  have g7: "read_groups 8 2 [] = ([], False, [])"
    by (simp add: numeral_2_eq_2 read_separator_def)
  have "read_groups 8 8 ?s1 = ([ucast a, ucast b, ucast c, ucast d, ucast e, ucast f], False, [])"
    by (simp only: g1 g2 g3 g4 g5 g6 g7 prod.case)
  then have "read_ipv6 ?s1 = None" by (simp add: read_ipv6_def)
  then show ?thesis by (simp add: parse_ipv6_def)
qed

lemma read_groups_numeral:
  "read_groups limit (numeral k) s =
     (let i = limit - numeral k in
      case (if i < limit - 1 then read_separator (CHR '':'') i read_ipv4 s else None) of
        Some (Ipv4Addr a b c d, s') \<Rightarrow> ([u16_from_be a b, u16_from_be c d], True, s')
      | None \<Rightarrow>
          (case read_separator (CHR '':'') i (read_number 16 4 True 65535) s of
             None \<Rightarrow> ([], False, s)
           | Some (g, s') \<Rightarrow>
               (case read_groups limit (pred_numeral k) s' of (gs, v4, s'') \<Rightarrow> (word_of_nat g # gs, v4, s''))))"
  by (simp only: numeral_eq_Suc read_groups.simps)

text \<open>Unfolding the address parsers on closed text.\<close>

lemmas parse_closed = read_groups_numeral read_separator_def read_ipv4_def read_number_def to_digit_def

section \<open>Words\<close>

definition is_word :: "string \<Rightarrow> bool" where
  "is_word w \<longleftrightarrow> w \<noteq> [] \<and> list_all plain_char w"

lemma split_ws_all_not_Nil [simp]: "split_ws_all s \<noteq> []"
  by (induction s) (auto split: list.splits)

lemma split_ws_all_word:
  "list_all plain_char w \<Longrightarrow> split_ws_all w = [w]"
  "list_all plain_char w \<Longrightarrow> split_ws_all (w @ CHR '' '' # s) = w # split_ws_all s"
  by (induction w) (auto simp: ws_start_plain ws_start_blank)

lemma split_whitespace_word:
  "is_word w \<Longrightarrow> split_whitespace w = [w]"
  "is_word w \<Longrightarrow> split_whitespace (w @ CHR '' '' # s) = w # split_whitespace s"
proof -
  show "is_word w \<Longrightarrow> split_whitespace w = [w]"
    by (simp add: split_whitespace_def is_word_def split_ws_all_word(1))
  show "is_word w \<Longrightarrow> split_whitespace (w @ CHR '' '' # s) = w # split_whitespace s"
    using split_ws_all_word(2) by (simp add: split_whitespace_def is_word_def)
qed

lemma show_radix_word: "2 \<le> r \<Longrightarrow> r \<le> 36 \<Longrightarrow> list_all plain_char (show_radix r n)"
  unfolding list_all_iff by (metis show_radix_chars digit_char_no_separator(5) order_less_le_trans)

lemma show_radix_no_dash: "2 \<le> r \<Longrightarrow> r \<le> 36 \<Longrightarrow> CHR ''-'' \<notin> set (show_radix r n)"
  by (metis show_radix_chars digit_char_no_separator(4) order_less_le_trans)

lemma show_ipv4_word: "is_word (show_ipv4 ip)" "CHR ''-'' \<notin> set (show_ipv4 ip)"
  by (cases ip; simp add: is_word_def show_u8_def show_radix_word show_radix_no_dash; simp add: plain_char_def)+

end
