(* ===== verification/Dnet_Eth.thy ===== *)
theory Dnet_Eth
  imports Rust_Text Interfaces
begin

text \<open>
  \<open>wnr-dnet/src/eth.rs\<close>: Ethernet addresses, their text forms, and the fixed 14-byte header.
  \<open>eth_ntop\<close>/\<open>eth_pton\<close> are inverse on the printed form and on the two other accepted spellings;
  \<open>EthHdr::parse\<close>/\<open>encode\<close> are an instance of the \<open>wire_format\<close> interface.
\<close>

section \<open>Addresses\<close>

record eth_addr =
  eth_data :: bytes

definition eth_addr_new :: "bytes \<Rightarrow> eth_addr" where
  "eth_addr_new d = \<lparr>eth_data = d\<rparr>"

text \<open>The array type \<open>[u8; 6]\<close>.\<close>

definition eth_wf :: "eth_addr \<Rightarrow> bool" where
  "eth_wf a \<longleftrightarrow> length (eth_data a) = 6"

definition ETH_ADDR_BROADCAST :: bytes where
  "ETH_ADDR_BROADCAST = replicate 6 0xff"

definition eth_is_multicast :: "eth_addr \<Rightarrow> bool" where
  "eth_is_multicast a = (eth_data a ! 0 AND 1 \<noteq> 0)"

definition eth_is_broadcast :: "eth_addr \<Rightarrow> bool" where
  "eth_is_broadcast a = (a = eth_addr_new ETH_ADDR_BROADCAST)"

section \<open>Text\<close>

definition eth_ntop :: "eth_addr \<Rightarrow> string" where
  "eth_ntop a = join_with '':'' (map fmt_02x (eth_data a))"

text \<open>The separated forms: exactly six pieces, each a hexadecimal \<open>u8\<close>.\<close>

definition eth_octets :: "string list \<Rightarrow> bytes option" where
  "eth_octets parts = (if length parts \<noteq> 6 then None else those (map parse_hex_u8 parts))"

text \<open>The compact form: two digits per octet.\<close>

fun eth_compact :: "string \<Rightarrow> bytes option" where
  "eth_compact (h # l # cs) = do {
     hi \<leftarrow> parse_hex_u8 [h];
     lo \<leftarrow> parse_hex_u8 [l];
     bs \<leftarrow> eth_compact cs;
     Some ((push_bit 4 hi OR lo) # bs)
   }"
| "eth_compact _ = Some []"

definition is_ascii_hexdigit :: "char \<Rightarrow> bool" where
  "is_ascii_hexdigit c = (to_digit 16 c \<noteq> None)"

definition eth_pton :: "string \<Rightarrow> eth_addr option" where
  "eth_pton t =
     (let s = trim t in
      if CHR '':'' \<in> set s then map_option eth_addr_new (eth_octets (split_on (CHR '':'') s))
      else if CHR ''-'' \<in> set s then map_option eth_addr_new (eth_octets (split_on (CHR ''-'') s))
      else (let digits = filter is_ascii_hexdigit s in
            if length digits \<noteq> 12 then None else map_option eth_addr_new (eth_compact digits)))"

section \<open>The header\<close>

record eth_hdr =
  hdr_dst :: eth_addr
  hdr_src :: eth_addr
  hdr_proto :: u16

definition ETH_HDR_LEN :: nat where "ETH_HDR_LEN = 14"
definition ETH_ADDR_LEN :: nat where "ETH_ADDR_LEN = 6"
definition ETH_TYPE_LEN :: nat where "ETH_TYPE_LEN = 2"
definition ETH_CRC_LEN :: nat where "ETH_CRC_LEN = 4"
definition ETH_LEN_MIN :: nat where "ETH_LEN_MIN = 64"
definition ETH_LEN_MAX :: nat where "ETH_LEN_MAX = 1518"
definition ETH_MTU :: nat where "ETH_MTU = ETH_LEN_MAX - ETH_HDR_LEN - ETH_CRC_LEN"
definition ETH_MIN :: nat where "ETH_MIN = ETH_LEN_MIN - ETH_HDR_LEN - ETH_CRC_LEN"

definition ETH_TYPE_PUP :: u16 where "ETH_TYPE_PUP = 0x0200"
definition ETH_TYPE_IP :: u16 where "ETH_TYPE_IP = 0x0800"
definition ETH_TYPE_ARP :: u16 where "ETH_TYPE_ARP = 0x0806"
definition ETH_TYPE_REVARP :: u16 where "ETH_TYPE_REVARP = 0x8035"
definition ETH_TYPE_8021Q :: u16 where "ETH_TYPE_8021Q = 0x8100"
definition ETH_TYPE_IPV6 :: u16 where "ETH_TYPE_IPV6 = 0x86DD"
definition ETH_TYPE_MPLS :: u16 where "ETH_TYPE_MPLS = 0x8847"
definition ETH_TYPE_MPLS_MCAST :: u16 where "ETH_TYPE_MPLS_MCAST = 0x8848"
definition ETH_TYPE_PPPOEDISC :: u16 where "ETH_TYPE_PPPOEDISC = 0x8863"
definition ETH_TYPE_PPPOE :: u16 where "ETH_TYPE_PPPOE = 0x8864"
definition ETH_TYPE_LOOPBACK :: u16 where "ETH_TYPE_LOOPBACK = 0x9000"

definition eth_hdr_parse :: "bytes \<Rightarrow> eth_hdr option" where
  "eth_hdr_parse buf =
     (if length buf < ETH_HDR_LEN then None
      else Some \<lparr>hdr_dst = eth_addr_new (slice 0 6 buf), hdr_src = eth_addr_new (slice 6 12 buf),
                 hdr_proto = u16_from_be (buf ! 12) (buf ! 13)\<rparr>)"

definition eth_hdr_encode :: "eth_hdr \<Rightarrow> bytes \<Rightarrow> bytes option" where
  "eth_hdr_encode h buf = do {
     buf \<leftarrow> write_slice 0 6 (eth_data (hdr_dst h)) buf;
     buf \<leftarrow> write_slice 6 12 (eth_data (hdr_src h)) buf;
     write_slice 12 14 (u16_to_be (hdr_proto h)) buf
   }"

definition eth_hdr_wf :: "eth_hdr \<Rightarrow> bool" where
  "eth_hdr_wf h \<longleftrightarrow> eth_wf (hdr_dst h) \<and> eth_wf (hdr_src h)"

definition eth_hdr_image :: "eth_hdr \<Rightarrow> bytes" where
  "eth_hdr_image h = eth_data (hdr_dst h) @ eth_data (hdr_src h) @ u16_to_be (hdr_proto h)"

section \<open>Text round trips\<close>

lemma eth_octets_length: "eth_octets parts = Some bs \<Longrightarrow> length bs = 6"
  unfolding eth_octets_def by (auto simp: those_Some_iff dest: map_eq_imp_length_eq split: if_splits)

lemma eth_compact_length: "eth_compact cs = Some bs \<Longrightarrow> length bs = length cs div 2"
  by (induction cs arbitrary: bs rule: eth_compact.induct) (auto split: Option.bind_splits)

lemma eth_pton_wf_result: "eth_pton s = Some a \<Longrightarrow> eth_wf a"
  unfolding eth_pton_def eth_wf_def eth_addr_new_def Let_def
  by (auto split: if_splits dest: eth_octets_length eth_compact_length)

lemma eth_octets_printed: "length bs = 6 \<Longrightarrow> eth_octets (map fmt_02x bs) = Some bs"
  by (simp add: eth_octets_def o_def those_Some_iff parse_hex_u8_fmt)

text \<open>Octets printed with a separator that is neither a digit nor white space.\<close>

lemma separated_text:
  assumes "length bs = 6" and sep: "sep = CHR '':'' \<or> sep = CHR ''-''"
  shows "trim (join_with [sep] (map fmt_02x bs)) = join_with [sep] (map fmt_02x bs)"
    and "split_on sep (join_with [sep] (map fmt_02x bs)) = map fmt_02x bs"
    and "sep \<in> set (join_with [sep] (map fmt_02x bs))"
    and "c \<notin> {sep, CHR ''+''} \<Longrightarrow> c = CHR '':'' \<Longrightarrow> c \<notin> set (join_with [sep] (map fmt_02x bs))"
proof -
  let ?s = "join_with [sep] (map fmt_02x bs)"
  have chars: "c = sep \<or> (\<exists>b. c \<in> set (fmt_02x b))" if "c \<in> set ?s" for c
    using that set_join_with [of sep "map fmt_02x bs"] by auto
  have "plain_char sep" using sep by (auto simp: plain_char_def)
  then show "trim ?s = ?s"
    using chars fmt_02x_no_separator(4) by (intro trim_id) blast
  show "split_on sep ?s = map fmt_02x bs"
    using assms by (intro split_on_join) (auto simp: fmt_02x_no_separator)
  show "sep \<in> set ?s"
    using assms(1) by (auto simp: numeral_eq_Suc length_Suc_conv)
  show "c \<notin> {sep, CHR ''+''} \<Longrightarrow> c = CHR '':'' \<Longrightarrow> c \<notin> set ?s"
    using chars fmt_02x_no_separator(1) by blast
qed

lemma eth_pton_separated:
  assumes "length bs = 6" "sep = CHR '':'' \<or> sep = CHR ''-''"
  shows "eth_pton (join_with [sep] (map fmt_02x bs)) = Some (eth_addr_new bs)"
proof (cases "sep = CHR '':''")
  case True
  then show ?thesis
    using separated_text [OF assms] eth_octets_printed [OF assms(1)] by (simp add: eth_pton_def)
next
  case False
  then have "CHR '':'' \<notin> set (join_with [sep] (map fmt_02x bs))"
    using separated_text(4) [OF assms, of "CHR '':''"] assms(2) by auto
  with False show ?thesis
    using separated_text [OF assms] eth_octets_printed [OF assms(1)] assms(2) by (auto simp: eth_pton_def)
qed

lemma hex_digit_value:
  assumes "d < 16"
  shows "parse_hex_u8 [digit_char d] = Some (word_of_nat d)"
  using assms digit_char_no_separator(3) [of d]
  by (simp add: parse_hex_u8_def from_str_radix_plain text_simps)

lemma nibbles_join: "push_bit 4 (word_of_nat (unat b div 16)) OR word_of_nat (unat b mod 16) = (b :: u8)"
proof -
  have 1: "word_of_nat (unat b div 16) = drop_bit 4 b"
    by (simp add: drop_bit_eq_div word_arith_nat_div)
  have 2: "word_of_nat (unat b mod 16) = b AND mask 4"
    by (simp add: take_bit_eq_mod word_arith_nat_mod flip: take_bit_eq_mask)
  show ?thesis
    unfolding 1 2 by (rule bit_word_eqI) (auto simp: bit_simps)
qed

lemma eth_compact_printed: "eth_compact (concat (map fmt_02x bs)) = Some bs"
proof (induction bs)
  case (Cons b bs)
  have "unat b div 16 < 16" "unat b mod 16 < 16" using unat_u8 [of b] by linarith+
  with Cons show ?case
    by (simp add: fmt_02x_two hex_digit_value nibbles_join)
qed simp

lemma eth_pton_compact:
  assumes "length bs = 6"
  shows "eth_pton (concat (map fmt_02x bs)) = Some (eth_addr_new bs)"
proof -
  let ?s = "concat (map fmt_02x bs)"
  have c: "\<exists>b. c \<in> set (fmt_02x b)" if "c \<in> set ?s" for c using that by auto
  have "trim ?s = ?s" using c fmt_02x_no_separator(4) by (intro trim_id) blast
  moreover have "CHR '':'' \<notin> set ?s" "CHR ''-'' \<notin> set ?s"
    using fmt_02x_no_separator by auto
  moreover have "filter is_ascii_hexdigit ?s = ?s"
    using fmt_02x_chars by (fastforce simp: filter_id_conv is_ascii_hexdigit_def text_simps)
  moreover have "length ?s = 2 * length bs" by (induction bs) (simp_all add: fmt_02x_two)
  ultimately show ?thesis using assms by (simp add: eth_pton_def eth_compact_printed)
qed

section \<open>The header as a wire format\<close>

lemma eth_hdr_parse_front:
  "length d = 6 \<Longrightarrow> length s = 6 \<Longrightarrow> eth_hdr_parse (d @ s @ a # b # rest) =
     Some \<lparr>hdr_dst = eth_addr_new d, hdr_src = eth_addr_new s, hdr_proto = u16_from_be a b\<rparr>"
  by (simp add: eth_hdr_parse_def ETH_HDR_LEN_def slice_def nth_append)

interpretation eth_wire: wire_format eth_hdr_image eth_hdr_parse 14 eth_hdr_wf eth_hdr_encode
proof
  fix h :: eth_hdr and buf rest :: bytes
  {
    assume wf: "eth_hdr_wf h"
    then have l: "length (eth_data (hdr_dst h)) = 6" "length (eth_data (hdr_src h)) = 6"
      by (auto simp: eth_hdr_wf_def eth_wf_def)
    show "length (eth_hdr_image h) = 14" using l by (simp add: eth_hdr_image_def)
    show "eth_hdr_parse (eth_hdr_image h @ rest) = Some h"
      using eth_hdr_parse_front [OF l]
      by (simp add: eth_hdr_image_def u16_to_be_def eth_addr_new_def u16_be_inverse)
    show "14 \<le> length buf \<Longrightarrow> eth_hdr_encode h buf = Some (eth_hdr_image h @ drop 14 buf)"
      using l by (simp add: eth_hdr_encode_def eth_hdr_image_def write_slice_def)
    show "length buf < 14 \<Longrightarrow> eth_hdr_encode h buf = None"
      by (auto simp: eth_hdr_encode_def write_slice_def split: Option.bind_splits if_splits)
  }
  show "length buf < 14 \<Longrightarrow> eth_hdr_parse buf = None"
    by (simp add: eth_hdr_parse_def ETH_HDR_LEN_def)
  assume "14 \<le> length buf"
  then obtain d q where "buf = d @ q" "length d = 6" "8 \<le> length q"
    using split_front [of 6 8 buf] by auto
  moreover from this obtain s q' where "q = s @ q'" "length s = 6" "2 \<le> length q'"
    using split_front [of 6 2 q] by auto
  moreover from this obtain a b r where "q' = a # b # r" using two_bytes by blast
  ultimately have buf: "buf = d @ s @ [a, b] @ r" "length d = 6" "length s = 6" by auto
  from buf show "\<exists>h. eth_hdr_wf h \<and> eth_hdr_parse buf = Some h \<and> eth_hdr_image h = take 14 buf"
    by (auto simp: eth_hdr_parse_front eth_hdr_wf_def eth_wf_def eth_hdr_image_def eth_addr_new_def
          wire_simps)
qed

end
