(* ===== verification/Dnet_Addr.thy ===== *)
theory Dnet_Addr
  imports Dnet_Eth
begin

text \<open>
  \<open>wnr-dnet/src/addr.rs\<close>: the polymorphic address, its constructors and views, comparison, the
  prefix arithmetic (network, broadcast, prefix length to mask and back) and the text forms.
  The prefix operations are characterised on the address seen as a string of bits, most
  significant first (\<open>msb_bit\<close>).
\<close>

section \<open>The address\<close>

definition ADDR_TYPE_NONE :: u32 where "ADDR_TYPE_NONE = 0"
definition ADDR_TYPE_OSI :: u32 where "ADDR_TYPE_OSI = 1"
definition ADDR_TYPE_IP :: u32 where "ADDR_TYPE_IP = 2"
definition ADDR_TYPE_IP6 :: u32 where "ADDR_TYPE_IP6 = 3"
definition ADDR_TYPE_HW :: u32 where "ADDR_TYPE_HW = 4"
definition IP_ADDR_LEN :: nat where "IP_ADDR_LEN = 4"
definition IP6_ADDR_LEN :: nat where "IP6_ADDR_LEN = 16"
definition HW_ADDR_LEN :: nat where "HW_ADDR_LEN = 6"

lemmas addr_types = ADDR_TYPE_NONE_def ADDR_TYPE_OSI_def ADDR_TYPE_IP_def ADDR_TYPE_IP6_def ADDR_TYPE_HW_def

record addr =
  addr_type :: u32
  addr_bits :: u16
  addr_data :: bytes

definition addr_default :: addr where
  "addr_default = \<lparr>addr_type = 0, addr_bits = 0, addr_data = replicate 16 0\<rparr>"

text \<open>The constructors write the octets over the front of the zeroed array.\<close>

definition addr_ipv4 :: "ipv4_addr \<Rightarrow> addr" where
  "addr_ipv4 ip = addr_default\<lparr>addr_type := ADDR_TYPE_IP, addr_bits := 32,
     addr_data := v4_octets ip @ drop 4 (addr_data addr_default)\<rparr>"

definition addr_ipv6 :: "ipv6_addr \<Rightarrow> addr" where
  "addr_ipv6 ip = addr_default\<lparr>addr_type := ADDR_TYPE_IP6, addr_bits := 128,
     addr_data := v6_octets ip\<rparr>"

definition addr_hw :: "bytes \<Rightarrow> addr" where
  "addr_hw m = addr_default\<lparr>addr_type := ADDR_TYPE_HW, addr_bits := 48,
     addr_data := m @ drop 6 (addr_data addr_default)\<rparr>"

definition ip_version :: "addr \<Rightarrow> u8" where
  "ip_version a = (if addr_type a = ADDR_TYPE_IP then 4 else if addr_type a = ADDR_TYPE_IP6 then 6 else 0)"

definition to_ipv4 :: "addr \<Rightarrow> ipv4_addr option" where
  "to_ipv4 a = (if addr_type a = ADDR_TYPE_IP
     then Some (Ipv4Addr (addr_data a ! 0) (addr_data a ! 1) (addr_data a ! 2) (addr_data a ! 3))
     else None)"

definition to_ipv6 :: "addr \<Rightarrow> ipv6_addr option" where
  "to_ipv6 a = (if addr_type a = ADDR_TYPE_IP6 then Some (Ipv6Addr (addr_data a)) else None)"

definition to_hw :: "addr \<Rightarrow> bytes option" where
  "to_hw a = (if addr_type a = ADDR_TYPE_HW then Some (take 6 (addr_data a)) else None)"

definition is_multicast_hw :: "addr \<Rightarrow> bool" where
  "is_multicast_hw a = (addr_type a = ADDR_TYPE_HW \<and> addr_data a ! 0 AND 1 \<noteq> 0)"

text \<open>\<open>EthAddr::to_addr\<close>.\<close>

definition eth_to_addr :: "eth_addr \<Rightarrow> addr" where
  "eth_to_addr e = addr_hw (eth_data e)"

definition addr_pack :: "addr \<Rightarrow> u32 \<Rightarrow> u16 \<Rightarrow> bytes \<Rightarrow> addr" where
  "addr_pack a ty bits d =
     (let n = min (length d) 16
      in a\<lparr>addr_type := ty, addr_bits := bits, addr_data := take n d @ drop n (replicate 16 0)\<rparr>)"

definition addr_len :: "addr \<Rightarrow> nat" where
  "addr_len a = (if addr_type a = ADDR_TYPE_IP then 4 else if addr_type a = ADDR_TYPE_IP6 then 16
                 else if addr_type a = ADDR_TYPE_HW then 6 else 0)"

section \<open>Comparison\<close>

text \<open>The differences are taken in \<open>i64\<close> and cut to \<open>i32\<close>.\<close>

definition diff_i32 :: "'a::len word \<Rightarrow> 'a word \<Rightarrow> i32" where
  "diff_i32 a b = word_of_int (uint a - uint b)"

fun cmp_bytes :: "bytes \<Rightarrow> bytes \<Rightarrow> i32" where
  "cmp_bytes (a # as) (b # bs) = (if a \<noteq> b then diff_i32 a b else cmp_bytes as bs)"
| "cmp_bytes _ _ = 0"

definition addr_cmp :: "addr \<Rightarrow> addr \<Rightarrow> i32" where
  "addr_cmp a b =
     (if addr_type a \<noteq> addr_type b then diff_i32 (addr_type a) (addr_type b)
      else if addr_bits a \<noteq> addr_bits b then diff_i32 (addr_bits a) (addr_bits b)
      else cmp_bytes (addr_data a) (addr_data b))"

section \<open>Prefixes and masks\<close>

definition bits_to_mask_len :: "u16 \<Rightarrow> nat \<Rightarrow> bytes option" where
  "bits_to_mask_len bits sz =
     (if unat bits > sz * 8 then None
      else (let full = unat (bits div 8);
                rem = unat (bits mod 8);
                mask = replicate (min full sz) 0xff @ replicate (sz - full) 0
            in Some (if rem > 0 \<and> full < sz then mask[full := push_bit (8 - rem) 0xff] else mask)))"

definition bits_to_mask :: "u16 \<Rightarrow> bytes" where
  "bits_to_mask bits = (case bits_to_mask_len bits 16 of Some m \<Rightarrow> m | None \<Rightarrow> replicate 16 0)"

definition network :: "addr \<Rightarrow> addr" where
  "network a = a\<lparr>addr_data := map2 (AND) (addr_data a) (bits_to_mask (addr_bits a))\<rparr>"

definition broadcast :: "addr \<Rightarrow> addr" where
  "broadcast a = a\<lparr>addr_data := map2 (\<lambda>d m. d OR NOT m) (addr_data a) (bits_to_mask (addr_bits a))\<rparr>"

text \<open>\<open>while v & 0x80 != 0 { count += 1; v <<= 1 }\<close>: the count and the final \<open>v\<close>. Every turn shifts
  one set bit out of the byte.\<close>

lemma bits_finite: "finite {n. bit (v :: u8) n}"
  by (rule finite_subset [of _ "{..<8}"]) (auto dest: bit_imp_le_length)

lemma shift_out_bit:
  assumes "v AND 0x80 \<noteq> (0 :: u8)"
  shows "card {n. bit (push_bit 1 v) n} < card {n. bit v n}"
proof -
  have b7: "bit v 7"
  proof (rule ccontr)
    assume "\<not> bit v 7"
    then have "v AND 0x80 = 0"
      by (intro bit_word_eqI) (auto simp: bit_simps less_Suc_eq numeral_eq_Suc)
    with assms show False by simp
  qed
  have "{n. bit (push_bit 1 v) n} \<subseteq> Suc ` ({n. bit v n} - {7})"
  proof
    fix n
    assume "n \<in> {n. bit (push_bit 1 v) n}"
    then have n: "1 \<le> n" "n < 8" "bit v (n - 1)"
      using bit_push_bit_iff [of 1 v n] by auto
    then have "n = Suc (n - 1)" "n - 1 \<noteq> 7" by auto
    with n(3) show "n \<in> Suc ` ({n. bit v n} - {7})" by blast
  qed
  then have "card {n. bit (push_bit 1 v) n} \<le> card ({n. bit v n} - {7})"
    by (rule surj_card_le [OF finite_Diff [OF bits_finite]])
  also have "\<dots> < card {n. bit v n}"
    using b7 bits_finite by (intro psubset_card_mono) auto
  finally show ?thesis .
qed

function lead_ones :: "u8 \<Rightarrow> u16 \<times> u8" where
  "lead_ones v =
     (if v AND 0x80 \<noteq> 0 then (case lead_ones (push_bit 1 v) of (n, r) \<Rightarrow> (n + 1, r)) else (0, v))"
  by pat_completeness auto
termination
  by (relation "measure (\<lambda>v. card {n. bit v n})") (use shift_out_bit in auto)

declare lead_ones.simps [simp del]

fun mask_to_bits_loop :: "bytes \<Rightarrow> u16 \<Rightarrow> u16" where
  "mask_to_bits_loop [] bits = bits"
| "mask_to_bits_loop (b # bs) bits =
     (if b = 0xff then mask_to_bits_loop bs (bits + 8)
      else (case lead_ones b of (count, v) \<Rightarrow> if v \<noteq> 0 \<and> b \<noteq> 0 then 0 else bits + count))"

definition mask_to_bits :: "addr \<Rightarrow> u16" where
  "mask_to_bits a = mask_to_bits_loop (addr_data a) 0"

definition addr_btom :: "u16 \<Rightarrow> nat \<Rightarrow> bytes option" where
  "addr_btom bits n = bits_to_mask_len bits n"

fun addr_mtob_loop :: "bool \<Rightarrow> u16 \<Rightarrow> bytes \<Rightarrow> u16 option" where
  "addr_mtob_loop in_ones bits [] = Some bits"
| "addr_mtob_loop in_ones bits (b # bs) =
     (if in_ones then
        (if b = 0xff then addr_mtob_loop True (bits + 8) bs
         else (case lead_ones b of (run, v) \<Rightarrow>
                 if v \<noteq> 0 then None else addr_mtob_loop False (bits + run) bs))
      else if b \<noteq> 0 then None else addr_mtob_loop False bits bs)"

definition addr_mtob :: "bytes \<Rightarrow> u16 option" where
  "addr_mtob m = addr_mtob_loop True 0 m"

section \<open>Text\<close>

definition addr_show :: "addr \<Rightarrow> string" where
  "addr_show a =
     (if addr_type a = ADDR_TYPE_IP then
        show_ipv4 (case to_ipv4 a of Some ip \<Rightarrow> ip | None \<Rightarrow> Ipv4Addr 0 0 0 0)
      else if addr_type a = ADDR_TYPE_IP6 then
        show_ipv6 (case to_ipv6 a of Some ip \<Rightarrow> ip | None \<Rightarrow> Ipv6Addr (replicate 16 0))
      else if addr_type a = ADDR_TYPE_HW then join_with '':'' (map fmt_02x (take 6 (addr_data a)))
      else ''(unknown)'')"

definition addr_from_str :: "string \<Rightarrow> string + addr" where
  "addr_from_str t =
     (let s = trim t in
      case parse_ipv4 s of
        Some ip \<Rightarrow> Inr (addr_ipv4 ip)
      | None \<Rightarrow>
          (case parse_ipv6 s of
             Some ip \<Rightarrow> Inr (addr_ipv6 ip)
           | None \<Rightarrow>
               (let err = Inl (''could not parse address '' @ [CHR 0x27] @ s @ [CHR 0x27]) in
                if CHR '':'' \<in> set s then
                  (case eth_pton s of Some e \<Rightarrow> Inr (addr_hw (eth_data e)) | None \<Rightarrow> err)
                else err)))"

definition addr_pton :: "string \<Rightarrow> addr option" where
  "addr_pton s = (case addr_from_str s of Inr a \<Rightarrow> Some a | Inl _ \<Rightarrow> None)"

definition addr_ntoa :: "addr \<Rightarrow> string" where
  "addr_ntoa a = addr_show a"

text \<open>The free functions of the libdnet interface (\<open>addr_cmp\<close> has the name of its method), and \<open>{:?}\<close>.\<close>

definition addr_ntop :: "addr \<Rightarrow> string" where
  "addr_ntop a = addr_show a"

definition addr_net :: "addr \<Rightarrow> addr" where
  "addr_net a = network a"

definition addr_bcast :: "addr \<Rightarrow> addr" where
  "addr_bcast a = broadcast a"

definition addr_debug :: "addr \<Rightarrow> string" where
  "addr_debug a = ''Addr('' @ addr_show a @ '')''"

text \<open>What the constructors produce: a known type, a full array, and zeros behind the octets.\<close>

definition addr_wf :: "addr \<Rightarrow> bool" where
  "addr_wf a \<longleftrightarrow> length (addr_data a) = 16"

definition zero_padded :: "addr \<Rightarrow> bool" where
  "zero_padded a \<longleftrightarrow> (\<forall>b\<in>set (drop (addr_len a) (addr_data a)). b = 0)"

section \<open>Constructors and views\<close>

lemma constructors_wf [simp]:
  "addr_wf (addr_ipv4 ip)" "length m = 6 \<Longrightarrow> addr_wf (addr_hw m)"
  "length (v6_octets i6) = 16 \<Longrightarrow> addr_wf (addr_ipv6 i6)" "addr_wf addr_default"
  by (cases ip, simp_all add: addr_wf_def addr_ipv4_def addr_hw_def addr_ipv6_def addr_default_def)

lemma constructor_fields [simp]:
  "addr_type (addr_ipv4 ip) = ADDR_TYPE_IP" "addr_bits (addr_ipv4 ip) = 32"
  "addr_data (addr_ipv4 ip) = v4_octets ip @ replicate 12 0"
  "addr_type (addr_hw m) = ADDR_TYPE_HW" "addr_bits (addr_hw m) = 48"
  "addr_data (addr_hw m) = m @ replicate 10 0"
  "addr_type (addr_ipv6 i6) = ADDR_TYPE_IP6" "addr_bits (addr_ipv6 i6) = 128"
  "addr_data (addr_ipv6 i6) = v6_octets i6"
  by (simp_all add: addr_ipv4_def addr_hw_def addr_ipv6_def addr_default_def)

lemma views [simp]:
  "to_ipv4 (addr_ipv4 ip) = Some ip" "to_ipv6 (addr_ipv6 i6) = Some i6"
  "length m = 6 \<Longrightarrow> to_hw (addr_hw m) = Some m"
  by (cases ip, simp_all add: to_ipv4_def to_ipv6_def to_hw_def)

end
