(* ===== verification/Dnet_Arp.thy ===== *)
theory Dnet_Arp
  imports Dnet_Addr
begin

text \<open>
  \<open>wnr-dnet/src/arp.rs\<close>: the ARP header and the Ethernet/IP body as wire formats, whole messages, and
  the userspace cache as a table with one entry per protocol address.
\<close>

section \<open>Header\<close>

definition ARP_HDR_LEN :: nat where "ARP_HDR_LEN = 8"
definition ARP_ETHIP_LEN :: nat where "ARP_ETHIP_LEN = 20"
definition ARP_HRD_ETH :: u16 where "ARP_HRD_ETH = 1"
definition ARP_PRO_IP :: u16 where "ARP_PRO_IP = 0x0800"
definition ARP_OP_REQUEST :: u16 where "ARP_OP_REQUEST = 1"
definition ARP_HRD_IEEE802 :: u16 where "ARP_HRD_IEEE802 = 0x0006"
definition ARP_HRD_IEEE80211_RADIOTAP :: u16 where "ARP_HRD_IEEE80211_RADIOTAP = 0x0323"
definition ARP_OP_REPLY :: u16 where "ARP_OP_REPLY = 2"
definition ARP_OP_REVREQUEST :: u16 where "ARP_OP_REVREQUEST = 3"
definition ARP_OP_REVREPLY :: u16 where "ARP_OP_REVREPLY = 4"

record arp_hdr =
  arp_hrd :: u16
  arp_pro :: u16
  arp_hln :: u8
  arp_pln :: u8
  arp_op :: u16

definition arp_hdr_parse :: "bytes \<Rightarrow> arp_hdr option" where
  "arp_hdr_parse buf =
     (if length buf < ARP_HDR_LEN then None
      else Some \<lparr>arp_hrd = u16_from_be (buf ! 0) (buf ! 1), arp_pro = u16_from_be (buf ! 2) (buf ! 3),
                 arp_hln = buf ! 4, arp_pln = buf ! 5, arp_op = u16_from_be (buf ! 6) (buf ! 7)\<rparr>)"

definition arp_hdr_encode :: "arp_hdr \<Rightarrow> bytes \<Rightarrow> bytes option" where
  "arp_hdr_encode h buf = do {
     buf \<leftarrow> write_slice 0 2 (u16_to_be (arp_hrd h)) buf;
     buf \<leftarrow> write_slice 2 4 (u16_to_be (arp_pro h)) buf;
     buf \<leftarrow> write_byte 4 (arp_hln h) buf;
     buf \<leftarrow> write_byte 5 (arp_pln h) buf;
     write_slice 6 8 (u16_to_be (arp_op h)) buf
   }"

definition arp_hdr_image :: "arp_hdr \<Rightarrow> bytes" where
  "arp_hdr_image h = u16_to_be (arp_hrd h) @ u16_to_be (arp_pro h) @ [arp_hln h, arp_pln h]
     @ u16_to_be (arp_op h)"

lemma arp_hdr_split:
  assumes "8 \<le> length buf"
  obtains b0 b1 b2 b3 b4 b5 b6 b7 rest where "buf = b0 # b1 # b2 # b3 # b4 # b5 # b6 # b7 # rest"
  using assms by (auto simp: length_unfold)

interpretation arp_hdr_wire: wire_format arp_hdr_image arp_hdr_parse 8 "\<lambda>_. True" arp_hdr_encode
proof
  fix h :: arp_hdr and buf rest :: bytes
  show "length (arp_hdr_image h) = 8" by (simp add: arp_hdr_image_def)
  show "arp_hdr_parse (arp_hdr_image h @ rest) = Some h"
    by (simp add: arp_hdr_image_def arp_hdr_parse_def ARP_HDR_LEN_def u16_to_be_def u16_be_inverse)
  show "length buf < 8 \<Longrightarrow> arp_hdr_parse buf = None"
    by (simp add: arp_hdr_parse_def ARP_HDR_LEN_def)
  show "8 \<le> length buf \<Longrightarrow> \<exists>h. True \<and> arp_hdr_parse buf = Some h \<and> arp_hdr_image h = take 8 buf"
    by (erule arp_hdr_split) (simp add: arp_hdr_parse_def ARP_HDR_LEN_def arp_hdr_image_def wire_simps)
  show "8 \<le> length buf \<Longrightarrow> arp_hdr_encode h buf = Some (arp_hdr_image h @ drop 8 buf)"
    by (erule arp_hdr_split)
       (simp add: arp_hdr_encode_def arp_hdr_image_def write_slice_def write_byte_def u16_to_be_def)
  show "length buf < 8 \<Longrightarrow> arp_hdr_encode h buf = None"
    by (auto simp: arp_hdr_encode_def write_slice_def write_byte_def split: Option.bind_splits if_splits)
qed

section \<open>Ethernet/IP body\<close>

record arp_ethip =
  arp_sha :: eth_addr
  arp_spa :: addr
  arp_tha :: eth_addr
  arp_tpa :: addr

definition arp_ethip_parse :: "bytes \<Rightarrow> arp_ethip option" where
  "arp_ethip_parse buf =
     (if length buf < ARP_ETHIP_LEN then None
      else Some \<lparr>arp_sha = eth_addr_new (slice 0 6 buf),
                 arp_spa = addr_ipv4 (Ipv4Addr (buf ! 6) (buf ! 7) (buf ! 8) (buf ! 9)),
                 arp_tha = eth_addr_new (slice 10 16 buf),
                 arp_tpa = addr_ipv4 (Ipv4Addr (buf ! 16) (buf ! 17) (buf ! 18) (buf ! 19))\<rparr>)"

text \<open>A protocol address that is not IPv4 is written as \<open>0.0.0.0\<close>.\<close>

definition ipv4_octets_or_zero :: "addr \<Rightarrow> bytes" where
  "ipv4_octets_or_zero a = v4_octets (case to_ipv4 a of Some ip \<Rightarrow> ip | None \<Rightarrow> Ipv4Addr 0 0 0 0)"

definition arp_ethip_encode :: "arp_ethip \<Rightarrow> bytes \<Rightarrow> bytes option" where
  "arp_ethip_encode b buf = do {
     buf \<leftarrow> write_slice 0 6 (eth_data (arp_sha b)) buf;
     buf \<leftarrow> write_slice 6 10 (ipv4_octets_or_zero (arp_spa b)) buf;
     buf \<leftarrow> write_slice 10 16 (eth_data (arp_tha b)) buf;
     write_slice 16 20 (ipv4_octets_or_zero (arp_tpa b)) buf
   }"

definition is_ipv4_addr :: "addr \<Rightarrow> bool" where
  "is_ipv4_addr a \<longleftrightarrow> (case to_ipv4 a of Some ip \<Rightarrow> a = addr_ipv4 ip | None \<Rightarrow> False)"

definition arp_ethip_wf :: "arp_ethip \<Rightarrow> bool" where
  "arp_ethip_wf b \<longleftrightarrow> eth_wf (arp_sha b) \<and> eth_wf (arp_tha b)
     \<and> is_ipv4_addr (arp_spa b) \<and> is_ipv4_addr (arp_tpa b)"

definition arp_ethip_image :: "arp_ethip \<Rightarrow> bytes" where
  "arp_ethip_image b = eth_data (arp_sha b) @ ipv4_octets_or_zero (arp_spa b)
     @ eth_data (arp_tha b) @ ipv4_octets_or_zero (arp_tpa b)"

lemma is_ipv4_addr_iff: "is_ipv4_addr a \<longleftrightarrow> (\<exists>ip. a = addr_ipv4 ip)"
  by (auto simp: is_ipv4_addr_def split: option.splits)

lemma is_ipv4_addr_ipv4 [simp]: "is_ipv4_addr (addr_ipv4 ip)"
  by (simp add: is_ipv4_addr_def)

lemma ipv4_octets_ipv4 [simp]: "ipv4_octets_or_zero (addr_ipv4 ip) = v4_octets ip"
  by (simp add: ipv4_octets_or_zero_def)

lemma v4_octets_length [simp]: "length (v4_octets ip) = 4"
  by (cases ip) simp

lemma ipv4_octets_length [simp]: "length (ipv4_octets_or_zero a) = 4"
  by (simp add: ipv4_octets_or_zero_def)

lemma arp_ethip_parse_front:
  "length s = 6 \<Longrightarrow> length t = 6 \<Longrightarrow>
     arp_ethip_parse (s @ v4_octets p @ t @ v4_octets q @ rest) =
       Some \<lparr>arp_sha = eth_addr_new s, arp_spa = addr_ipv4 p, arp_tha = eth_addr_new t, arp_tpa = addr_ipv4 q\<rparr>"
  by (cases p; cases q) (simp add: arp_ethip_parse_def ARP_ETHIP_LEN_def slice_def nth_append)

lemma four_octets:
  assumes "4 + n \<le> length xs"
  shows "\<exists>ip r. xs = v4_octets ip @ r \<and> n \<le> length r"
proof -
  obtain a b c d r where "xs = a # b # c # d # r" "n \<le> length r"
    using assms by (auto simp: numeral_eq_Suc Suc_le_length_iff)
  then show ?thesis by (intro exI [of _ "Ipv4Addr a b c d"]) auto
qed

interpretation arp_body_wire:
  wire_format arp_ethip_image arp_ethip_parse 20 arp_ethip_wf arp_ethip_encode
proof
  fix b :: arp_ethip and buf rest :: bytes
  {
    assume wf: "arp_ethip_wf b"
    then obtain p q where b: "length (eth_data (arp_sha b)) = 6" "length (eth_data (arp_tha b)) = 6"
        "arp_spa b = addr_ipv4 p" "arp_tpa b = addr_ipv4 q"
      by (auto simp: arp_ethip_wf_def eth_wf_def is_ipv4_addr_iff)
    show "length (arp_ethip_image b) = 20" using b by (simp add: arp_ethip_image_def)
    show "arp_ethip_parse (arp_ethip_image b @ rest) = Some b"
      using arp_ethip_parse_front [OF b(1,2)] b by (simp add: arp_ethip_image_def eth_addr_new_def)
    show "20 \<le> length buf \<Longrightarrow> arp_ethip_encode b buf = Some (arp_ethip_image b @ drop 20 buf)"
      using b by (simp add: arp_ethip_encode_def arp_ethip_image_def write_slice_def)
    show "length buf < 20 \<Longrightarrow> arp_ethip_encode b buf = None"
      by (auto simp: arp_ethip_encode_def write_slice_def split: Option.bind_splits if_splits)
  }
  show "length buf < 20 \<Longrightarrow> arp_ethip_parse buf = None"
    by (simp add: arp_ethip_parse_def ARP_ETHIP_LEN_def)
  assume "20 \<le> length buf"
  then obtain s b1 where 1: "buf = s @ b1" "length s = 6" "4 + 10 \<le> length b1"
    using split_front [of 6 14 buf] by auto
  obtain p b2 where 2: "b1 = v4_octets p @ b2" "6 + 4 \<le> length b2"
    using four_octets [OF 1(3)] by auto
  obtain t b3 where 3: "b2 = t @ b3" "length t = 6" "4 + 0 \<le> length b3"
    using split_front [OF 2(2)] by auto
  obtain q r where 4: "b3 = v4_octets q @ r" using four_octets [OF 3(3)] by auto
  show "\<exists>b. arp_ethip_wf b \<and> arp_ethip_parse buf = Some b \<and> arp_ethip_image b = take 20 buf"
    using 1(1,2) 2(1) 3(1,2) 4
    by (auto simp: arp_ethip_parse_front arp_ethip_wf_def eth_wf_def is_ipv4_addr_iff
          arp_ethip_image_def eth_addr_new_def)
qed

section \<open>Messages\<close>

record arp_msg =
  msg_hdr :: arp_hdr
  msg_body :: arp_ethip

definition arp_request :: "addr \<Rightarrow> addr \<Rightarrow> eth_addr \<Rightarrow> arp_msg" where
  "arp_request spa tpa sha =
     \<lparr>msg_hdr = \<lparr>arp_hrd = ARP_HRD_ETH, arp_pro = ARP_PRO_IP, arp_hln = 6, arp_pln = 4, arp_op = ARP_OP_REQUEST\<rparr>,
      msg_body = \<lparr>arp_sha = sha, arp_spa = spa, arp_tha = eth_addr_new (replicate 6 0), arp_tpa = tpa\<rparr>\<rparr>"

definition arp_msg_encode :: "arp_msg \<Rightarrow> bytes \<Rightarrow> bytes option" where
  "arp_msg_encode m buf =
     (if length buf < ARP_HDR_LEN then None
      else do {
        h \<leftarrow> arp_hdr_encode (msg_hdr m) (take ARP_HDR_LEN buf);
        b \<leftarrow> arp_ethip_encode (msg_body m) (drop ARP_HDR_LEN buf);
        Some (h @ b)
      })"

definition arp_total_len :: "arp_msg \<Rightarrow> nat" where
  "arp_total_len m = ARP_HDR_LEN + ARP_ETHIP_LEN"

text \<open>C21: Encoding an ARP message into a buffer succeeds exactly when the buffer holds
  \<open>total_len\<close> = 28 bytes (it panics on a shorter one); the header and body parsers, run where the
  code's test runs them, then return the message's two parts, and the bytes after the message are kept.\<close>
theorem arp_message_roundtrip:
  assumes "arp_ethip_wf (msg_body m)"
  shows "if arp_total_len m \<le> length buf
         then \<exists>out. arp_msg_encode m buf = Some out \<and> length out = length buf
            \<and> arp_hdr_parse out = Some (msg_hdr m)
            \<and> arp_ethip_parse (drop ARP_HDR_LEN out) = Some (msg_body m)
            \<and> drop (arp_total_len m) out = drop (arp_total_len m) buf
         else arp_msg_encode m buf = None"
proof (cases "arp_total_len m \<le> length buf")
  case True
  then have l: "8 \<le> length (take 8 buf)" "20 \<le> length (drop 8 buf)"
    by (simp_all add: arp_total_len_def ARP_HDR_LEN_def ARP_ETHIP_LEN_def)
  obtain h where h: "arp_hdr_encode (msg_hdr m) (take 8 buf) = Some h" "arp_hdr_parse h = Some (msg_hdr m)"
      "length h = length (take 8 buf)"
    using arp_hdr_wire.encode_then_parse [OF _ l(1)] by auto
  obtain b where b: "arp_ethip_encode (msg_body m) (drop 8 buf) = Some b"
      "arp_ethip_parse b = Some (msg_body m)" "length b = length (drop 8 buf)" "drop 20 b = drop 20 (drop 8 buf)"
    using arp_body_wire.encode_then_parse [OF assms l(2)] by auto
  have lh: "length h = 8" using h(3) l(1) by simp
  then have "arp_hdr_parse (h @ b) = Some (msg_hdr m)"
    using arp_hdr_wire.parse_ignores_tail [of h b] h(2) by simp
  with True h b lh l show ?thesis
    by (simp add: arp_msg_encode_def arp_total_len_def ARP_HDR_LEN_def ARP_ETHIP_LEN_def)
next
  case False
  then show ?thesis
    using arp_body_wire.encode_panics [OF assms, of "drop 8 buf"]
    by (auto simp: arp_msg_encode_def arp_total_len_def ARP_HDR_LEN_def ARP_ETHIP_LEN_def
        split: Option.bind_splits)
qed

theorem arp_message_roundtrip_witness:
  "arp_msg_encode (arp_request (addr_ipv4 (Ipv4Addr 192 0 2 1)) (addr_ipv4 (Ipv4Addr 192 0 2 2))
       (eth_addr_new [0xaa, 0xbb, 0xcc, 0xdd, 0xee, 1])) (replicate 28 0) \<noteq> None
   \<and> arp_msg_encode (arp_request (addr_ipv4 (Ipv4Addr 192 0 2 1)) (addr_ipv4 (Ipv4Addr 192 0 2 2))
       (eth_addr_new [0xaa, 0xbb, 0xcc, 0xdd, 0xee, 1])) (replicate 27 0) = None"
proof -
  let ?m = "arp_request (addr_ipv4 (Ipv4Addr 192 0 2 1)) (addr_ipv4 (Ipv4Addr 192 0 2 2))
       (eth_addr_new [0xaa, 0xbb, 0xcc, 0xdd, 0xee, 1])"
  have wf: "arp_ethip_wf (msg_body ?m)"
    by (simp add: arp_request_def arp_ethip_wf_def eth_wf_def eth_addr_new_def)
  show ?thesis
    using arp_message_roundtrip [OF wf, of "replicate 28 0"] arp_message_roundtrip [OF wf, of "replicate 27 0"]
    by (auto simp: arp_total_len_def ARP_HDR_LEN_def ARP_ETHIP_LEN_def)
qed

section \<open>The cache\<close>

record arp_entry =
  arp_pa :: addr
  arp_ha :: addr

record arp_cache =
  arp_entries :: "arp_entry list"

definition arp_cache_new :: arp_cache where
  "arp_cache_new = \<lparr>arp_entries = []\<rparr>"

definition arp_cache_add :: "arp_entry \<Rightarrow> arp_cache \<Rightarrow> arp_cache" where
  "arp_cache_add e c =
     (case update_first (\<lambda>x. arp_pa x = arp_pa e) (\<lambda>x. x\<lparr>arp_ha := arp_ha e\<rparr>) (arp_entries c) of
        Some es \<Rightarrow> c\<lparr>arp_entries := es\<rparr>
      | None \<Rightarrow> c\<lparr>arp_entries := arp_entries c @ [e]\<rparr>)"

definition arp_cache_delete :: "addr \<Rightarrow> arp_cache \<Rightarrow> arp_cache" where
  "arp_cache_delete pa c = c\<lparr>arp_entries := filter (\<lambda>e. arp_pa e \<noteq> pa) (arp_entries c)\<rparr>"

definition arp_cache_get :: "addr \<Rightarrow> arp_cache \<Rightarrow> arp_entry option" where
  "arp_cache_get pa c = find (\<lambda>e. arp_pa e = pa) (arp_entries c)"

definition arp_cache_is_empty :: "arp_cache \<Rightarrow> bool" where
  "arp_cache_is_empty c \<longleftrightarrow> arp_entries c = []"

definition arp_cache_len :: "arp_cache \<Rightarrow> nat" where
  "arp_cache_len c = length (arp_entries c)"

interpretation arp_tab: keyed_table arp_cache_new arp_cache_add arp_cache_delete arp_entries arp_pa
proof
  fix e :: arp_entry and c and k :: addr
  let ?f = "\<lambda>x. x\<lparr>arp_ha := arp_ha e\<rparr>"
  have f: "arp_pa x = arp_pa e \<Longrightarrow> ?f x = e" for x by simp
  show "arp_entries arp_cache_new = []" by (simp add: arp_cache_new_def)
  show "table_map arp_pa (arp_entries (arp_cache_add e c)) = (table_map arp_pa (arp_entries c))(arp_pa e := Some e)"
    using update_first_table [of arp_pa e ?f, OF f] push_table(1) [of arp_pa e ?f]
    by (auto simp: arp_cache_add_def split: option.splits)
  show "distinct_keys arp_pa (arp_entries c) \<Longrightarrow> distinct_keys arp_pa (arp_entries (arp_cache_add e c))"
    using update_first_table [of arp_pa e ?f, OF f] push_table(2) [of arp_pa e ?f]
    by (auto simp: arp_cache_add_def distinct_keys_def split: option.splits)
  show "table_map arp_pa (arp_entries (arp_cache_delete k c)) = (table_map arp_pa (arp_entries c))(k := None)"
    "distinct_keys arp_pa (arp_entries c) \<Longrightarrow> distinct_keys arp_pa (arp_entries (arp_cache_delete k c))"
    by (simp_all add: arp_cache_delete_def retain_table)
qed

text \<open>C30: The ARP cache refines a map from protocol address to entry: after any sequence of
  \<open>add\<close> and \<open>delete\<close> from the empty cache, \<open>get\<close> returns what the last operation on that address left
  (the entry of an \<open>add\<close>, nothing after a \<open>delete\<close>), every address has at most one entry, and \<open>len\<close>
  is the number of addresses present.\<close>
theorem arp_cache_refines_map:
  "arp_cache_get pa (run_table arp_cache_add arp_cache_delete ops arp_cache_new)
       = run_map arp_pa ops (\<lambda>_. None) pa
   \<and> distinct_keys arp_pa (arp_entries (run_table arp_cache_add arp_cache_delete ops arp_cache_new))
   \<and> arp_cache_len (run_table arp_cache_add arp_cache_delete ops arp_cache_new)
       = card (dom (run_map arp_pa ops (\<lambda>_. None)))"
proof -
  have "arp_cache_get pa c = table_map arp_pa (arp_entries c) pa" for c
    by (simp add: arp_cache_get_def table_map_def)
  then show ?thesis
    using arp_tab.run_refines_map [of ops arp_cache_new] arp_tab.run_distinct [of arp_cache_new ops]
      arp_tab.run_size [of ops]
    by (simp add: arp_tab.entries_empty arp_cache_len_def distinct_keys_def)
qed

end
