(* ===== verification/Dnet_Prefix.thy ===== *)
theory Dnet_Prefix
  imports Dnet_Addr
begin

text \<open>
  The prefix arithmetic of \<open>wnr-dnet/src/addr.rs\<close>, proved on the address as a string of bits, most
  significant first: what a mask is, that \<open>addr_mtob\<close> inverts \<open>addr_btom\<close> and accepts nothing else,
  and which bits \<open>addr_net\<close> and \<open>addr_bcast\<close> keep.
\<close>

section \<open>Bit strings\<close>

definition msb_bit :: "bytes \<Rightarrow> nat \<Rightarrow> bool" where
  "msb_bit xs i = bit (xs ! (i div 8)) (7 - i mod 8)"

lemma msb_bit_Cons:
  "msb_bit (b # bs) i = (if i < 8 then bit b (7 - i) else msb_bit bs (i - 8))"
  by (auto simp: msb_bit_def le_div_geq le_mod_geq)

lemma byte_eqI:
  assumes "\<And>i. i < 8 \<Longrightarrow> bit (a :: u8) (7 - i) = bit b (7 - i)"
  shows "a = b"
proof (rule bit_word_eqI)
  fix n
  assume "n < LENGTH(8)"
  then have "n \<le> 7" by simp
  then show "bit a n = bit b n" using assms [of "7 - n"] by simp
qed

lemma msb_bit_byte:
  assumes "j < length xs" "k < 8"
  shows "msb_bit xs (8 * j + k) = bit (xs ! j) (7 - k)"
proof -
  have "(8 * j + k) div 8 = j" "(8 * j + k) mod 8 = k" using assms(2) by auto
  then show ?thesis by (simp add: msb_bit_def)
qed

lemma msb_bit_ext:
  assumes "length xs = length ys" "\<And>i. i < 8 * length xs \<Longrightarrow> msb_bit xs i = msb_bit ys i"
  shows "xs = ys"
proof (rule nth_equalityI)
  show "length xs = length ys" by fact
next
  fix j
  assume j: "j < length xs"
  show "xs ! j = ys ! j"
  proof (rule byte_eqI)
    fix k :: nat
    assume k: "k < 8"
    then show "bit (xs ! j) (7 - k) = bit (ys ! j) (7 - k)"
      using assms(2) [of "8 * j + k"] j assms(1) by (simp add: msb_bit_byte)
  qed
qed

lemma msb_bit_replicate_0 [simp]: "i < 8 * n \<Longrightarrow> \<not> msb_bit (replicate n 0) i"
  by (simp add: msb_bit_def less_mult_imp_div_less mult.commute)

text \<open>A run of \<open>k\<close> ones and then zeros.\<close>

definition ones_prefix :: "bytes \<Rightarrow> nat \<Rightarrow> bool" where
  "ones_prefix m k \<longleftrightarrow> k \<le> 8 * length m \<and> (\<forall>i<8 * length m. msb_bit m i \<longleftrightarrow> i < k)"

lemma ones_prefix_unique: "ones_prefix m k \<Longrightarrow> ones_prefix m k' \<Longrightarrow> k = k'"
  unfolding ones_prefix_def by (metis nat_neq_iff order_less_le_trans)

section \<open>Prefix length to mask\<close>

lemma unat_div_mod_8 [simp]:
  "unat ((bits :: u16) div 8) = unat bits div 8" "unat ((bits :: u16) mod 8) = unat bits mod 8"
  by (simp_all add: unat_div unat_mod)

lemma bit_ff: "bit (0xff :: u8) n \<longleftrightarrow> n < 8"
proof -
  have ff: "(0xff :: u8) = - 1" by simp
  show ?thesis by (simp only: ff bit_minus_1_iff possible_bit_word) simp
qed

lemma partial_byte:
  assumes "0 < r" "r < 8" "k < 8"
  shows "bit (push_bit (8 - r) 0xff :: u8) (7 - k) \<longleftrightarrow> k < r"
proof -
  have "bit (push_bit (8 - r) 0xff :: u8) (7 - k) \<longleftrightarrow> 8 - r \<le> 7 - k \<and> 7 - k - (8 - r) < 8"
    by (simp only: bit_push_bit_iff possible_bit_word bit_ff) auto
  also have "\<dots> \<longleftrightarrow> k < r" using assms by arith
  finally show ?thesis .
qed

lemma div8_cases:
  fixes u j k :: nat
  shows "j < u div 8 \<Longrightarrow> k < 8 \<Longrightarrow> 8 * j + k < u"
    and "u div 8 \<le> j \<Longrightarrow> u mod 8 = 0 \<Longrightarrow> u \<le> 8 * j + k"
    and "u div 8 < j \<Longrightarrow> u \<le> 8 * j + k"
  using mult_div_mod_eq [of 8 u] mod_less_divisor [of 8 u] by linarith+

lemma bits_to_mask_len_ones:
  assumes "unat bits \<le> 8 * n"
  shows "\<exists>m. bits_to_mask_len bits n = Some m \<and> length m = n \<and> ones_prefix m (unat bits)"
proof -
  let ?f = "unat bits div 8" and ?r = "unat bits mod 8"
  let ?m0 = "replicate (min ?f n) (0xff :: u8) @ replicate (n - ?f) 0"
  let ?m = "if 0 < ?r \<and> ?f < n then ?m0[?f := push_bit (8 - ?r) 0xff] else ?m0"
  have l0: "length ?m0 = n" by (simp add: min_def)
  then have l: "length ?m = n" by (simp only: length_list_update if_cancel)
  have byte: "bit (?m ! j) (7 - k) \<longleftrightarrow> 8 * j + k < unat bits" if j: "j < n" and k: "k < 8" for j k
  proof -
    consider "j < ?f" | "j = ?f" "0 < ?r" | "?f \<le> j" "?r = 0" | "?f < j" by linarith
    then show ?thesis
    proof cases
      case 1
      then have "?m ! j = 0xff" using j by (auto simp: nth_append)
      moreover have "8 * j + k < unat bits" using div8_cases(1) [OF 1 k] .
      moreover have "7 - k < 8" by simp
      ultimately show ?thesis by (simp only: bit_ff)
    next
      case 2
      then have "?m ! j = push_bit (8 - ?r) 0xff" using j l0 by simp
      moreover have "8 * j + k < unat bits \<longleftrightarrow> k < ?r"
        using 2(1) by (metis add_less_cancel_left mult_div_mod_eq)
      ultimately show ?thesis using partial_byte [of ?r k] 2 k by simp
    next
      case 3
      then have "?m ! j = 0" using j by (simp add: nth_append)
      moreover have "unat bits \<le> 8 * j + k" using div8_cases(2) [OF 3] .
      ultimately show ?thesis by simp
    next
      case 4
      then have "?m ! j = 0" using j by (simp add: nth_append)
      moreover have "unat bits \<le> 8 * j + k" using div8_cases(3) [OF 4] .
      ultimately show ?thesis by simp
    qed
  qed
  have "msb_bit ?m i \<longleftrightarrow> i < unat bits" if "i < 8 * n" for i
  proof -
    have "i div 8 < n" "i mod 8 < 8" using that by auto
    from byte [OF this] show ?thesis by (simp only: msb_bit_def mult_div_mod_eq)
  qed
  then have "ones_prefix ?m (unat bits)" using assms by (simp only: ones_prefix_def l) blast
  moreover have "bits_to_mask_len bits n = Some ?m"
    using assms by (simp add: bits_to_mask_len_def Let_def mult.commute)
  ultimately show ?thesis using l by blast
qed

lemma bits_to_mask_len_iff:
  "bits_to_mask_len bits n = Some m \<longleftrightarrow> length m = n \<and> ones_prefix m (unat bits)"
proof
  assume h: "bits_to_mask_len bits n = Some m"
  then have "unat bits \<le> 8 * n" by (auto simp: bits_to_mask_len_def split: if_splits)
  from bits_to_mask_len_ones [OF this] h show "length m = n \<and> ones_prefix m (unat bits)" by auto
next
  assume h: "length m = n \<and> ones_prefix m (unat bits)"
  then obtain m' where m': "bits_to_mask_len bits n = Some m'" "length m' = n" "ones_prefix m' (unat bits)"
    using bits_to_mask_len_ones [of bits n] by (auto simp: ones_prefix_def)
  have "m' = m" using h m' by (intro msb_bit_ext) (auto simp: ones_prefix_def)
  with m' show "bits_to_mask_len bits n = Some m" by simp
qed

section \<open>Mask to prefix length\<close>

lemma top_bit: "v AND 0x80 \<noteq> (0 :: u8) \<longleftrightarrow> bit v 7"
proof -
  have "v AND 0x80 = (if bit v 7 then 0x80 else 0)"
    by (rule bit_word_eqI) (auto simp: bit_simps less_Suc_eq numeral_eq_Suc)
  then show ?thesis by simp
qed

text \<open>The loop counts the leading ones and leaves the rest of the byte at its front.\<close>

lemma lead_ones_spec:
  "lead_ones v = (n, r) \<Longrightarrow>
     \<exists>k\<le>8. n = word_of_nat k \<and> r = push_bit k v \<and> (\<forall>i<k. bit v (7 - i)) \<and> (k < 8 \<longrightarrow> \<not> bit v (7 - k))"
proof (induction v arbitrary: n r rule: lead_ones.induct)
  case (1 v)
  show ?case
  proof (cases "bit v 7")
    case False
    then have "n = 0" "r = v" using "1.prems" by (simp_all add: lead_ones.simps [of v] top_bit)
    with False show ?thesis by (intro exI [of _ 0]) simp
  next
    case True
    then obtain n' where n': "lead_ones (push_bit 1 v) = (n', r)" "n = n' + 1"
      using "1.prems" by (auto simp: lead_ones.simps [of v] top_bit split: prod.splits)
    have shift: "bit (push_bit 1 v) (7 - i) \<longleftrightarrow> i < 7 \<and> bit v (7 - Suc i)" if "i < 8" for i
      using that bit_push_bit_iff [of 1 v "7 - i"] by auto
    obtain k where k: "k \<le> 8" "n' = word_of_nat k" "r = push_bit k (push_bit 1 v)"
      "\<forall>i<k. bit (push_bit 1 v) (7 - i)" "k < 8 \<longrightarrow> \<not> bit (push_bit 1 v) (7 - k)"
      using "1.IH" n'(1) True by (auto simp: top_bit)
    have k7: "k \<le> 7"
    proof (rule ccontr)
      assume "\<not> k \<le> 7"
      then have "7 < k" by simp
      then have "bit (push_bit 1 v) (7 - 7)" using k(4) by blast
      with shift [of 7] show False by simp
    qed
    have "bit v (7 - i)" if "i < Suc k" for i
    proof (cases i)
      case (Suc j)
      then show ?thesis using k(4) that shift [of j] k7 by auto
    qed (simp add: True)
    moreover have "Suc k < 8 \<longrightarrow> \<not> bit v (7 - Suc k)" using k(5) shift [of k] by auto
    ultimately show ?thesis
      using k k7 n'(2) by (intro exI [of _ "Suc k"]) auto
  qed
qed

text \<open>A byte of \<open>k\<close> leading ones and then zeros.\<close>

definition byte_shape :: "u8 \<Rightarrow> nat \<Rightarrow> bool" where
  "byte_shape c k \<longleftrightarrow> (\<forall>i<8. bit c (7 - i) \<longleftrightarrow> i < k)"

lemma byte_shape_unique:
  assumes "byte_shape c k" "byte_shape c k'" "k \<le> 8" "k' \<le> 8"
  shows "k = k'"
  using assms unfolding byte_shape_def by (metis leI nat_less_le order_less_le_trans)

lemma lead_ones_mask_byte:
  assumes "lead_ones b = (n, r)"
  shows "r = 0 \<longleftrightarrow> (\<exists>k\<le>8. n = word_of_nat k \<and> byte_shape b k)"
  unfolding byte_shape_def
proof -
  obtain k where k: "k \<le> 8" "n = word_of_nat k" "r = push_bit k b" "\<forall>i<k. bit b (7 - i)"
    "k < 8 \<longrightarrow> \<not> bit b (7 - k)"
    using lead_ones_spec [OF assms] by blast
  have r: "bit r m \<longleftrightarrow> k \<le> m \<and> m < 8 \<and> bit b (m - k)" for m
    using bit_push_bit_iff [of k b m] k(3) by auto
  have zero: "r = 0 \<longleftrightarrow> (\<forall>i. k \<le> i \<and> i < 8 \<longrightarrow> \<not> bit b (7 - i))"
  proof
    assume "r = 0"
    then have "\<not> bit b (7 - i)" if "k \<le> i" "i < 8" for i
      using r [of "k + (7 - i)"] that by auto
    then show "\<forall>i. k \<le> i \<and> i < 8 \<longrightarrow> \<not> bit b (7 - i)" by blast
  next
    assume h: "\<forall>i. k \<le> i \<and> i < 8 \<longrightarrow> \<not> bit b (7 - i)"
    have "\<not> bit r m" for m
    proof
      assume "bit r m"
      then have m: "k \<le> m" "m < 8" "bit b (m - k)" using r [of m] by auto
      have "7 - (7 - (m - k)) = m - k" "k \<le> 7 - (m - k)" "7 - (m - k) < 8" using m k(1) by auto
      with h m(3) show False by metis
    qed
    then show "r = 0" by (intro bit_word_eqI) simp
  qed
  have "k' = k" if "k' \<le> 8" "\<forall>i<8. bit b (7 - i) \<longleftrightarrow> i < k'" for k'
  proof (rule linorder_cases [of k' k])
    assume "k' < k"
    then have "bit b (7 - k')" "k' < 8" using k(1,4) by auto
    with that(2) show ?thesis by simp
  next
    assume "k < k'"
    then have "\<not> bit b (7 - k)" "k < 8" using k(5) that(1) by auto
    with that(2) \<open>k < k'\<close> show ?thesis by simp
  qed
  then have "(\<exists>k'\<le>8. n = word_of_nat k' \<and> (\<forall>i<8. bit b (7 - i) \<longleftrightarrow> i < k'))
      \<longleftrightarrow> (\<forall>i<8. bit b (7 - i) \<longleftrightarrow> i < k)"
    using k(1,2) by blast
  also have "\<dots> \<longleftrightarrow> r = 0" unfolding zero using k(4) by (meson leD leI)
  finally show "r = 0 \<longleftrightarrow> (\<exists>k\<le>8. n = word_of_nat k \<and> (\<forall>i<8. bit b (7 - i) \<longleftrightarrow> i < k))"
    by (rule sym)
qed

lemma all_less_add8: "(\<forall>i<8 + n. P i) \<longleftrightarrow> (\<forall>i<8. P i) \<and> (\<forall>i<n. P (8 + i :: nat))"
proof (intro iffI conjI allI impI)
  fix i
  assume h: "(\<forall>i<8. P i) \<and> (\<forall>i<n. P (8 + i))" and i: "i < 8 + n"
  show "P i"
  proof (cases "i < 8")
    case False
    then have "i = 8 + (i - 8)" "i - 8 < n" using i by auto
    then show ?thesis using h by metis
  qed (use h in simp)
qed auto

lemma zero_bytes_iff: "(\<forall>x\<in>set bs. x = 0) \<longleftrightarrow> (\<forall>i<8 * length bs. \<not> msb_bit bs i)"
proof
  assume "\<forall>x\<in>set bs. x = 0"
  then have "bs = replicate (length bs) 0" by (simp add: replicate_length_same)
  then show "\<forall>i<8 * length bs. \<not> msb_bit bs i" by (metis msb_bit_replicate_0)
next
  assume "\<forall>i<8 * length bs. \<not> msb_bit bs i"
  then have "bs = replicate (length bs) 0" by (intro msb_bit_ext) auto
  then show "\<forall>x\<in>set bs. x = 0" by (metis in_set_replicate)
qed

lemma byte_all_ones: "(\<forall>i<8. bit c (7 - i)) \<longleftrightarrow> c = (0xff :: u8)"
proof
  assume h: "\<forall>i<8. bit c (7 - i)"
  show "c = 0xff"
  proof (rule byte_eqI)
    fix i :: nat
    assume "i < 8"
    moreover have "7 - i < 8" by simp
    ultimately show "bit c (7 - i) = bit (0xff :: u8) (7 - i)" using h by (simp only: bit_ff)
  qed
next
  assume c: "c = 0xff"
  have "7 - i < 8" for i :: nat by simp
  then show "\<forall>i<8. bit c (7 - i)" unfolding c bit_ff by blast
qed

lemma byte_shape_full: "8 \<le> k \<Longrightarrow> byte_shape c k \<longleftrightarrow> c = 0xff"
  unfolding byte_shape_def byte_all_ones [symmetric] by auto

lemma byte_shape_ff: "byte_shape 0xff k \<Longrightarrow> 8 \<le> k"
  using byte_all_ones [of "0xff"] unfolding byte_shape_def by (metis lessI less_Suc_eq_le not_less)

lemma ones_prefix_Cons:
  "ones_prefix (b # bs) k \<longleftrightarrow>
     (if 8 \<le> k then b = 0xff \<and> ones_prefix bs (k - 8)
      else byte_shape b k \<and> (\<forall>x\<in>set bs. x = 0))"
proof -
  have split: "ones_prefix (b # bs) k \<longleftrightarrow> k \<le> 8 + 8 * length bs \<and>
      byte_shape b k \<and> (\<forall>i<8 * length bs. msb_bit bs i \<longleftrightarrow> 8 + i < k)"
    unfolding ones_prefix_def byte_shape_def length_Cons mult_Suc_right all_less_add8
    by (simp add: msb_bit_Cons)
  show ?thesis
  proof (cases "8 \<le> k")
    case True
    have "ones_prefix bs (k - 8) \<longleftrightarrow>
        k \<le> 8 + 8 * length bs \<and> (\<forall>i<8 * length bs. msb_bit bs i \<longleftrightarrow> 8 + i < k)"
      unfolding ones_prefix_def using True by (auto simp: less_diff_conv add.commute)
    then show ?thesis unfolding split byte_shape_full [OF True] using True by auto
  next
    case False
    then show ?thesis unfolding split zero_bytes_iff by auto
  qed
qed

lemma ones_prefix_ff: "ones_prefix (0xff # bs) k \<longleftrightarrow> (\<exists>k'. k = 8 + k' \<and> ones_prefix bs k')"
  using byte_shape_ff by (auto simp: ones_prefix_Cons le_iff_add)

lemma ones_prefix_partial:
  "c \<noteq> 0xff \<Longrightarrow> ones_prefix (c # bs) k \<longleftrightarrow> k < 8 \<and> byte_shape c k \<and> (\<forall>x\<in>set bs. x = 0)"
  by (auto simp: ones_prefix_Cons)

lemma mtob_after_ones:
  "addr_mtob_loop False acc bs = (if \<forall>x\<in>set bs. x = 0 then Some acc else None)"
  by (induction bs) auto

lemma lead_ones_partial:
  assumes "lead_ones c = (n, r)" "c \<noteq> 0xff"
  shows "r = 0 \<longleftrightarrow> (\<exists>k<8. byte_shape c k)"
    and "r = 0 \<Longrightarrow> k < 8 \<Longrightarrow> byte_shape c k \<Longrightarrow> n = word_of_nat k"
proof -
  have lt: "k < 8" if "byte_shape c k" for k
    using that assms(2) byte_shape_full [of k c] by linarith
  show r: "r = 0 \<longleftrightarrow> (\<exists>k<8. byte_shape c k)"
  proof
    assume "r = 0"
    then show "\<exists>k<8. byte_shape c k" using lead_ones_mask_byte [OF assms(1)] lt by blast
  next
    assume "\<exists>k<8. byte_shape c k"
    then obtain k where k: "k < 8" "byte_shape c k" by blast
    obtain k' where k': "k' \<le> 8" "n = word_of_nat k'" "r = push_bit k' c" "\<forall>i<k'. bit c (7 - i)"
      "k' < 8 \<longrightarrow> \<not> bit c (7 - k')"
      using lead_ones_spec [OF assms(1)] by blast
    have "k' = k"
    proof (rule linorder_cases [of k' k])
      assume "k' < k"
      then show ?thesis using k k'(5) by (auto simp: byte_shape_def)
    next
      assume "k < k'"
      then show ?thesis using k k'(4) by (auto simp: byte_shape_def)
    qed
    then show "r = 0" using lead_ones_mask_byte [OF assms(1)] k k'(2) by (metis less_imp_le)
  qed
  assume "r = 0" "k < 8" "byte_shape c k"
  then show "n = word_of_nat k"
    using lead_ones_mask_byte [OF assms(1)] byte_shape_unique [of c k] by (metis less_imp_le)
qed

lemma mtob_loop_iff:
  "addr_mtob_loop True acc m = Some b \<longleftrightarrow> (\<exists>k. ones_prefix m k \<and> b = acc + word_of_nat k)"
proof (induction m arbitrary: acc)
  case Nil
  then show ?case by (auto simp: ones_prefix_def)
next
  case (Cons c bs)
  show ?case
  proof (cases "c = 0xff")
    case True
    then show ?thesis using Cons by (auto simp: ones_prefix_ff add.assoc)
  next
    case False
    obtain n r where nr: "lead_ones c = (n, r)" by fastforce
    have "addr_mtob_loop True acc (c # bs)
        = (if r = 0 \<and> (\<forall>x\<in>set bs. x = 0) then Some (acc + n) else None)"
      using False nr by (auto simp: mtob_after_ones)
    then show ?thesis
      using lead_ones_partial [OF nr False] by (auto simp: ones_prefix_partial [OF False])
  qed
qed

text \<open>C10: For every mask of fewer than 8192 bytes (so that the bit count fits in 16 bits),
  \<open>addr_mtob\<close> returns \<open>b\<close> exactly when the mask is the one \<open>addr_btom\<close> builds for \<open>b\<close>: the two are
  inverse, and every mask that is not a run of ones followed by zeros is refused.\<close>
theorem addr_mtob_iff_btom:
  assumes "length m < 8192"
  shows "addr_mtob m = Some b \<longleftrightarrow> addr_btom b (length m) = Some m"
proof -
  have "k < 65536" if "ones_prefix m k" for k
    using that assms by (auto simp: ones_prefix_def)
  then have unat: "unat (word_of_nat k :: u16) = k" if "ones_prefix m k" for k
    using that by (simp add: unsigned_of_nat take_bit_nat_eq_self)
  have "addr_mtob m = Some b \<longleftrightarrow> (\<exists>k. ones_prefix m k \<and> b = word_of_nat k)"
    by (simp add: addr_mtob_def mtob_loop_iff)
  also have "\<dots> \<longleftrightarrow> ones_prefix m (unat b)"
    using unat by (auto intro!: exI [of _ "unat b"])
  also have "\<dots> \<longleftrightarrow> addr_btom b (length m) = Some m"
    by (simp add: addr_btom_def bits_to_mask_len_iff)
  finally show ?thesis .
qed

theorem addr_mtob_iff_btom_witness:
  "(addr_mtob [255, 255, 240, 0] = Some 20 \<longleftrightarrow> addr_btom 20 4 = Some [255, 255, 240, 0])
   \<and> addr_btom 20 4 = Some [255, 255, 240, 0]"
proof -
  have "addr_btom 20 4 = Some [255, 255, 240, 0]" by code_simp
  then show ?thesis using addr_mtob_iff_btom [of "[255, 255, 240, 0]" 20]
    by (simp add: numeral_eq_Suc)
qed

section \<open>Networks and broadcast addresses\<close>

lemma bits_to_mask_ones:
  "unat bits \<le> 128 \<Longrightarrow> length (bits_to_mask bits) = 16 \<and> ones_prefix (bits_to_mask bits) (unat bits)"
  using bits_to_mask_len_ones [of bits 16] by (auto simp: bits_to_mask_def)

lemma bits_to_mask_over: "128 < unat bits \<Longrightarrow> bits_to_mask bits = replicate 16 0"
  by (simp add: bits_to_mask_def bits_to_mask_len_def)

lemma bits_to_mask_length [simp]: "length (bits_to_mask bits) = 16"
  using bits_to_mask_ones [of bits] bits_to_mask_over [of bits] by (cases "unat bits \<le> 128") auto

lemma msb_bit_mask: "i < 128 \<Longrightarrow> msb_bit (bits_to_mask bits) i \<longleftrightarrow> unat bits \<le> 128 \<and> i < unat bits"
  using bits_to_mask_ones [of bits] bits_to_mask_over [of bits]
  by (cases "unat bits \<le> 128") (auto simp: ones_prefix_def)

lemma msb_bit_map2:
  assumes "length xs = 16" "length ys = 16" "i < 128"
  shows "msb_bit (map2 (AND) xs ys) i \<longleftrightarrow> msb_bit xs i \<and> msb_bit ys i"
    and "msb_bit (map2 (\<lambda>d m. d OR NOT m) xs ys) i \<longleftrightarrow> msb_bit xs i \<or> \<not> msb_bit ys i"
proof -
  have "i div 8 < 16" "7 - i mod 8 < 8" using assms(3) by auto
  then show "msb_bit (map2 (AND) xs ys) i \<longleftrightarrow> msb_bit xs i \<and> msb_bit ys i"
    "msb_bit (map2 (\<lambda>d m. d OR NOT m) xs ys) i \<longleftrightarrow> msb_bit xs i \<or> \<not> msb_bit ys i"
    using assms by (simp_all add: msb_bit_def bit_and_iff bit_or_iff bit_not_iff)
qed

lemma network_fields [simp]:
  "addr_type (network a) = addr_type a" "addr_bits (network a) = addr_bits a"
  "addr_wf a \<Longrightarrow> addr_wf (network a)"
  by (simp_all add: network_def addr_wf_def)

lemma broadcast_fields [simp]:
  "addr_type (broadcast a) = addr_type a" "addr_bits (broadcast a) = addr_bits a"
  "addr_wf a \<Longrightarrow> addr_wf (broadcast a)"
  by (simp_all add: broadcast_def addr_wf_def)

lemma network_bit:
  "addr_wf a \<Longrightarrow> i < 128 \<Longrightarrow>
     msb_bit (addr_data (network a)) i
       \<longleftrightarrow> unat (addr_bits a) \<le> 128 \<and> i < unat (addr_bits a) \<and> msb_bit (addr_data a) i"
  by (auto simp: network_def addr_wf_def msb_bit_map2 msb_bit_mask)

lemma broadcast_bit:
  "addr_wf a \<Longrightarrow> i < 128 \<Longrightarrow>
     msb_bit (addr_data (broadcast a)) i
       \<longleftrightarrow> unat (addr_bits a) > 128 \<or> unat (addr_bits a) \<le> i \<or> msb_bit (addr_data a) i"
  by (auto simp: broadcast_def addr_wf_def msb_bit_map2 msb_bit_mask)

lemma addr_eqI:
  assumes "addr_wf a" "addr_wf b" "addr_type a = addr_type b" "addr_bits a = addr_bits b"
    and "\<And>i. i < 128 \<Longrightarrow> msb_bit (addr_data a) i = msb_bit (addr_data b) i"
  shows "a = (b :: addr)"
proof -
  have "addr_data a = addr_data b"
    using assms by (intro msb_bit_ext) (auto simp: addr_wf_def)
  then show ?thesis using assms by simp
qed

text \<open>C20: For a prefix length of at most 128, the network address keeps exactly the prefix bits and the
  broadcast address keeps the prefix bits and sets every other bit of the 16-byte array; both keep the
  type and the prefix length, taking the network twice changes nothing, and every address with the
  same network has the same broadcast address.\<close>
theorem network_broadcast_bits:
  assumes "addr_wf a" "unat (addr_bits a) \<le> 128"
  shows "(i < 128 \<longrightarrow> (msb_bit (addr_data (network a)) i \<longleftrightarrow> i < unat (addr_bits a) \<and> msb_bit (addr_data a) i)
            \<and> (msb_bit (addr_data (broadcast a)) i \<longleftrightarrow> unat (addr_bits a) \<le> i \<or> msb_bit (addr_data a) i))
    \<and> addr_type (network a) = addr_type a \<and> addr_bits (network a) = addr_bits a
    \<and> network (network a) = network a \<and> broadcast (broadcast a) = broadcast a
    \<and> network (broadcast a) = network a \<and> broadcast (network a) = broadcast a"
proof -
  have "network (network a) = network a" "broadcast (broadcast a) = broadcast a"
    "network (broadcast a) = network a" "broadcast (network a) = broadcast a"
    using assms by (auto intro!: addr_eqI simp: network_bit broadcast_bit)
  then show ?thesis using assms by (simp add: network_bit broadcast_bit)
qed

theorem network_broadcast_bits_witness:
  "network (broadcast ((addr_ipv4 (Ipv4Addr 192 168 1 5))\<lparr>addr_bits := 24\<rparr>))
     = network ((addr_ipv4 (Ipv4Addr 192 168 1 5))\<lparr>addr_bits := 24\<rparr>)
   \<and> to_ipv4 (network ((addr_ipv4 (Ipv4Addr 192 168 1 5))\<lparr>addr_bits := 24\<rparr>)) = Some (Ipv4Addr 192 168 1 0)"
proof -
  let ?a = "(addr_ipv4 (Ipv4Addr 192 168 1 5))\<lparr>addr_bits := 24\<rparr>"
  have "addr_wf ?a" by (simp add: addr_wf_def)
  from network_broadcast_bits [OF this] have "network (broadcast ?a) = network ?a" by simp
  moreover have "to_ipv4 (network ?a) = Some (Ipv4Addr 192 168 1 0)" by code_simp
  ultimately show ?thesis by simp
qed

end
