(* ===== verification/Rust_Ipv6.thy ===== *)
theory Rust_Ipv6
  imports Rust_Text
begin

text \<open>
  The text form of IPv6 addresses: the parser of \<open>core::net\<close> reads what \<open>Display\<close> prints, with its
  compressed run of zero groups and the dotted form of the mapped IPv4 addresses.
\<close>

section \<open>Groups\<close>

lemma length_v6_segments: "length (v6_segments bs) = length bs div 2"
  by (induction bs rule: v6_segments.induct) simp_all

lemma v6_segments_bytes: "even (length bs) \<Longrightarrow> concat (map u16_to_be (v6_segments bs)) = bs"
  by (induction bs rule: v6_segments.induct) (simp_all add: u16_be_bytes)

lemma read_group_text:
  assumes "rest = [] \<or> to_digit 16 (hd rest) = None"
  shows "read_number 16 4 True 65535 (show_radix 16 (unat (g :: u16)) @ rest) = Some (unat g, rest)"
proof (rule read_number_show)
  have "unat g < 65536" using unsigned_less [of g] by simp
  then show "unat g < 16 ^ 4" "unat g \<le> 65535" by (simp, linarith)
qed (use assms in simp_all)

lemma group_text_no_dot: "CHR ''.'' \<notin> set (show_radix 16 n)"
proof
  assume "CHR ''.'' \<in> set (show_radix 16 n)"
  then obtain d where "d < 16" "CHR ''.'' = digit_char d" using show_radix_chars [of 16 "CHR ''.''" n] by auto
  with digit_char_no_separator(2) [of d] show False by simp
qed

lemma groups_text_no_dot: "CHR ''.'' \<notin> set (show_groups gs)"
proof
  assume "CHR ''.'' \<in> set (show_groups gs)"
  then show False
    using set_join_with [of "CHR '':''" "map (\<lambda>g. show_radix 16 (unat g)) gs"] group_text_no_dot
    by (auto simp: show_groups_def)
qed

lemma separated_ipv4_dot: "CHR ''.'' \<notin> set s \<Longrightarrow> read_separator c i read_ipv4 s = None"
  by (cases s) (auto simp: read_separator_def read_ipv4_dot)

text \<open>Reading stops at the end of the text and at two colons.\<close>

lemma read_groups_stop:
  assumes "n \<le> limit" "s = [] \<or> s = CHR '':'' # CHR '':'' # t" "CHR ''.'' \<notin> set s"
  shows "read_groups limit n s = ([], False, s)"
proof (cases n)
  case (Suc m)
  have colon: "read_number 16 4 True 65535 (CHR '':'' # t) = None" for t by (simp add: read_number_def text_simps)
  have nil: "read_number 16 4 True 65535 [] = None" by (simp add: read_number_def)
  note separated_ipv4_dot [OF assms(3)]
  moreover have "read_separator (CHR '':'') i (read_number 16 4 True 65535) s = None" for i
    using assms(2) by (auto simp: read_separator_def colon nil)
  ultimately show ?thesis using Suc by (simp add: Let_def)
qed simp

text \<open>The separator in front of the groups still to be read.\<close>

definition lead :: "bool \<Rightarrow> string" where
  "lead first = (if first then [] else '':'')"

lemma read_groups_text:
  assumes "gs \<noteq> []" "length gs \<le> n" "n \<le> limit" "CHR ''.'' \<notin> set rest"
    "rest = [] \<or> rest = CHR '':'' # CHR '':'' # t"
  shows "read_groups limit n (lead (n = limit) @ show_groups gs @ rest) = (gs, False, rest)"
  using assms
proof (induction gs arbitrary: n)
  case (Cons g gs)
  then obtain m where n: "n = Suc m" by (cases n) auto
  define more where "more = (if gs = [] then rest else lead False @ show_groups gs @ rest)"
  have shown: "show_groups (g # gs) @ rest = show_radix 16 (unat g) @ more"
    by (cases gs) (simp_all add: more_def show_groups_def lead_def)
  have dots: "CHR ''.'' \<notin> set (lead b @ show_radix 16 (unat g) @ more)" for b
    using Cons.prems(4) group_text_no_dot groups_text_no_dot by (simp add: more_def lead_def)
  have "more = [] \<or> to_digit 16 (hd more) = None"
    using Cons.prems(5) by (auto simp: more_def lead_def text_simps)
  note number = read_group_text [OF this, of g]
  have no4: "read_separator (CHR '':'') (limit - n) read_ipv4 (lead (n = limit) @ show_radix 16 (unat g) @ more) = None"
    by (rule separated_ipv4_dot [OF dots])
  have "read_separator (CHR '':'') (limit - n) (read_number 16 4 True 65535) (lead (n = limit) @ show_radix 16 (unat g) @ more)
      = Some (unat g, more)"
    using Cons.prems(3) number by (cases "n = limit") (simp_all add: read_separator_def lead_def)
  then have step: "read_groups limit n (lead (n = limit) @ show_radix 16 (unat g) @ more)
      = (case read_groups limit m more of (gs, v4, s) \<Rightarrow> (g # gs, v4, s))"
    using no4 by (simp add: n Let_def)
  have "read_groups limit m more = (gs, False, rest)"
  proof (cases gs)
    case Nil
    then show ?thesis
      using read_groups_stop [of m limit rest t] Cons.prems(3-5) by (simp add: more_def n)
  next
    case (Cons h hs)
    have "m \<noteq> limit" "m \<le> limit" "length gs \<le> m" "gs \<noteq> []" using Cons.prems(2,3) n Cons by simp_all
    with Cons.IH [of m] Cons.prems(4,5) show ?thesis by (simp add: more_def)
  qed
  with step show ?case by (simp add: shown)
qed simp

section \<open>The compressed run\<close>

lemma zero_span_run:
  assumes "zero_span gs (length pre) longest current = (s, n)"
    "take (snd longest) (drop (fst longest) pre) = replicate (snd longest) 0"
    "fst longest + snd longest \<le> length pre \<or> snd longest = 0"
    "snd current = 0 \<or> fst current + snd current = length pre \<and> drop (fst current) pre = replicate (snd current) 0"
  shows "n = 0 \<or> s + n \<le> length (pre @ gs) \<and> take n (drop s (pre @ gs)) = replicate n 0"
  using assms
proof (induction gs arbitrary: pre longest current)
  case (Cons g gs)
  have snoc: "zero_span gs (length (pre @ [g])) l c = zero_span gs (length pre + 1) l c" for l c by simp
  have keep: "take (snd longest) (drop (fst longest) (pre @ [g])) = replicate (snd longest) 0"
    "fst longest + snd longest \<le> length (pre @ [g]) \<or> snd longest = 0"
    using Cons.prems(2,3) by auto
  show ?case
  proof (cases "g = 0")
    case False
    with Cons.prems(1) have "zero_span gs (length (pre @ [g])) longest (0, 0) = (s, n)" by simp
    from Cons.IH [OF this keep] show ?thesis by simp
  next
    case True
    define cur where "cur = (if snd current = 0 then (length pre, 1) else (fst current, snd current + 1))"
    have cur: "fst cur + snd cur = length (pre @ [g])" "drop (fst cur) (pre @ [g]) = replicate (snd cur) 0"
      using Cons.prems(4) True by (auto simp: cur_def replicate_append_same)
    have "zero_span gs (length (pre @ [g])) (if snd cur > snd longest then cur else longest) cur = (s, n)"
      using Cons.prems(1) unfolding True zero_span.simps Let_def cur_def [symmetric] by simp
    from Cons.IH [OF this] keep cur show ?thesis by (cases "snd cur > snd longest") simp_all
  qed
qed auto

section \<open>The round trip\<close>

lemma show_groups_text: "show_groups gs = lead True @ show_groups gs @ []"
  by (simp add: lead_def)

lemma parse_plain:
  assumes "length gs = 8"
  shows "parse_ipv6 (show_groups gs) = Some (groups_to_ipv6 gs)"
proof -
  have "gs \<noteq> []" using assms by auto
  then have "read_groups 8 8 (show_groups gs) = (gs, False, [])"
    using read_groups_text [of gs 8 8 "[]"] assms by (simp add: lead_def)
  with assms show ?thesis by (simp add: parse_ipv6_def read_ipv6_def)
qed

lemma parse_compressed:
  assumes "length hs + n + length ts = 8" "1 \<le> n"
  shows "parse_ipv6 (show_groups hs @ ''::'' @ show_groups ts) = Some (groups_to_ipv6 (hs @ replicate n 0 @ ts))"
proof -
  let ?rest = "''::'' @ show_groups ts" and ?limit = "8 - (length hs + 1)"
  have dots: "CHR ''.'' \<notin> set ?rest" using groups_text_no_dot by simp
  have "read_groups 8 8 (show_groups hs @ ?rest) = (hs, False, ?rest)"
  proof (cases "hs = []")
    case True
    then show ?thesis using read_groups_stop [OF order_refl _ dots, of "show_groups ts" 8] by (simp add: show_groups_def)
  next
    case False
    then show ?thesis using read_groups_text [of hs 8 8 ?rest "show_groups ts"] dots assms by (simp add: lead_def)
  qed
  moreover have "read_groups ?limit ?limit (show_groups ts) = (ts, False, [])"
  proof (cases "ts = []")
    case True
    then show ?thesis using read_groups_stop [of ?limit ?limit "[]"] by (simp add: show_groups_def)
  next
    case False
    then show ?thesis using read_groups_text [of ts ?limit ?limit "[]"] assms by (simp add: lead_def)
  qed
  moreover have "length hs \<noteq> 8" "8 - length hs - length ts = n" using assms by auto
  ultimately show ?thesis by (simp add: parse_ipv6_def read_ipv6_def Let_def)
qed

lemma read_mapped_head: "read_groups 8 8 (''::ffff:'' @ s) = ([], False, ''::ffff:'' @ s)"
  by (simp add: read_groups_numeral read_separator_def read_ipv4_def read_number_def to_digit_def)

lemma parse_mapped:
  "parse_ipv6 (''::ffff:'' @ show_ipv4 (Ipv4Addr a b c d))
     = Some (groups_to_ipv6 [0, 0, 0, 0, 0, 0xffff, u16_from_be a b, u16_from_be c d])"
proof -
  let ?s = "show_ipv4 (Ipv4Addr a b c d)"
  obtain s' where "read_ipv4 ?s = Some (Ipv4Addr a b c d, s')" "s' = []"
    using parse_ipv4_show [of "Ipv4Addr a b c d"] by (auto simp: parse_ipv4_def split: option.splits list.splits)
  then have "read_groups 7 6 (CHR '':'' # ?s) = ([u16_from_be a b, u16_from_be c d], True, [])"
    by (simp add: read_groups_numeral read_separator_def del: show_ipv4.simps)
  moreover have "read_ipv4 (''ffff:'' @ ?s) = None"
    by (simp add: read_ipv4_def read_separator_def read_number_def to_digit_def del: show_ipv4.simps)
  moreover have "read_number 16 4 True 65535 (''ffff:'' @ ?s) = Some (0xffff, CHR '':'' # ?s)"
    by (simp add: read_number_def to_digit_def del: show_ipv4.simps)
  ultimately have "read_groups 7 7 (''ffff:'' @ ?s) = ([0xffff, u16_from_be a b, u16_from_be c d], True, [])"
    by (simp add: read_groups_numeral [of 7] read_separator_def del: show_ipv4.simps)
  then have "read_ipv6 (''::ffff:'' @ ?s) = Some (groups_to_ipv6 ([] @ replicate 5 0 @ [0xffff, u16_from_be a b, u16_from_be c d]), [])"
    unfolding read_ipv6_def read_mapped_head by (simp add: Let_def del: show_ipv4.simps)
  then show ?thesis by (simp add: parse_ipv6_def numeral_eq_Suc del: show_ipv4.simps)
qed

theorem parse_ipv6_show:
  assumes "length os = 16"
  shows "parse_ipv6 (show_ipv6 (Ipv6Addr os)) = Some (Ipv6Addr os)"
proof -
  define gs where "gs = v6_segments os"
  have gs: "length gs = 8" "groups_to_ipv6 gs = Ipv6Addr os"
    using assms by (simp_all add: gs_def length_v6_segments groups_to_ipv6_def v6_segments_bytes)
  show ?thesis
  proof (cases "take 6 gs = [0, 0, 0, 0, 0, 0xffff]")
    case True
    have os: "os = [os ! 0, os ! 1, os ! 2, os ! 3, os ! 4, os ! 5, os ! 6, os ! 7, os ! 8, os ! 9, os ! 10, os ! 11,
        os ! 12, os ! 13, os ! 14, os ! 15]"
      using assms by (simp add: list_eq_iff_nth_eq numeral_eq_Suc All_less_Suc)
    have "drop 6 gs = [u16_from_be (os ! 12) (os ! 13), u16_from_be (os ! 14) (os ! 15)]"
      unfolding gs_def by (subst os) simp
    then have "gs = [0, 0, 0, 0, 0, 0xffff, u16_from_be (os ! 12) (os ! 13), u16_from_be (os ! 14) (os ! 15)]"
      using True append_take_drop_id [of 6 gs] by simp
    with True gs(2) show ?thesis
      by (simp add: show_ipv6_def parse_mapped [unfolded append.simps] gs_def [symmetric] del: show_ipv4.simps)
  next
    case False
    obtain s n where z: "zero_span gs 0 (0, 0) (0, 0) = (s, n)" by fastforce
    show ?thesis
    proof (cases "n > 1")
      case True
      have "s + n \<le> 8" "take n (drop s gs) = replicate n 0"
        using zero_span_run [of gs "[]" "(0, 0)" "(0, 0)" s n] z True gs(1) by auto
      moreover from this have "gs = take s gs @ replicate n 0 @ drop (s + n) gs"
        by (metis append_take_drop_id drop_drop add.commute)
      moreover have "length (take s gs) + n + length (drop (s + n) gs) = 8" using calculation gs(1) by simp
      ultimately have "parse_ipv6 (show_groups (take s gs) @ ''::'' @ show_groups (drop (s + n) gs)) = Some (groups_to_ipv6 gs)"
        using parse_compressed [of "take s gs" n "drop (s + n) gs"] True by simp
      with False z True gs show ?thesis by (simp add: show_ipv6_def gs_def [symmetric])
    next
      case not_more: False
      with False z gs parse_plain [OF gs(1)] show ?thesis by (simp add: show_ipv6_def gs_def [symmetric])
    qed
  qed
qed

end
