(* ===== verification/Dnet_Order.thy ===== *)
theory Dnet_Order
  imports Dnet_Prefix Rust_Ipv6 "HOL-Library.List_Lexorder" "HOL-Library.Product_Lexorder"
begin

text \<open>
  The order that \<open>addr_cmp\<close> computes (type, then prefix length, then bytes), as an instance of
  \<open>linorder\<close> for the address record, and the text forms of \<open>wnr-dnet/src/addr.rs\<close>: \<open>addr_pton\<close>
  after \<open>addr_ntoa\<close>. The last section collects where the code departs from its comments.
\<close>

section \<open>The order\<close>

instantiation addr_ext :: (linorder) linorder
begin

definition less_eq_addr_ext :: "'a addr_scheme \<Rightarrow> 'a addr_scheme \<Rightarrow> bool" where
  "less_eq_addr_ext a b \<longleftrightarrow>
     (addr_type a, addr_bits a, addr_data a, addr.more a)
       \<le> (addr_type b, addr_bits b, addr_data b, addr.more b)"

definition less_addr_ext :: "'a addr_scheme \<Rightarrow> 'a addr_scheme \<Rightarrow> bool" where
  "less_addr_ext a b \<longleftrightarrow> a \<le> b \<and> \<not> b \<le> a"

instance
proof
  fix a b c :: "'a addr_scheme"
  show "(a < b) = (a \<le> b \<and> \<not> b \<le> a)" by (simp add: less_addr_ext_def)
  show "a \<le> a" by (simp add: less_eq_addr_ext_def)
  show "a \<le> b \<Longrightarrow> b \<le> c \<Longrightarrow> a \<le> c" unfolding less_eq_addr_ext_def by (rule order_trans)
  show "a \<le> b \<Longrightarrow> b \<le> a \<Longrightarrow> a = b" unfolding less_eq_addr_ext_def by (drule (1) antisym) simp
  show "a \<le> b \<or> b \<le> a" unfolding less_eq_addr_ext_def by (rule linear)
qed

end

lemma addr_less_iff:
  "(a :: addr) < b \<longleftrightarrow> addr_type a < addr_type b \<or>
     (addr_type a = addr_type b \<and> (addr_bits a < addr_bits b \<or>
       (addr_bits a = addr_bits b \<and> addr_data a < addr_data b)))"
  by (auto simp: less_addr_ext_def less_eq_addr_ext_def less_prod_def)

text \<open>A difference that fits in 32 bits survives the cast.\<close>

lemma sint_diff:
  assumes "uint a < 2 ^ 31" "uint b < 2 ^ 31"
  shows "sint (diff_i32 a b) = uint a - uint b"
proof -
  have "- (2 ^ 31) \<le> uint a - uint b" "uint a - uint b < 2 ^ 31"
    using assms uint_nonnegative [of a] uint_nonnegative [of b] by linarith+
  then show ?thesis
    by (simp add: diff_i32_def signed_take_bit_int_eq_self
        del: of_int_uint of_int_diff add: signed_of_int)
qed

lemma uint_u8_less: "uint (c :: u8) < 2 ^ 31"
  using unsigned_less [of c] by (rule order_less_le_trans) simp

lemma uint_u16_less: "uint (c :: u16) < 2 ^ 31"
  using unsigned_less [of c] by (rule order_less_le_trans) simp

lemma cmp_byte_sign:
  "sint (diff_i32 (a :: u8) b) < 0 \<longleftrightarrow> a < b" "sint (diff_i32 a b) = 0 \<longleftrightarrow> a = b"
  by (simp_all add: sint_diff [OF uint_u8_less uint_u8_less] word_less_def word_uint_eq_iff)

lemma cmp_bits_sign:
  "sint (diff_i32 (a :: u16) b) < 0 \<longleftrightarrow> a < b" "sint (diff_i32 a b) = 0 \<longleftrightarrow> a = b"
  by (simp_all add: sint_diff [OF uint_u16_less uint_u16_less] word_less_def word_uint_eq_iff)

lemma cmp_bytes_sign:
  "length as = length bs \<Longrightarrow>
     (sint (cmp_bytes as bs) < 0 \<longleftrightarrow> as < bs) \<and> (sint (cmp_bytes as bs) = 0 \<longleftrightarrow> as = bs)"
proof (induction as bs rule: list_induct2)
  case (Cons a as b bs)
  then show ?case
    by (cases "a = b") (auto simp: cmp_byte_sign)
qed simp

text \<open>C23: On addresses whose type is below \<open>2^31\<close> (all types the library defines are below 5),
  the sign of \<open>addr_cmp\<close> is the linear order by type, prefix length and bytes: negative when the first
  is smaller, zero exactly when the two are equal, positive when it is greater.\<close>
theorem addr_cmp_linear_order:
  assumes "addr_wf a" "addr_wf b" "addr_type a < 0x80000000" "addr_type b < 0x80000000"
  shows "(sint (addr_cmp a b) < 0 \<longleftrightarrow> a < b) \<and> (addr_cmp a b = 0 \<longleftrightarrow> a = b)
       \<and> (0 < sint (addr_cmp a b) \<longleftrightarrow> b < a)"
proof -
  have "uint (addr_type a) < 2 ^ 31" "uint (addr_type b) < 2 ^ 31"
    using assms(3,4) by (simp_all add: word_less_def)
  then have t: "sint (diff_i32 (addr_type a) (addr_type b)) < 0 \<longleftrightarrow> addr_type a < addr_type b"
    "sint (diff_i32 (addr_type a) (addr_type b)) = 0 \<longleftrightarrow> addr_type a = addr_type b"
    by (simp_all add: sint_diff word_less_def word_uint_eq_iff)
  have d: "length (addr_data a) = length (addr_data b)" using assms by (simp add: addr_wf_def)
  have "(sint (addr_cmp a b) < 0 \<longleftrightarrow> a < b) \<and> (sint (addr_cmp a b) = 0 \<longleftrightarrow> a = b)"
    using t cmp_bytes_sign [OF d]
    by (auto simp: addr_cmp_def cmp_bits_sign addr_less_iff)
  then show ?thesis by (metis linorder_neqE neqE order_less_asym sint_0 signed_eq_0_iff)
qed

theorem addr_cmp_linear_order_witness:
  "(sint (addr_cmp (addr_ipv4 (Ipv4Addr 10 0 0 1)) (addr_ipv4 (Ipv4Addr 10 0 0 2))) < 0
      \<longleftrightarrow> addr_ipv4 (Ipv4Addr 10 0 0 1) < addr_ipv4 (Ipv4Addr 10 0 0 2))
   \<and> addr_ipv4 (Ipv4Addr 10 0 0 1) < addr_ipv4 (Ipv4Addr 10 0 0 2)"
proof -
  have "addr_ipv4 (Ipv4Addr 10 0 0 1) < addr_ipv4 (Ipv4Addr 10 0 0 2)"
    by (simp add: addr_less_iff)
  then show ?thesis
    using addr_cmp_linear_order [of "addr_ipv4 (Ipv4Addr 10 0 0 1)" "addr_ipv4 (Ipv4Addr 10 0 0 2)"]
    by (simp add: addr_types)
qed

section \<open>Text\<close>

lemma show_ipv4_chars: "c \<in> set (show_ipv4 ip) \<Longrightarrow> c = CHR ''.'' \<or> (\<exists>d<10. c = digit_char d)"
  using show_radix_chars [of 10 c] by (cases ip) (auto simp: show_u8_def)

lemma trim_show_ipv4: "trim (show_ipv4 ip) = show_ipv4 ip"
proof (rule trim_id)
  fix c
  assume "c \<in> set (show_ipv4 ip)"
  then consider "c = CHR ''.''" | d where "d < 10" "c = digit_char d"
    using show_ipv4_chars by blast
  then show "plain_char c"
  proof cases
    case 1
    then show ?thesis by (simp add: plain_char_def)
  next
    case 2
    then show ?thesis using digit_char_no_separator(5) [of d] by simp
  qed
qed

text \<open>The characters of an IPv6 address.\<close>

lemma show_groups_chars: "c \<in> set (show_groups gs) \<Longrightarrow> c = CHR '':'' \<or> (\<exists>d<16. c = digit_char d)"
  using set_join_with [of "CHR '':''" "map (\<lambda>g. show_radix 16 (unat g)) gs"] show_radix_chars [of 16 c]
  by (auto simp: show_groups_def)

lemma show_ipv6_chars:
  assumes "c \<in> set (show_ipv6 ip)"
  shows "c = CHR '':'' \<or> c = CHR ''.'' \<or> (\<exists>d<16. c = digit_char d)"
proof -
  have "CHR ''f'' = digit_char 15" by code_simp
  then have hex: "\<exists>d<16. CHR ''f'' = digit_char d" by (intro exI [of _ 15]) simp
  have "c = CHR ''.'' \<or> (\<exists>d<16. c = digit_char d)" if "c \<in> set (show_ipv4 i)" for i
  proof -
    from show_ipv4_chars [OF that] consider "c = CHR ''.''" | d where "d < 10" "c = digit_char d" by blast
    then show ?thesis
    proof cases
      case 2
      then have "d < 16" by simp
      with 2 show ?thesis by blast
    qed simp
  qed
  then show ?thesis
    using assms show_groups_chars hex
    by (auto simp: show_ipv6_def Let_def simp del: show_ipv4.simps split: if_splits prod.splits)
qed

lemma trim_show_ipv6: "trim (show_ipv6 ip) = show_ipv6 ip"
proof (rule trim_id)
  fix c assume "c \<in> set (show_ipv6 ip)"
  then consider "c = CHR '':''" | "c = CHR ''.''" | d where "d < 16" "c = digit_char d" using show_ipv6_chars by blast
  then show "plain_char c"
  proof cases
    case 3
    then show ?thesis using digit_char_no_separator(5) [of d] by simp
  qed (simp_all add: plain_char_def)
qed

lemma parse_ipv4_show_ipv6: "parse_ipv4 (show_ipv6 ip) = None"
proof (cases "take 6 (v6_segments (v6_octets ip)) = [0, 0, 0, 0, 0, 0xffff]")
  case True
  have "read_ipv4 (CHR '':'' # s) = None" for s
    by (simp add: read_ipv4_def read_separator_def read_number_def text_simps)
  with True show ?thesis by (simp add: show_ipv6_def parse_ipv4_def Let_def del: show_ipv4.simps)
next
  case False
  then have "CHR ''.'' \<notin> set (show_ipv6 ip)"
    using groups_text_no_dot by (auto simp: show_ipv6_def Let_def split: prod.split)
  then show ?thesis by (rule parse_ipv4_no_dot)
qed

lemma parse_unknown: "addr_pton ''(unknown)'' = None"
proof -
  have "trim ''(unknown)'' = ''(unknown)''" by (rule trim_id) (auto simp: plain_char_def)
  moreover have "parse_ipv4 ''(unknown)'' = None" by (rule parse_ipv4_no_dot) simp
  moreover have "parse_ipv6 ''(unknown)'' = None" by (simp add: parse_ipv6_def read_ipv6_def parse_closed)
  ultimately show ?thesis by (simp add: addr_pton_def addr_from_str_def)
qed

lemma pton_ipv4: "addr_pton (show_ipv4 ip) = Some (addr_ipv4 ip)"
  by (simp add: addr_pton_def addr_from_str_def trim_show_ipv4 parse_ipv4_show)

lemma pton_ipv6: "length os = 16 \<Longrightarrow> addr_pton (show_ipv6 (Ipv6Addr os)) = Some (addr_ipv6 (Ipv6Addr os))"
  by (simp add: addr_pton_def addr_from_str_def trim_show_ipv6 parse_ipv4_show_ipv6 parse_ipv6_show)

lemma pton_hw:
  assumes "length m = 6"
  shows "addr_pton (join_with '':'' (map fmt_02x m)) = Some (addr_hw m)"
proof -
  let ?s = "join_with '':'' (map fmt_02x m)"
  obtain a b c d e g where "m = [a, b, c, d, e, g]"
    using assms by (auto simp: length_Suc_conv numeral_eq_Suc)
  then have "parse_ipv6 ?s = None" by (simp only: parse_ipv6_mac)
  moreover have "parse_ipv4 ?s = None" by (rule parse_ipv4_no_dot [OF hex_text_no_dot])
  moreover have "eth_pton ?s = Some (eth_addr_new m)" "trim ?s = ?s" "CHR '':'' \<in> set ?s"
    using eth_pton_separated [OF assms] separated_text [OF assms] by auto
  ultimately show ?thesis by (simp add: addr_pton_def addr_from_str_def eth_addr_new_def)
qed

text \<open>What of an address its text keeps: the type and the octets, not the prefix length and not the
  bytes behind the octets.\<close>

definition host_form :: "addr \<Rightarrow> addr" where
  "host_form a = \<lparr>addr_type = addr_type a, addr_bits = of_nat (8 * addr_len a),
     addr_data = take (addr_len a) (addr_data a) @ replicate (16 - addr_len a) 0\<rparr>"

lemma host_form_id:
  assumes "addr_wf a"
  shows "host_form a = a \<longleftrightarrow> unat (addr_bits a) = 8 * addr_len a \<and> zero_padded a"
proof -
  let ?n = "addr_len a"
  have n: "?n \<le> 16" by (simp add: addr_len_def)
  have "unat (of_nat (8 * ?n) :: u16) = 8 * ?n" using n unfolding unat_of_nat by (intro mod_less) simp
  then have bits: "of_nat (8 * ?n) = addr_bits a \<longleftrightarrow> unat (addr_bits a) = 8 * ?n" by (metis unsigned_word_eqI)
  have "take ?n (addr_data a) @ replicate (16 - ?n) 0 = addr_data a \<longleftrightarrow> replicate (16 - ?n) 0 = drop ?n (addr_data a)"
    by (metis append_take_drop_id same_append_eq)
  also have "\<dots> \<longleftrightarrow> zero_padded a"
  proof
    assume "replicate (16 - ?n) 0 = drop ?n (addr_data a)"
    from this [symmetric] show "zero_padded a" unfolding zero_padded_def by simp
  next
    assume "zero_padded a"
    moreover have "length (drop ?n (addr_data a)) = 16 - ?n" using assms by (simp add: addr_wf_def)
    ultimately show "replicate (16 - ?n) 0 = drop ?n (addr_data a)"
      using replicate_eqI [of "drop ?n (addr_data a)" "16 - ?n" 0] by (simp add: zero_padded_def)
  qed
  finally show ?thesis using bits by (cases a) (simp add: host_form_def)
qed

text \<open>C17: The text of an address, parsed, is an address of the same type with the same octets, for IPv4,
  for IPv6 (compressed and mapped forms included) and for hardware addresses, which the IPv4 and the IPv6
  parser refuse. The prefix length comes back as the full length and the bytes behind the octets as zeros,
  so exactly the host addresses with zeros there come back unchanged; an address of any other type prints
  as text that does not parse.\<close>
theorem addr_text_roundtrip:
  assumes "addr_wf a"
  shows "addr_pton (addr_ntoa a) =
      (if addr_type a \<in> {ADDR_TYPE_IP, ADDR_TYPE_IP6, ADDR_TYPE_HW} then Some (host_form a) else None)
    \<and> (addr_pton (addr_ntoa a) = Some a \<longleftrightarrow>
        addr_type a \<in> {ADDR_TYPE_IP, ADDR_TYPE_IP6, ADDR_TYPE_HW}
        \<and> unat (addr_bits a) = 8 * addr_len a \<and> zero_padded a)"
proof -
  have len: "length (addr_data a) = 16" using assms by (simp add: addr_wf_def)
  then have data: "take 4 (addr_data a) = [addr_data a ! 0, addr_data a ! 1, addr_data a ! 2, addr_data a ! 3]"
    by (simp add: take_Suc_conv_app_nth numeral_eq_Suc)
  consider "addr_type a = ADDR_TYPE_IP" | "addr_type a = ADDR_TYPE_IP6" | "addr_type a = ADDR_TYPE_HW"
    | "addr_type a \<notin> {ADDR_TYPE_IP, ADDR_TYPE_IP6, ADDR_TYPE_HW}" by blast
  then have "addr_pton (addr_ntoa a) =
      (if addr_type a \<in> {ADDR_TYPE_IP, ADDR_TYPE_IP6, ADDR_TYPE_HW} then Some (host_form a) else None)"
  proof cases
    case 1
    then show ?thesis
      using data by (simp add: addr_ntoa_def addr_show_def to_ipv4_def pton_ipv4 host_form_def addr_len_def
          addr_ipv4_def addr_default_def del: show_ipv4.simps)
  next
    case 2
    then show ?thesis
      using len by (simp add: addr_ntoa_def addr_show_def to_ipv6_def pton_ipv6 host_form_def addr_len_def
          addr_ipv6_def addr_default_def addr_types)
  next
    case 3
    have "length (take 6 (addr_data a)) = 6" using len by simp
    with 3 pton_hw [OF this] show ?thesis
      by (simp add: addr_ntoa_def addr_show_def host_form_def addr_len_def addr_hw_def addr_default_def addr_types)
  next
    case 4
    then show ?thesis by (simp add: addr_ntoa_def addr_show_def parse_unknown)
  qed
  with host_form_id [OF assms] show ?thesis by simp
qed

theorem addr_text_roundtrip_witness:
  "addr_pton (addr_ntoa (addr_ipv6 (Ipv6Addr [0x20, 1, 0x0d, 0xb8, 0, 0, 0, 0, 0, 0, 0, 0, 0, 0, 0, 1])))
   = Some (addr_ipv6 (Ipv6Addr [0x20, 1, 0x0d, 0xb8, 0, 0, 0, 0, 0, 0, 0, 0, 0, 0, 0, 1]))"
proof -
  let ?a = "addr_ipv6 (Ipv6Addr [0x20, 1, 0x0d, 0xb8, 0, 0, 0, 0, 0, 0, 0, 0, 0, 0, 0, 1])"
  have "addr_wf ?a" "zero_padded ?a" "unat (addr_bits ?a) = 8 * addr_len ?a" "addr_type ?a = ADDR_TYPE_IP6"
    by (simp_all add: zero_padded_def addr_len_def addr_types)
  with addr_text_roundtrip [of ?a] show ?thesis by blast
qed

text \<open>A MAC address prints to text that \<open>eth_pton\<close> reads back, and the two other spellings
  of the six octets (separated by dashes, or twelve digits in a row) read as the same address.\<close>
theorem eth_text_spellings:
  assumes "eth_wf a"
  shows "eth_pton (eth_ntop a) = Some a
       \<and> eth_pton (join_with ''-'' (map fmt_02x (eth_data a))) = Some a
       \<and> eth_pton (concat (map fmt_02x (eth_data a))) = Some a"
  using assms eth_pton_separated [of "eth_data a"] eth_pton_compact [of "eth_data a"]
  by (simp add: eth_wf_def eth_ntop_def eth_addr_new_def)

theorem eth_text_spellings_witness:
  "eth_wf (eth_addr_new [0, 0x11, 0x22, 0xaa, 0xbb, 0xcc])
   \<and> eth_pton (eth_ntop (eth_addr_new [0, 0x11, 0x22, 0xaa, 0xbb, 0xcc]))
       = Some (eth_addr_new [0, 0x11, 0x22, 0xaa, 0xbb, 0xcc])"
  using eth_text_spellings [of "eth_addr_new [0, 0x11, 0x22, 0xaa, 0xbb, 0xcc]"]
  by (simp add: eth_wf_def eth_addr_new_def)

section \<open>Departures from the comments\<close>

text \<open>\<open>Addr\<close> documents its bytes as zero-padded behind the address, and every constructor keeps
  that; \<open>broadcast\<close> does not: for an IPv4 address with a prefix of at most 32 bits it sets the 12
  bytes behind the address, so that the result differs from the constructed broadcast address with
  the same octets and prefix (\<open>==\<close> and \<open>addr_cmp\<close> compare all 16 bytes).\<close>
theorem broadcast_breaks_padding:
  assumes "unat bits \<le> 32"
  shows "zero_padded (addr_ipv4 ip)
       \<and> \<not> zero_padded (broadcast ((addr_ipv4 ip)\<lparr>addr_bits := bits\<rparr>))
       \<and> broadcast ((addr_ipv4 ip)\<lparr>addr_bits := bits\<rparr>) \<noteq> (addr_ipv4 ip')\<lparr>addr_bits := bits\<rparr>"
proof -
  let ?b = "broadcast ((addr_ipv4 ip)\<lparr>addr_bits := bits\<rparr>)"
  have pad: "zero_padded ((addr_ipv4 i)\<lparr>addr_bits := bs\<rparr>)" for i bs
    by (cases i) (simp add: zero_padded_def addr_len_def)
  have pad0: "zero_padded (addr_ipv4 ip)" by (cases ip) (simp add: zero_padded_def addr_len_def)
  have wf: "addr_wf ((addr_ipv4 ip)\<lparr>addr_bits := bits\<rparr>)" by (cases ip) (simp add: addr_wf_def)
  have "msb_bit (addr_data ?b) 32" using broadcast_bit [OF wf, of 32] assms by simp
  then have "addr_data ?b ! 4 \<noteq> 0" by (auto simp: msb_bit_def)
  moreover have "length (addr_data ?b) = 16"
    using broadcast_fields(3) [OF wf] by (simp add: addr_wf_def)
  then have "addr_data ?b ! 4 \<in> set (drop 4 (addr_data ?b))"
    by (metis Cons_nth_drop_Suc list.set_intros(1) numeral_less_iff semiring_norm(76,78))
  ultimately have "\<not> zero_padded ?b"
    by (auto simp: zero_padded_def addr_len_def)
  then show ?thesis using pad0 pad [where i = ip' and bs = bits] by metis
qed

theorem broadcast_breaks_padding_witness:
  "\<not> zero_padded (broadcast ((addr_ipv4 (Ipv4Addr 192 168 1 5))\<lparr>addr_bits := 24\<rparr>))"
  using broadcast_breaks_padding [where bits = 24 and ip = "Ipv4Addr 192 168 1 5"] by simp

text \<open>\<open>mask_to_bits\<close> is documented to reject a non-contiguous mask, and \<open>addr_mtob\<close> does, but
  it looks no further than the first byte that is not \<open>0xff\<close>: any bytes may follow a byte that ends
  the run of ones, and the count is returned all the same.\<close>
theorem mask_to_bits_ignores_tail:
  "mask_to_bits (a\<lparr>addr_data := [0xff, 0] @ rest\<rparr>) = 8
   \<and> (rest \<noteq> replicate (length rest) 0 \<longrightarrow> addr_mtob ([0xff, 0] @ rest) = None)"
proof
  have l0: "lead_ones 0 = (0, 0)" by (simp add: lead_ones.simps)
  show "mask_to_bits (a\<lparr>addr_data := [0xff, 0] @ rest\<rparr>) = 8"
    by (simp add: mask_to_bits_def l0)
  show "rest \<noteq> replicate (length rest) 0 \<longrightarrow> addr_mtob ([0xff, 0] @ rest) = None"
    by (auto simp: addr_mtob_def l0 mtob_after_ones replicate_length_same)
qed

theorem mask_to_bits_ignores_tail_witness:
  "addr_mtob [0xff, 0, 0xff, 0] = None"
  using mask_to_bits_ignores_tail [where rest = "[0xff, 0]"] by simp

text \<open>The cast of the type difference to \<open>i32\<close> drops the sign of large differences: two
  addresses whose types differ by \<open>2^31\<close> are each smaller than the other, so \<open>addr_cmp\<close> is no order
  on the whole type.\<close>
theorem addr_cmp_not_antisymmetric:
  "sint (addr_cmp addr_default (addr_default\<lparr>addr_type := 0x80000000\<rparr>)) < 0
   \<and> sint (addr_cmp (addr_default\<lparr>addr_type := 0x80000000\<rparr>) addr_default) < 0"
  by (simp add: addr_cmp_def addr_default_def diff_i32_def)

end
