(* ===== verification/Dnet_Route.thy ===== *)
theory Dnet_Route
  imports Dnet_Prefix
begin

text \<open>
  \<open>wnr-dnet/src/route.rs\<close>: the userspace routing table (one entry per destination, looked up by
  longest prefix), the validation done by the kernel-table operations, and the socket addresses.
\<close>

section \<open>The table\<close>

record route_entry =
  route_dst :: addr
  route_gw :: addr

record route_table =
  route_entries :: "route_entry list"

definition route_table_new :: route_table where
  "route_table_new = \<lparr>route_entries = []\<rparr>"

definition route_table_add :: "route_entry \<Rightarrow> route_table \<Rightarrow> route_table" where
  "route_table_add e t =
     (case update_first (\<lambda>x. route_dst x = route_dst e) (\<lambda>x. x\<lparr>route_gw := route_gw e\<rparr>) (route_entries t) of
        Some es \<Rightarrow> t\<lparr>route_entries := es\<rparr>
      | None \<Rightarrow> t\<lparr>route_entries := route_entries t @ [e]\<rparr>)"

definition route_table_add_dev :: "route_entry \<Rightarrow> route_table \<Rightarrow> route_table" where
  "route_table_add_dev e t = route_table_add (e\<lparr>route_dst := network (route_dst e)\<rparr>) t"

definition route_table_delete :: "addr \<Rightarrow> route_table \<Rightarrow> route_table" where
  "route_table_delete d t = t\<lparr>route_entries := filter (\<lambda>e. route_dst e \<noteq> d) (route_entries t)\<rparr>"

definition net_contains :: "addr \<Rightarrow> addr \<Rightarrow> bool" where
  "net_contains net a =
     (if addr_type net \<noteq> addr_type a \<or> addr_type net = ADDR_TYPE_NONE then False
      else addr_data (network net) = addr_data (network (a\<lparr>addr_bits := addr_bits net\<rparr>)))"

text \<open>\<open>Iterator::max_by_key\<close>: the last of the elements with the greatest key.\<close>

fun max_by_key :: "('a \<Rightarrow> 'k::linorder) \<Rightarrow> 'a list \<Rightarrow> 'a option" where
  "max_by_key k [] = None"
| "max_by_key k (x # xs) =
     (case max_by_key k xs of None \<Rightarrow> Some x | Some y \<Rightarrow> if k x \<le> k y then Some y else Some x)"

lemma max_by_key_None: "max_by_key k xs = None \<longleftrightarrow> xs = []"
  by (cases xs) (auto split: option.splits)

lemma max_by_key_filter_last:
  "max_by_key k (filter P xs) = Some y \<Longrightarrow>
     P y \<and> (\<exists>p s. xs = p @ y # s \<and> (\<forall>x\<in>set p. P x \<longrightarrow> k x \<le> k y) \<and> (\<forall>x\<in>set s. P x \<longrightarrow> k x < k y))"
proof (induction xs arbitrary: y)
  case (Cons a xs)
  show ?case
  proof (cases "P a \<and> (\<forall>z. max_by_key k (filter P xs) = Some z \<longrightarrow> \<not> k a \<le> k z)")
    case True
    then have y: "y = a" using Cons.prems by (auto split: option.splits)
    have "k x < k a" if "x \<in> set xs" "P x" for x
    proof (cases "max_by_key k (filter P xs)")
      case None
      with that show ?thesis by (auto simp: max_by_key_None filter_empty_conv)
    next
      case (Some z)
      from Cons.IH [OF Some] that have "k x \<le> k z" by (auto simp: less_imp_le)
      with Some True show ?thesis by auto
    qed
    with True y show ?thesis by (intro conjI exI [of _ "[]"] exI [of _ xs]) auto
  next
    case False
    then have m: "max_by_key k (filter P xs) = Some y" and a: "P a \<longrightarrow> k a \<le> k y"
      using Cons.prems by (auto split: option.splits if_splits)
    from Cons.IH [OF m] obtain p s where "P y" "xs = p @ y # s"
        "\<forall>x\<in>set p. P x \<longrightarrow> k x \<le> k y" "\<forall>x\<in>set s. P x \<longrightarrow> k x < k y" by blast
    with a show ?thesis by (intro conjI exI [of _ "a # p"] exI [of _ s]) auto
  qed
qed simp

lemma max_by_key_upper: "max_by_key k xs = Some y \<Longrightarrow> y \<in> set xs \<and> (\<forall>x\<in>set xs. k x \<le> k y)"
  using max_by_key_filter_last [of k "\<lambda>_. True" xs y] by (auto simp: less_imp_le)

lemma max_by_key_greatest:
  assumes "x \<in> set xs"
  shows "\<exists>y. max_by_key k xs = Some y \<and> y \<in> set xs \<and> k x \<le> k y"
proof (cases "max_by_key k xs")
  case None
  with assms show ?thesis by (auto simp: max_by_key_None)
next
  case (Some y)
  with assms max_by_key_upper [OF Some] show ?thesis by auto
qed

lemma max_by_key_unique:
  assumes "\<And>x y. x \<in> set xs \<Longrightarrow> y \<in> set xs \<Longrightarrow> k x = k y \<Longrightarrow> x = y"
  shows "max_by_key k xs = Some e \<longleftrightarrow> e \<in> set xs \<and> (\<forall>x\<in>set xs. x \<noteq> e \<longrightarrow> k x < k e)"
proof
  assume "max_by_key k xs = Some e"
  from max_by_key_upper [OF this] assms show "e \<in> set xs \<and> (\<forall>x\<in>set xs. x \<noteq> e \<longrightarrow> k x < k e)"
    by (metis order_le_less)
next
  assume e: "e \<in> set xs \<and> (\<forall>x\<in>set xs. x \<noteq> e \<longrightarrow> k x < k e)"
  then obtain y where "max_by_key k xs = Some y" "y \<in> set xs" "k e \<le> k y"
    using max_by_key_greatest by metis
  with e show "max_by_key k xs = Some e" by (metis not_less)
qed

definition route_table_get :: "addr \<Rightarrow> route_table \<Rightarrow> route_entry option" where
  "route_table_get d t =
     max_by_key (\<lambda>e. addr_bits (route_dst e))
       (filter (\<lambda>e. net_contains (route_dst e) d)
         (filter (\<lambda>e. addr_type d = addr_type (route_dst e)) (route_entries t)))"

definition route_table_is_empty :: "route_table \<Rightarrow> bool" where
  "route_table_is_empty t \<longleftrightarrow> route_entries t = []"

definition route_table_len :: "route_table \<Rightarrow> nat" where
  "route_table_len t = length (route_entries t)"

section \<open>Kernel-table operations\<close>

definition route_add :: "route_entry \<Rightarrow> string + unit" where
  "route_add e =
     (if addr_type (route_dst e) = ADDR_TYPE_NONE then Inl ''route_add: empty destination address''
      else if addr_bits (route_dst e) = 0 \<or> addr_bits (route_dst e) > of_nat (addr_len (route_dst e)) * 8
      then Inl (''route_add: invalid prefix length '' @ show_radix 10 (unat (addr_bits (route_dst e))))
      else if \<not> (addr_type (route_gw e) = ADDR_TYPE_IP \<or> addr_type (route_gw e) = ADDR_TYPE_IP6)
      then Inl ''route_add: gateway must be an IP address''
      else Inl (''route_add: modifying the kernel routing table (SIOCADDRT) requires ''
                @ ''elevated privileges; install the route via the OS instead''))"

definition route_delete :: "route_entry \<Rightarrow> string + unit" where
  "route_delete e =
     (if addr_type (route_dst e) = ADDR_TYPE_NONE then Inl ''route_delete: empty destination address''
      else Inl (''route_delete: modifying the kernel routing table (SIOCDELRT) requires ''
                @ ''elevated privileges; remove the route via the OS instead''))"

section \<open>Socket addresses\<close>

text \<open>\<open>std::net::SocketAddr\<close>; the IPv6 form also carries its flow label and scope.\<close>

datatype socket_addr = SockV4 ipv4_addr u16 | SockV6 ipv6_addr u16 u32 u32

definition route_sockaddr :: "addr \<Rightarrow> socket_addr option" where
  "route_sockaddr a =
     (if addr_type a = ADDR_TYPE_IP then map_option (\<lambda>ip. SockV4 ip 9) (to_ipv4 a)
      else if addr_type a = ADDR_TYPE_IP6 then map_option (\<lambda>ip. SockV6 ip 9 0 0) (to_ipv6 a)
      else None)"

fun sockaddr_to_addr :: "socket_addr \<Rightarrow> addr" where
  "sockaddr_to_addr (SockV4 ip _) = addr_ipv4 ip"
| "sockaddr_to_addr (SockV6 ip _ _ _) = addr_ipv6 ip"

lemma route_sockaddr_back:
  assumes "addr_wf a" "zero_padded a" "route_sockaddr a = Some sa"
  shows "sockaddr_to_addr sa = a\<lparr>addr_bits := of_nat (addr_len a * 8)\<rparr>"
proof (cases "addr_type a = ADDR_TYPE_IP")
  case True
  obtain b0 b1 b2 b3 r where d: "addr_data a = b0 # b1 # b2 # b3 # r" "length r = 12"
    using assms(1) by (auto simp: addr_wf_def length_Suc_conv numeral_eq_Suc)
  have "r = replicate 12 0"
    using assms(2) True d by (intro replicate_eqI) (auto simp: zero_padded_def addr_len_def)
  then show ?thesis
    using assms(3) True d
    by (auto simp: route_sockaddr_def to_ipv4_def addr_len_def intro!: addr.equality)
next
  case False
  then show ?thesis
    using assms by (auto simp: route_sockaddr_def to_ipv6_def addr_len_def addr_types intro!: addr.equality
        split: if_splits)
qed

section \<open>The table as a map\<close>

interpretation route_tab:
  keyed_table route_table_new route_table_add route_table_delete route_entries route_dst
proof
  fix e :: route_entry and t and k :: addr
  let ?f = "\<lambda>x. x\<lparr>route_gw := route_gw e\<rparr>"
  have f: "route_dst x = route_dst e \<Longrightarrow> ?f x = e" for x by simp
  show "route_entries route_table_new = []" by (simp add: route_table_new_def)
  show "table_map route_dst (route_entries (route_table_add e t))
          = (table_map route_dst (route_entries t))(route_dst e := Some e)"
    using update_first_table [of route_dst e ?f, OF f] push_table(1) [of route_dst e ?f]
    by (auto simp: route_table_add_def split: option.splits)
  show "distinct_keys route_dst (route_entries t) \<Longrightarrow> distinct_keys route_dst (route_entries (route_table_add e t))"
    using update_first_table [of route_dst e ?f, OF f] push_table(2) [of route_dst e ?f]
    by (auto simp: route_table_add_def distinct_keys_def split: option.splits)
  show "table_map route_dst (route_entries (route_table_delete k t))
          = (table_map route_dst (route_entries t))(k := None)"
    "distinct_keys route_dst (route_entries t) \<Longrightarrow> distinct_keys route_dst (route_entries (route_table_delete k t))"
    by (simp_all add: route_table_delete_def retain_table)
qed

section \<open>Which networks contain an address\<close>

definition prefix_covers :: "addr \<Rightarrow> addr \<Rightarrow> bool" where
  "prefix_covers net a \<longleftrightarrow>
     addr_type net = addr_type a \<and> addr_type net \<noteq> ADDR_TYPE_NONE
     \<and> (\<forall>i\<in>{..<unat (addr_bits net)}. msb_bit (addr_data net) i = msb_bit (addr_data a) i)"

definition good_net :: "addr \<Rightarrow> bool" where
  "good_net a \<longleftrightarrow> addr_wf a \<and> unat (addr_bits a) \<le> 128"

lemma good_net_network [simp]: "good_net a \<Longrightarrow> good_net (network a)"
  by (simp add: good_net_def)

lemma net_contains_covers:
  assumes "good_net net" "addr_wf a"
  shows "net_contains net a \<longleftrightarrow> prefix_covers net a"
proof -
  let ?n = "network net" and ?a = "network (a\<lparr>addr_bits := addr_bits net\<rparr>)"
  have n: "addr_wf net" "unat (addr_bits net) \<le> 128" using assms(1) by (simp_all add: good_net_def)
  have wf: "addr_wf (a\<lparr>addr_bits := addr_bits net\<rparr>)" using assms(2) by (simp add: addr_wf_def)
  have l: "length (addr_data ?n) = 16" "length (addr_data ?a) = 16"
    using network_fields(3) [OF n(1)] network_fields(3) [OF wf] by (auto simp: addr_wf_def)
  have "addr_data ?n = addr_data ?a \<longleftrightarrow> (\<forall>i<128. msb_bit (addr_data ?n) i = msb_bit (addr_data ?a) i)"
    using msb_bit_ext [of "addr_data ?n" "addr_data ?a"] l by auto
  also have "\<dots> \<longleftrightarrow> (\<forall>i\<in>{..<unat (addr_bits net)}. msb_bit (addr_data net) i = msb_bit (addr_data a) i)"
    using n(2) network_bit [OF n(1)] network_bit [OF wf] by (simp, metis lessThan_iff order_less_le_trans)
  finally show ?thesis by (auto simp: net_contains_def prefix_covers_def)
qed

text \<open>A network of at most 128 prefix bits contains an address exactly when the two are of the
  same (known) family and agree on the network's prefix bits, most significant first; no other bit of
  either is looked at.\<close>
theorem net_contains_prefix:
  assumes "addr_wf net" "addr_wf a" "unat (addr_bits net) \<le> 128"
  shows "net_contains net a \<longleftrightarrow>
    addr_type net = addr_type a \<and> addr_type net \<noteq> ADDR_TYPE_NONE
      \<and> (\<forall>i<unat (addr_bits net). msb_bit (addr_data net) i = msb_bit (addr_data a) i)"
  using assms net_contains_covers [of net a] by (auto simp: good_net_def prefix_covers_def)

theorem net_contains_prefix_witness:
  "net_contains ((addr_ipv4 (Ipv4Addr 10 0 0 0))\<lparr>addr_bits := 8\<rparr>) (addr_ipv4 (Ipv4Addr 10 1 2 3))"
proof -
  let ?net = "(addr_ipv4 (Ipv4Addr 10 0 0 0))\<lparr>addr_bits := 8\<rparr>" and ?a = "addr_ipv4 (Ipv4Addr 10 1 2 3)"
  have "addr_wf ?net" "addr_wf ?a" by (simp_all add: addr_wf_def)
  moreover have "unat (addr_bits ?net) = 8" by simp
  moreover have "\<forall>i<8. msb_bit (addr_data ?net) i = msb_bit (addr_data ?a) i" by (simp add: msb_bit_def)
  ultimately show ?thesis using net_contains_prefix [of ?net ?a] by (simp add: addr_types)
qed

lemma network_over: "addr_wf a \<Longrightarrow> 128 < unat (addr_bits a) \<Longrightarrow> addr_data (network a) = replicate 16 0"
  using network_bit [of a] network_fields(3) [of a] by (intro msb_bit_ext) (auto simp: addr_wf_def)

text \<open>A destination prefix of more than 128 bits, which \<open>add\<close> stores without complaint, becomes
  the all-zero mask: it contains every address of its family, and in a lookup it hides every entry with
  a valid prefix, even an exact host route.\<close>
theorem overlong_prefix_captures_all:
  assumes "addr_wf (route_dst e)" "addr_wf a" "128 < unat (addr_bits (route_dst e))"
    and "addr_type (route_dst e) = addr_type a" "addr_type a \<noteq> ADDR_TYPE_NONE"
    and "e \<in> set (route_entries t)"
  shows "net_contains (route_dst e) a
    \<and> (\<exists>w. route_table_get a t = Some w \<and> 128 < unat (addr_bits (route_dst w)))"
proof
  have "addr_wf (a\<lparr>addr_bits := addr_bits (route_dst e)\<rparr>)" using assms(2) by (simp add: addr_wf_def)
  then show c: "net_contains (route_dst e) a"
    using assms by (simp add: net_contains_def network_over)
  let ?es = "filter (\<lambda>e. net_contains (route_dst e) a)
         (filter (\<lambda>e. addr_type a = addr_type (route_dst e)) (route_entries t))"
  have "e \<in> set ?es" using assms c by simp
  then show "\<exists>w. route_table_get a t = Some w \<and> 128 < unat (addr_bits (route_dst w))"
    using max_by_key_greatest [of e ?es "\<lambda>e. addr_bits (route_dst e)"] assms(3)
    unfolding route_table_get_def by (meson order_less_le_trans word_le_nat_alt)
qed

theorem overlong_prefix_captures_all_witness:
  "\<exists>w. route_table_get (addr_ipv4 (Ipv4Addr 8 8 8 8))
      (route_table_add \<lparr>route_dst = (addr_ipv4 (Ipv4Addr 10 0 0 0))\<lparr>addr_bits := 200\<rparr>, route_gw = addr_default\<rparr>
        (route_table_add \<lparr>route_dst = addr_ipv4 (Ipv4Addr 8 8 8 8), route_gw = addr_default\<rparr> route_table_new)) = Some w
    \<and> 128 < unat (addr_bits (route_dst w))"
  by (rule overlong_prefix_captures_all [THEN conjunct2,
        of "\<lparr>route_dst = (addr_ipv4 (Ipv4Addr 10 0 0 0))\<lparr>addr_bits := 200\<rparr>, route_gw = addr_default\<rparr>"])
     (simp_all add: addr_wf_def addr_types route_table_add_def route_table_new_def)

section \<open>Longest prefix first\<close>

lemma candidates_cover:
  assumes "\<forall>e\<in>set (route_entries t). good_net (route_dst e)" "addr_wf d"
  shows "filter (\<lambda>e. net_contains (route_dst e) d)
             (filter (\<lambda>e. addr_type d = addr_type (route_dst e)) (route_entries t))
           = filter (\<lambda>e. prefix_covers (route_dst e) d) (route_entries t)"
  using assms net_contains_covers unfolding filter_filter
  by (intro filter_cong) (auto simp: prefix_covers_def)

text \<open>C15: With prefixes of at most 128 bits, a lookup returns nothing exactly when no entry covers the
  destination; otherwise it returns an entry that covers it, no covering entry has a longer prefix, and
  of the covering entries of that length it is the last in the table.\<close>
theorem route_get_longest_prefix:
  assumes "\<forall>e\<in>set (route_entries t). good_net (route_dst e)" "addr_wf d"
  shows "case route_table_get d t of
      None \<Rightarrow> \<forall>e\<in>set (route_entries t). \<not> prefix_covers (route_dst e) d
    | Some e \<Rightarrow> prefix_covers (route_dst e) d \<and>
        (\<exists>p s. route_entries t = p @ e # s
          \<and> (\<forall>x\<in>set p. prefix_covers (route_dst x) d \<longrightarrow> addr_bits (route_dst x) \<le> addr_bits (route_dst e))
          \<and> (\<forall>x\<in>set s. prefix_covers (route_dst x) d \<longrightarrow> addr_bits (route_dst x) < addr_bits (route_dst e)))"
proof -
  note f = candidates_cover [OF assms]
  show ?thesis
    unfolding route_table_get_def f
    by (auto simp: max_by_key_None filter_empty_conv dest!: max_by_key_filter_last split: option.splits)
qed

theorem route_get_longest_prefix_witness:
  "prefix_covers ((addr_ipv4 (Ipv4Addr 10 1 0 0))\<lparr>addr_bits := 16\<rparr>) (addr_ipv4 (Ipv4Addr 10 1 2 3))
   \<and> route_table_get (addr_ipv4 (Ipv4Addr 10 1 2 3))
      (route_table_add \<lparr>route_dst = (addr_ipv4 (Ipv4Addr 10 0 0 0))\<lparr>addr_bits := 8\<rparr>, route_gw = addr_default\<rparr>
        (route_table_add \<lparr>route_dst = (addr_ipv4 (Ipv4Addr 10 1 0 0))\<lparr>addr_bits := 16\<rparr>, route_gw = addr_default\<rparr>
          route_table_new))
      = Some \<lparr>route_dst = (addr_ipv4 (Ipv4Addr 10 1 0 0))\<lparr>addr_bits := 16\<rparr>, route_gw = addr_default\<rparr>"
proof -
  let ?t = "route_table_add \<lparr>route_dst = (addr_ipv4 (Ipv4Addr 10 0 0 0))\<lparr>addr_bits := 8\<rparr>, route_gw = addr_default\<rparr>
        (route_table_add \<lparr>route_dst = (addr_ipv4 (Ipv4Addr 10 1 0 0))\<lparr>addr_bits := 16\<rparr>, route_gw = addr_default\<rparr>
          route_table_new)"
  let ?d = "addr_ipv4 (Ipv4Addr 10 1 2 3)"
  have g: "\<forall>e\<in>set (route_entries ?t). good_net (route_dst e)"
    by (simp add: route_table_add_def route_table_new_def good_net_def addr_wf_def addr_default_def)
  have w: "addr_wf ?d" by simp
  have r: "route_table_get ?d ?t
      = Some \<lparr>route_dst = (addr_ipv4 (Ipv4Addr 10 1 0 0))\<lparr>addr_bits := 16\<rparr>, route_gw = addr_default\<rparr>"
    by code_simp
  show ?thesis using route_get_longest_prefix [OF g w] unfolding r by simp
qed

text \<open>Two networks without host bits that cover the same address with the same length are equal.\<close>

lemma same_length_same_net:
  assumes "good_net x" "good_net y" "prefix_covers (network x) d" "prefix_covers (network y) d"
    and "addr_bits x = addr_bits y"
  shows "network x = network y"
proof (rule addr_eqI)
  fix i :: nat
  assume "i < 128"
  then show "msb_bit (addr_data (network x)) i = msb_bit (addr_data (network y)) i"
    using assms network_bit [of x i] network_bit [of y i]
    by (cases "i < unat (addr_bits y)") (auto simp: prefix_covers_def good_net_def)
qed (use assms in \<open>auto simp: good_net_def prefix_covers_def\<close>)

text \<open>What \<open>add_dev\<close> makes of an operation.\<close>

fun dev_op :: "(route_entry, addr) table_op \<Rightarrow> (route_entry, addr) table_op" where
  "dev_op (AddEntry e) = AddEntry (e\<lparr>route_dst := network (route_dst e)\<rparr>)"
| "dev_op (DeleteKey k) = DeleteKey k"

lemma run_dev:
  "run_table route_table_add_dev route_table_delete ops t
     = run_table route_table_add route_table_delete (map dev_op ops) t"
proof (induction ops arbitrary: t)
  case (Cons op1 ops)
  then show ?case by (cases op1) (simp_all add: route_table_add_dev_def)
qed simp

text \<open>C3: A table built by \<open>add_dev\<close> and \<open>delete\<close> (prefixes of at most 128 bits) is, for lookups, the
  map from network to entry that its history denotes: \<open>get\<close> returns an entry exactly when the map holds
  it, it covers the destination, and every other covering entry of the map has a strictly shorter prefix;
  in particular the answer does not depend on the order in which live entries were inserted.\<close>
theorem device_routes_unique_best:
  assumes "\<forall>e. AddEntry e \<in> set ops \<longrightarrow> good_net (route_dst e)" "addr_wf d"
  shows "route_table_get d (run_table route_table_add_dev route_table_delete ops route_table_new) = Some e
    \<longleftrightarrow> (let M = run_map route_dst (map dev_op ops) (\<lambda>_. None) in
          M (route_dst e) = Some e \<and> prefix_covers (route_dst e) d
          \<and> (\<forall>x. x \<noteq> e \<and> M (route_dst x) = Some x \<and> prefix_covers (route_dst x) d
                 \<longrightarrow> addr_bits (route_dst x) < addr_bits (route_dst e)))"
proof -
  let ?t = "run_table route_table_add_dev route_table_delete ops route_table_new"
  let ?M = "run_map route_dst (map dev_op ops) (\<lambda>_. None)"
  have mem: "x \<in> set (route_entries ?t) \<longleftrightarrow> ?M (route_dst x) = Some x" for x
    by (simp add: run_dev route_tab.run_members)
  have norm: "\<exists>n. good_net n \<and> route_dst x = network n" if "?M (route_dst x) = Some x" for x
  proof -
    have "AddEntry x \<in> dev_op ` set ops" using run_map_origin [OF that] by simp
    then obtain o1 where "o1 \<in> set ops" "dev_op o1 = AddEntry x" by (metis imageE)
    with assms(1) show ?thesis by (cases o1) auto
  qed
  have uniq: "x = y" if "?M (route_dst x) = Some x" "?M (route_dst y) = Some y" "prefix_covers (route_dst x) d"
      "prefix_covers (route_dst y) d" "addr_bits (route_dst x) = addr_bits (route_dst y)" for x y
  proof -
    note t = that
    obtain n where "good_net n" "route_dst x = network n" using norm [OF t(1)] by blast
    moreover obtain m where "good_net m" "route_dst y = network m" using norm [OF t(2)] by blast
    ultimately have "good_net n" "route_dst x = network n" "good_net m" "route_dst y = network m" by simp_all
    with t(3-5) same_length_same_net [of n m d] have "route_dst x = route_dst y" by simp
    then show ?thesis using t(1,2) by (metis option.inject)
  qed
  have g: "\<forall>e\<in>set (route_entries ?t). good_net (route_dst e)"
    using norm good_net_network by (metis mem)
  have "route_table_get d ?t = Some e \<longleftrightarrow>
      (e \<in> set (filter (\<lambda>e. prefix_covers (route_dst e) d) (route_entries ?t))
       \<and> (\<forall>x\<in>set (filter (\<lambda>e. prefix_covers (route_dst e) d) (route_entries ?t)).
             x \<noteq> e \<longrightarrow> addr_bits (route_dst x) < addr_bits (route_dst e)))"
    unfolding route_table_get_def candidates_cover [OF g assms(2)]
    by (rule max_by_key_unique) (use uniq mem in auto)
  then show ?thesis by (auto simp: mem Let_def)
qed

theorem device_routes_unique_best_witness:
  "route_table_get (addr_ipv4 (Ipv4Addr 10 1 2 3))
     (run_table route_table_add_dev route_table_delete
        [AddEntry \<lparr>route_dst = (addr_ipv4 (Ipv4Addr 10 1 2 9))\<lparr>addr_bits := 24\<rparr>, route_gw = addr_default\<rparr>]
        route_table_new) = Some \<lparr>route_dst = (addr_ipv4 (Ipv4Addr 10 1 2 0))\<lparr>addr_bits := 24\<rparr>, route_gw = addr_default\<rparr>"
proof -
  let ?ops = "[AddEntry \<lparr>route_dst = (addr_ipv4 (Ipv4Addr 10 1 2 9))\<lparr>addr_bits := 24\<rparr>, route_gw = addr_default\<rparr>]
    :: (route_entry, addr) table_op list"
  have n: "network ((addr_ipv4 (Ipv4Addr 10 1 2 9))\<lparr>addr_bits := 24\<rparr>) = (addr_ipv4 (Ipv4Addr 10 1 2 0))\<lparr>addr_bits := 24\<rparr>"
    by code_simp
  have c: "prefix_covers ((addr_ipv4 (Ipv4Addr 10 1 2 0))\<lparr>addr_bits := 24\<rparr>) (addr_ipv4 (Ipv4Addr 10 1 2 3))"
    by code_simp
  have g: "\<forall>e. AddEntry e \<in> set ?ops \<longrightarrow> good_net (route_dst e)"
    by (simp add: good_net_def addr_wf_def)
  have w: "addr_wf (addr_ipv4 (Ipv4Addr 10 1 2 3))" by simp
  show ?thesis
    using c by (subst device_routes_unique_best [OF g w]) (auto simp: n Let_def)
qed

text \<open>The routing table refines a map from destination to entry: after any sequence of \<open>add\<close>
  and \<open>delete\<close> from the empty table its entries are exactly the entries of the map the sequence
  denotes (a second \<open>add\<close> of a destination replaces the gateway), each once, and \<open>len\<close> counts them.\<close>
theorem route_table_refines_map:
  "(e \<in> set (route_entries (run_table route_table_add route_table_delete ops route_table_new))
      \<longleftrightarrow> run_map route_dst ops (\<lambda>_. None) (route_dst e) = Some e)
   \<and> distinct_keys route_dst (route_entries (run_table route_table_add route_table_delete ops route_table_new))
   \<and> route_table_len (run_table route_table_add route_table_delete ops route_table_new)
       = card (dom (run_map route_dst ops (\<lambda>_. None)))"
proof -
  have "distinct_keys route_dst (route_entries (run_table route_table_add route_table_delete ops route_table_new))"
    by (rule route_tab.run_distinct) (simp add: route_table_new_def distinct_keys_def)
  then show ?thesis
    using route_tab.run_members [of e ops] route_tab.run_size [of ops] by (simp add: route_table_len_def)
qed

section \<open>Kernel-table validation\<close>

text \<open>\<open>route_add\<close> never installs anything: it always returns an error, and the error is the
  "requires elevated privileges" one exactly for a destination of a known family whose prefix length is
  between 1 and the family's width in bits and an IPv4 or IPv6 gateway. A prefix length of 0, the default
  route, is refused as invalid, whatever the rest of the entry.\<close>
theorem route_add_verdict:
  "\<exists>msg. route_add e = Inl msg
     \<and> (take 20 msg = ''route_add: modifying'' \<longleftrightarrow>
          1 \<le> unat (addr_bits (route_dst e)) \<and> unat (addr_bits (route_dst e)) \<le> 8 * addr_len (route_dst e)
          \<and> addr_type (route_dst e) \<noteq> ADDR_TYPE_NONE
          \<and> (addr_type (route_gw e) = ADDR_TYPE_IP \<or> addr_type (route_gw e) = ADDR_TYPE_IP6))
     \<and> (addr_bits (route_dst e) = 0 \<and> addr_type (route_dst e) \<noteq> ADDR_TYPE_NONE
          \<longrightarrow> msg = ''route_add: invalid prefix length 0'')"
proof -
  have l: "unat (of_nat (addr_len (route_dst e)) * 8 :: u16) = 8 * addr_len (route_dst e)"
    by (simp add: addr_len_def)
  have z: "addr_bits (route_dst e) = 0 \<longleftrightarrow> unat (addr_bits (route_dst e)) = 0"
    by (simp add: unat_eq_0)
  have s0: "show_radix 10 0 = ''0''" by code_simp
  show ?thesis
    by (simp add: route_add_def word_less_nat_alt l z s0)
qed

theorem route_add_verdict_witness:
  "\<exists>msg. route_add \<lparr>route_dst = (addr_ipv4 (Ipv4Addr 0 0 0 0))\<lparr>addr_bits := 0\<rparr>,
      route_gw = addr_ipv4 (Ipv4Addr 10 0 0 1)\<rparr> = Inl msg \<and> msg = ''route_add: invalid prefix length 0''"
  using route_add_verdict [of "\<lparr>route_dst = (addr_ipv4 (Ipv4Addr 0 0 0 0))\<lparr>addr_bits := 0\<rparr>,
      route_gw = addr_ipv4 (Ipv4Addr 10 0 0 1)\<rparr>"]
  by (auto simp: addr_types)

end
