(* ===== verification/Rust_Unicode.thy ===== *)
theory Rust_Unicode
  imports Wnr_Prelude
begin

text \<open>
  The part of the Rust standard library that turns foreign text into a \<open>String\<close>: UTF-8 and UTF-16 with
  replacement of what is malformed (\<open>String::from_utf8_lossy\<close>, \<open>String::from_utf16_lossy\<close>,
  \<open>CStr::to_string_lossy\<close>). A \<open>char\<close> is its code point, a \<open>String\<close> its UTF-8 bytes, kept as a list of
  8-bit characters as in the other theories. The library rejects surrogates, overlong forms and values
  above \<open>0x10FFFF\<close>, and replaces each longest prefix of a broken sequence by one \<open>U+FFFD\<close>.
\<close>

named_theorems utf_simps "encoders, decoders and their byte ranges"

section \<open>Code points\<close>

definition is_scalar :: "nat \<Rightarrow> bool" where
  "is_scalar c \<longleftrightarrow> c < 0xD800 \<or> 0xE000 \<le> c \<and> c < 0x110000"

definition byte :: "nat \<Rightarrow> u8" where
  "byte n = of_nat n"

definition utf8_encode :: "nat \<Rightarrow> bytes" where
  "utf8_encode c =
     (if c < 0x80 then [byte c]
      else if c < 0x800 then [byte (0xC0 + c div 64), byte (0x80 + c mod 64)]
      else if c < 0x10000
      then [byte (0xE0 + c div 64 div 64), byte (0x80 + c div 64 mod 64), byte (0x80 + c mod 64)]
      else [byte (0xF0 + c div 64 div 64 div 64), byte (0x80 + c div 64 div 64 mod 64),
            byte (0x80 + c div 64 mod 64), byte (0x80 + c mod 64)])"

definition utf8_bytes :: "nat list \<Rightarrow> bytes" where
  "utf8_bytes cs = concat (map utf8_encode cs)"

definition utf16_encode :: "nat \<Rightarrow> u16 list" where
  "utf16_encode c =
     (if c < 0x10000 then [of_nat c]
      else [of_nat (0xD800 + (c - 0x10000) div 1024), of_nat (0xDC00 + (c - 0x10000) mod 1024)])"

definition REPLACEMENT :: nat where "REPLACEMENT = 0xFFFD"

section \<open>Decoding UTF-8\<close>

text \<open>One step of the library's chunk iterator: whether the text starts with a well-formed sequence, and
  how many bytes that sequence, or the broken prefix, has. A byte beyond the end reads as 0.\<close>

definition byte_at :: "bytes \<Rightarrow> nat \<Rightarrow> nat" where
  "byte_at bs i = (if i < length bs then unat (bs ! i) else 0)"

definition is_cont :: "nat \<Rightarrow> bool" where
  "is_cont x \<longleftrightarrow> 0x80 \<le> x \<and> x \<le> 0xBF"

definition second_ok :: "nat \<Rightarrow> nat \<Rightarrow> bool" where
  "second_ok b x \<longleftrightarrow>
     (if b = 0xE0 then 0xA0 \<le> x \<and> x \<le> 0xBF
      else if b = 0xED then 0x80 \<le> x \<and> x \<le> 0x9F
      else if b = 0xF0 then 0x90 \<le> x \<and> x \<le> 0xBF
      else if b = 0xF4 then 0x80 \<le> x \<and> x \<le> 0x8F
      else is_cont x)"

definition utf8_step :: "bytes \<Rightarrow> bool \<times> nat" where
  "utf8_step bs =
     (let b = byte_at bs 0; x = byte_at bs 1; y = byte_at bs 2; z = byte_at bs 3 in
      if b < 0x80 then (True, 1)
      else if 0xC2 \<le> b \<and> b \<le> 0xDF then (if is_cont x then (True, 2) else (False, 1))
      else if 0xE0 \<le> b \<and> b \<le> 0xEF
      then (if \<not> second_ok b x then (False, 1) else if \<not> is_cont y then (False, 2) else (True, 3))
      else if 0xF0 \<le> b \<and> b \<le> 0xF4
      then (if \<not> second_ok b x then (False, 1) else if \<not> is_cont y then (False, 2)
            else if \<not> is_cont z then (False, 3) else (True, 4))
      else (False, 1))"

lemma utf8_step_pos: "0 < snd (utf8_step bs)"
  by (simp add: utf8_step_def Let_def)

function utf8_lossy :: "bytes \<Rightarrow> bytes" where
  "utf8_lossy bs =
     (if bs = [] then []
      else (let (ok, n) = utf8_step bs
            in (if ok then take n bs else utf8_encode REPLACEMENT) @ utf8_lossy (drop n bs)))"
  by pat_completeness auto
termination
proof (relation "measure length")
  fix bs :: bytes and x ok n
  assume "bs \<noteq> []" "x = utf8_step bs" "(ok, n) = x"
  then have "0 < n" using utf8_step_pos [of bs] by (metis snd_conv)
  with \<open>bs \<noteq> []\<close> show "(drop n bs, bs) \<in> measure length" by (cases bs) simp_all
qed simp

function utf8_valid :: "bytes \<Rightarrow> bool" where
  "utf8_valid bs = (if bs = [] then True else if fst (utf8_step bs) then utf8_valid (drop (snd (utf8_step bs)) bs) else False)"
  by pat_completeness auto
termination
proof (relation "measure length")
  fix bs :: bytes
  assume "bs \<noteq> []"
  then show "(drop (snd (utf8_step bs)) bs, bs) \<in> measure length"
    using utf8_step_pos [of bs] by (cases bs) simp_all
qed simp

declare utf8_lossy.simps [simp del] utf8_valid.simps [simp del]

section \<open>Decoding UTF-16\<close>

fun utf16_lossy :: "u16 list \<Rightarrow> nat list" where
  "utf16_lossy [] = []"
| "utf16_lossy (u # us) =
     (if unat u < 0xD800 \<or> 0xE000 \<le> unat u then unat u # utf16_lossy us
      else if 0xDC00 \<le> unat u then REPLACEMENT # utf16_lossy us
      else (case us of
              [] \<Rightarrow> [REPLACEMENT]
            | v # vs \<Rightarrow>
                if 0xDC00 \<le> unat v \<and> unat v < 0xE000
                then (0x10000 + (unat u - 0xD800) * 1024 + (unat v - 0xDC00)) # utf16_lossy vs
                else REPLACEMENT # utf16_lossy us))"

section \<open>Strings of the operating system\<close>

definition text_of :: "bytes \<Rightarrow> string" where
  "text_of bs = map (\<lambda>b. char_of (unat b)) bs"

definition bytes_of :: "string \<Rightarrow> bytes" where
  "bytes_of s = map (\<lambda>c. of_nat (of_char c)) s"

text \<open>What every Rust \<open>String\<close> is.\<close>

definition is_rust_string :: "string \<Rightarrow> bool" where
  "is_rust_string s \<longleftrightarrow> utf8_valid (bytes_of s)"

section \<open>The encoder and the decoder agree\<close>

lemma unat_byte [utf_simps]: "n < 256 \<Longrightarrow> unat (byte n) = n"
  by (simp add: byte_def unsigned_of_nat take_bit_nat_eq_self)

lemma byte_unat [simp]: "byte (unat b) = b"
  by (simp add: byte_def)

lemma byte_at_simps [simp]:
  "byte_at (b # bs) 0 = unat b" "byte_at [] i = 0" "byte_at (b # bs) (Suc i) = byte_at bs i"
  "byte_at (b # bs) (numeral k) = byte_at bs (pred_numeral k)"
  by (simp_all add: byte_at_def numeral_eq_Suc)

lemma mod_bounds:
  fixes m :: nat
  shows "m div k = q \<Longrightarrow> m < q * k + r \<Longrightarrow> m mod k < r" "m div k = q \<Longrightarrow> q * k + r \<le> m \<Longrightarrow> r \<le> m mod k"
  using div_mult_mod_eq [of m k] by auto

text \<open>Sequences of each length, by the digits of the code point.\<close>

lemma step_one: "p < 0x80 \<Longrightarrow> utf8_step (byte p # rest) = (True, 1)"
  by (simp add: utf8_step_def unat_byte)

lemma step_two:
  assumes "2 \<le> p" "p < 32" "q < 64"
  shows "utf8_step (byte (0xC0 + p) # byte (0x80 + q) # rest) = (True, 2)"
  using assms by (simp add: utf8_step_def Let_def is_cont_def unat_byte)

lemma step_three:
  assumes "h < 16" "p < 64" "q < 64" "h = 0 \<Longrightarrow> 32 \<le> p" "h = 13 \<Longrightarrow> p < 32"
  shows "utf8_step (byte (0xE0 + h) # byte (0x80 + p) # byte (0x80 + q) # rest) = (True, 3)"
proof -
  have "second_ok (0xE0 + h) (0x80 + p)" using assms by (auto simp: second_ok_def is_cont_def)
  with assms(1-3) show ?thesis by (simp add: utf8_step_def Let_def is_cont_def unat_byte)
qed

lemma step_four:
  assumes "n < 5" "h < 64" "p < 64" "q < 64" "n = 0 \<Longrightarrow> 16 \<le> h" "n = 4 \<Longrightarrow> h < 16"
  shows "utf8_step (byte (0xF0 + n) # byte (0x80 + h) # byte (0x80 + p) # byte (0x80 + q) # rest) = (True, 4)"
proof -
  have "second_ok (0xF0 + n) (0x80 + h)" using assms by (auto simp: second_ok_def is_cont_def)
  with assms(1-4) show ?thesis by (simp add: utf8_step_def Let_def is_cont_def unat_byte)
qed

lemma step_complete:
  assumes "is_scalar c"
  shows "utf8_step (utf8_encode c @ rest) = (True, length (utf8_encode c))"
proof -
  define q1 q2 q3 where q: "q1 = c div 64" "q2 = q1 div 64" "q3 = q2 div 64"
  have m: "c mod 64 < 64" "q1 mod 64 < 64" "q2 mod 64 < 64" by simp_all
  have e: "utf8_encode c =
     (if c < 0x80 then [byte c]
      else if c < 0x800 then [byte (0xC0 + q1), byte (0x80 + c mod 64)]
      else if c < 0x10000
      then [byte (0xE0 + q2), byte (0x80 + q1 mod 64), byte (0x80 + c mod 64)]
      else [byte (0xF0 + q3), byte (0x80 + q2 mod 64),
            byte (0x80 + q1 mod 64), byte (0x80 + c mod 64)])"
    by (simp only: utf8_encode_def q)
  consider "c < 0x80" | "0x80 \<le> c" "c < 0x800" | "0x800 \<le> c" "c < 0x10000" | "0x10000 \<le> c" by linarith
  then show ?thesis
  proof cases
    case 1
    then show ?thesis by (simp add: e step_one)
  next
    case 2
    then have "2 \<le> q1" "q1 < 32" by (auto simp: q)
    with 2 m show ?thesis by (simp add: e step_two)
  next
    case 3
    then have "32 \<le> q1" "q1 < 1024" by (auto simp: q)
    then have "q2 < 16" "q2 = 0 \<Longrightarrow> 32 \<le> q1 mod 64" using mod_bounds(2) [of q1 64 0 32] by (auto simp: q(2))
    moreover have "q1 mod 64 < 32" if "q2 = 13"
    proof -
      have "c div 64 div 64 = 13" using that by (simp add: q)
      then have "c < 0xD800" using assms by (auto simp: is_scalar_def)
      then have "q1 < 13 * 64 + 32" by (auto simp: q)
      with that show ?thesis using mod_bounds(1) [of q1 64 13 32] by (simp add: q(2))
    qed
    ultimately show ?thesis using 3 m by (simp add: e step_three)
  next
    case 4
    have "c < 0x110000" using assms by (auto simp: is_scalar_def)
    then have "16 \<le> q2" "q2 < 4 * 64 + 16" using 4 by (auto simp: q)
    then have "q3 < 5" "q3 = 0 \<Longrightarrow> 16 \<le> q2 mod 64" "q3 = 4 \<Longrightarrow> q2 mod 64 < 16"
      using mod_bounds [of q2 64] by (auto simp: q(3))
    then show ?thesis using 4 m by (simp add: e step_four)
  qed
qed

lemma digits_div_mod: "(q :: nat) < 64 \<Longrightarrow> (p * 64 + q) div 64 = p" "q < 64 \<Longrightarrow> (p * 64 + q) mod 64 = q"
  by simp_all

lemma encode_digits:
  assumes "q < 64"
  shows "2 \<le> p \<Longrightarrow> p < 32 \<Longrightarrow> utf8_encode (p * 64 + q) = [byte (0xC0 + p), byte (0x80 + q)]"
    and "h < 16 \<Longrightarrow> p < 64 \<Longrightarrow> h = 0 \<longrightarrow> 32 \<le> p \<Longrightarrow>
      utf8_encode ((h * 64 + p) * 64 + q) = [byte (0xE0 + h), byte (0x80 + p), byte (0x80 + q)]"
    and "n < 5 \<Longrightarrow> h < 64 \<Longrightarrow> p < 64 \<Longrightarrow> n = 0 \<longrightarrow> 16 \<le> h \<Longrightarrow>
      utf8_encode (((n * 64 + h) * 64 + p) * 64 + q)
        = [byte (0xF0 + n), byte (0x80 + h), byte (0x80 + p), byte (0x80 + q)]"
proof -
  show "2 \<le> p \<Longrightarrow> p < 32 \<Longrightarrow> utf8_encode (p * 64 + q) = [byte (0xC0 + p), byte (0x80 + q)]"
    unfolding utf8_encode_def digits_div_mod [OF assms] using assms by simp
  show "h < 16 \<Longrightarrow> p < 64 \<Longrightarrow> h = 0 \<longrightarrow> 32 \<le> p \<Longrightarrow>
      utf8_encode ((h * 64 + p) * 64 + q) = [byte (0xE0 + h), byte (0x80 + p), byte (0x80 + q)]"
  proof -
    assume h: "h < 16" "p < 64" "h = 0 \<longrightarrow> 32 \<le> p"
    then have "32 \<le> h * 64 + p" "h * 64 + p < 1024" by (cases h; simp)+
    then show ?thesis unfolding utf8_encode_def digits_div_mod [OF assms] digits_div_mod [OF h(2)] using assms by simp
  qed
  show "n < 5 \<Longrightarrow> h < 64 \<Longrightarrow> p < 64 \<Longrightarrow> n = 0 \<longrightarrow> 16 \<le> h \<Longrightarrow>
      utf8_encode (((n * 64 + h) * 64 + p) * 64 + q)
        = [byte (0xF0 + n), byte (0x80 + h), byte (0x80 + p), byte (0x80 + q)]"
  proof -
    assume h: "n < 5" "h < 64" "p < 64" "n = 0 \<longrightarrow> 16 \<le> h"
    then have "16 \<le> n * 64 + h" by (cases n) simp_all
    then show ?thesis
      unfolding utf8_encode_def digits_div_mod [OF assms] digits_div_mod [OF h(3)] digits_div_mod [OF h(2)]
      using assms h by simp
  qed
qed

lemma byte_digit:
  assumes "k \<le> unat b" "unat b < k + m"
  obtains p where "unat b = k + p" "b = byte (k + p)" "p < m"
proof (rule that [of "unat b - k"])
  show "b = byte (k + (unat b - k))" using assms by simp
qed (use assms in simp_all)

lemma cont_digit:
  assumes "is_cont (byte_at r i)"
  obtains q where "i < length r" "r ! i = byte (0x80 + q)" "q < 64"
proof -
  have i: "i < length r" "0x80 \<le> unat (r ! i)" "unat (r ! i) < 0x80 + 64"
    using assms by (auto simp: is_cont_def byte_at_def split: if_splits)
  with byte_digit [OF i(2,3)] that show ?thesis by blast
qed

lemma second_digit:
  assumes "second_ok k (byte_at r 0)"
  obtains p where "0 < length r" "r ! 0 = byte (0x80 + p)" "p < 64" "k = 0xE0 \<longrightarrow> 32 \<le> p" "k = 0xED \<longrightarrow> p < 32"
    "k = 0xF0 \<longrightarrow> 16 \<le> p" "k = 0xF4 \<longrightarrow> p < 16"
proof -
  have "is_cont (byte_at r 0)" using assms by (auto simp: second_ok_def is_cont_def split: if_splits)
  from cont_digit [OF this] obtain p where p: "0 < length r" "r ! 0 = byte (0x80 + p)" "p < 64" .
  then have "byte_at r 0 = 0x80 + p" by (simp add: byte_at_def unat_byte)
  with assms have "k = 0xE0 \<longrightarrow> 32 \<le> p" "k = 0xED \<longrightarrow> p < 32" "k = 0xF0 \<longrightarrow> 16 \<le> p" "k = 0xF4 \<longrightarrow> p < 16"
    by (auto simp: second_ok_def)
  with p that show ?thesis by blast
qed

lemma step_cases:
  assumes "utf8_step (a # r) = (True, n)"
  obtains (one) "unat a < 0x80" "n = 1"
    | (two) "0xC2 \<le> unat a" "unat a \<le> 0xDF" "is_cont (byte_at r 0)" "n = 2"
    | (three) "0xE0 \<le> unat a" "unat a \<le> 0xEF" "second_ok (unat a) (byte_at r 0)" "is_cont (byte_at r 1)" "n = 3"
    | (four) "0xF0 \<le> unat a" "unat a \<le> 0xF4" "second_ok (unat a) (byte_at r 0)" "is_cont (byte_at r 1)"
        "is_cont (byte_at r 2)" "n = 4"
proof -
  have b: "byte_at (a # r) 0 = unat a" "byte_at (a # r) 1 = byte_at r 0" "byte_at (a # r) 2 = byte_at r 1"
    "byte_at (a # r) 3 = byte_at r 2" by (simp_all add: numeral_2_eq_2)
  show ?thesis
    using assms that unfolding utf8_step_def Let_def b by (auto split: if_split_asm)
qed

lemma take_digits:
  "0 < length r \<Longrightarrow> take 2 (a # r) = [a, r ! 0]"
  "1 < length r \<Longrightarrow> take 3 (a # r) = [a, r ! 0, r ! 1]"
  "2 < length r \<Longrightarrow> take 4 (a # r) = [a, r ! 0, r ! 1, r ! 2]"
  by (cases r; cases "tl r"; cases "tl (tl r)"; auto simp: eval_nat_numeral)+

lemma step_sound:
  assumes "utf8_step (a # r) = (True, n)"
  shows "\<exists>c. is_scalar c \<and> take n (a # r) = utf8_encode c"
  using assms
proof (cases rule: step_cases)
  case one
  then show ?thesis by (intro exI [of _ "unat a"]) (simp add: is_scalar_def utf8_encode_def)
next
  case two
  from two have "0xC0 \<le> unat a" "unat a < 0xC0 + 32" by simp_all
  then obtain p where p: "unat a = 0xC0 + p" "a = byte (0xC0 + p)" "p < 32" by (rule byte_digit)
  from two(3) obtain q where q: "0 < length r" "r ! 0 = byte (0x80 + q)" "q < 64" by (rule cont_digit)
  have "2 \<le> p" using two p by simp
  with p q two take_digits(1) [OF q(1), of a] encode_digits(1) [OF q(3), of p] show ?thesis
    by (intro exI [of _ "p * 64 + q"]) (simp add: is_scalar_def)
next
  case three
  from three have "0xE0 \<le> unat a" "unat a < 0xE0 + 16" by simp_all
  then obtain h where h: "unat a = 0xE0 + h" "a = byte (0xE0 + h)" "h < 16" by (rule byte_digit)
  from three(3) obtain p where p: "r ! 0 = byte (0x80 + p)" "p < 64" "h = 0 \<longrightarrow> 32 \<le> p" "h = 13 \<longrightarrow> p < 32"
    by (rule second_digit) (use h(1) in force)
  from three(4) obtain q where q: "1 < length r" "r ! 1 = byte (0x80 + q)" "q < 64" by (rule cont_digit)
  have "is_scalar ((h * 64 + p) * 64 + q)"
  proof (cases "h = 13")
    case False
    then consider "h \<le> 12" | "14 \<le> h" by linarith
    then show ?thesis using h(3) p(2) q(3) by cases (simp_all add: is_scalar_def)
  qed (use p q in \<open>simp add: is_scalar_def\<close>)
  then show ?thesis
    using take_digits(2) [OF q(1), of a] encode_digits(2) [OF q(3) h(3) p(2,3)] p(1) q(2) h(2) three(5)
    by (intro exI [of _ "(h * 64 + p) * 64 + q"]) simp
next
  case four
  from four have "0xF0 \<le> unat a" "unat a < 0xF0 + 5" by simp_all
  then obtain k where k: "unat a = 0xF0 + k" "a = byte (0xF0 + k)" "k < 5" by (rule byte_digit)
  from four(3) obtain h where h: "r ! 0 = byte (0x80 + h)" "h < 64" "k = 0 \<longrightarrow> 16 \<le> h" "k = 4 \<longrightarrow> h < 16"
    by (rule second_digit) (use k(1) in force)
  from four(4) obtain p where p: "r ! 1 = byte (0x80 + p)" "p < 64" by (rule cont_digit)
  from four(5) obtain q where q: "2 < length r" "r ! 2 = byte (0x80 + q)" "q < 64" by (rule cont_digit)
  have "16 \<le> k * 64 + h" using h(3) by (cases k) simp_all
  moreover have "k * 64 + h < 272" using h(2,4) k(3) by (cases "k = 4") simp_all
  ultimately have "is_scalar (((k * 64 + h) * 64 + p) * 64 + q)" using p(2) q(3) by (simp add: is_scalar_def)
  then show ?thesis
    using take_digits(3) [OF q(1), of a] encode_digits(3) [OF q(3) k(3) h(2) p(2) h(3)] p(1) q(2) h(1) k(2) four(6)
    by (intro exI [of _ "((k * 64 + h) * 64 + p) * 64 + q"]) simp
qed

section \<open>Well-formed text\<close>

lemma utf8_bytes_simps [simp]:
  "utf8_bytes [] = []" "utf8_bytes (c # cs) = utf8_encode c @ utf8_bytes cs"
  "utf8_bytes (cs @ ds) = utf8_bytes cs @ utf8_bytes ds"
  by (simp_all add: utf8_bytes_def)

lemma utf8_encode_not_Nil [simp]: "utf8_encode c \<noteq> []"
  by (simp add: utf8_encode_def)

lemma utf8_valid_encode:
  assumes "is_scalar c"
  shows "utf8_valid (utf8_encode c @ bs) = utf8_valid bs"
  by (subst utf8_valid.simps) (simp add: step_complete [OF assms])

lemma utf8_valid_bytes: "list_all is_scalar cs \<Longrightarrow> utf8_valid (utf8_bytes cs)"
  by (induction cs) (simp_all add: utf8_valid_encode, simp add: utf8_valid.simps)

text \<open>A byte string is well-formed exactly when it encodes a list of scalar values.\<close>

lemma utf8_valid_iff: "utf8_valid bs \<longleftrightarrow> (\<exists>cs. list_all is_scalar cs \<and> bs = utf8_bytes cs)"
proof
  show "utf8_valid bs \<Longrightarrow> \<exists>cs. list_all is_scalar cs \<and> bs = utf8_bytes cs"
  proof (induction bs rule: utf8_valid.induct)
    case (1 bs)
    show ?case
    proof (cases bs)
      case Nil
      then show ?thesis by (intro exI [of _ "[]"]) simp
    next
      case (Cons a r)
      obtain n where n: "utf8_step bs = (True, n)"
        using "1.prems" Cons by (subst (asm) utf8_valid.simps) (cases "utf8_step bs"; auto split: if_splits)
      then have "utf8_valid (drop n bs)" using "1.prems" Cons by (subst (asm) utf8_valid.simps) simp
      with "1.IH" n Cons obtain cs where cs: "list_all is_scalar cs" "drop n bs = utf8_bytes cs" by auto
      from step_sound n Cons obtain c where "is_scalar c" "take n bs = utf8_encode c" by blast
      with cs show ?thesis
        by (intro exI [of _ "c # cs"]) (simp, metis append_take_drop_id)
    qed
  qed
qed (auto simp: utf8_valid_bytes)

lemma utf8_lossy_bytes:
  assumes "list_all is_scalar cs"
  shows "utf8_lossy (utf8_bytes cs @ bs) = utf8_bytes cs @ utf8_lossy bs"
  using assms
proof (induction cs)
  case (Cons c cs)
  then show ?case by (subst utf8_lossy.simps) (simp add: step_complete)
qed simp

text \<open>Lossy decoding keeps well-formed text, and what it returns is well-formed.\<close>

lemma utf8_lossy_id: "utf8_valid bs \<Longrightarrow> utf8_lossy bs = bs"
  using utf8_lossy_bytes [of _ "[]"] by (auto simp: utf8_valid_iff utf8_lossy.simps [of "[]"])

lemma REPLACEMENT_scalar [simp]: "is_scalar REPLACEMENT"
  by (simp add: is_scalar_def REPLACEMENT_def)

lemma utf8_lossy_valid: "utf8_valid (utf8_lossy bs)"
proof (induction bs rule: utf8_lossy.induct)
  case (1 bs)
  show ?case
  proof (cases bs)
    case Nil
    then show ?thesis by (simp add: utf8_lossy.simps utf8_valid.simps)
  next
    case (Cons a r)
    obtain ok n where n: "utf8_step bs = (ok, n)" by (cases "utf8_step bs")
    have ih: "utf8_valid (utf8_lossy (drop n bs))" using "1.IH" [OF _ refl, of ok n] n Cons by simp
    obtain c where "is_scalar c" "(if ok then take n bs else utf8_encode REPLACEMENT) = utf8_encode c"
    proof (cases ok)
      case True
      with step_sound [of a r n] n Cons that show ?thesis by auto
    next
      case False
      with that [of REPLACEMENT] show ?thesis by simp
    qed
    then show ?thesis
      using ih n Cons by (subst utf8_lossy.simps) (simp add: utf8_valid_encode)
  qed
qed

section \<open>UTF-16\<close>

lemma unat_unit [utf_simps]: "n < 65536 \<Longrightarrow> unat (of_nat n :: u16) = n"
  by (simp add: unsigned_of_nat take_bit_nat_eq_self)

lemma utf16_lossy_scalars: "list_all is_scalar (utf16_lossy us)"
proof (induction us rule: utf16_lossy.induct)
  case (2 u us)
  have u: "unat u < 65536" using unsigned_less [of u] by simp
  show ?case
    using 2 u by (auto simp: is_scalar_def split: list.split) (simp_all add: is_scalar_def REPLACEMENT_def)
qed simp

lemma utf16_lossy_encode:
  assumes "is_scalar c"
  shows "utf16_lossy (utf16_encode c @ us) = c # utf16_lossy us"
proof (cases "c < 0x10000")
  case True
  then show ?thesis using assms by (auto simp: utf16_encode_def is_scalar_def unat_unit)
next
  case False
  define h l where hl: "h = (c - 0x10000) div 1024" "l = (c - 0x10000) mod 1024"
  have b: "h < 1024" "l < 1024" using assms by (auto simp: hl is_scalar_def)
  have "c = 0x10000 + h * 1024 + l" using False by (simp add: hl)
  moreover have "unat (of_nat (0xD800 + h) :: u16) = 0xD800 + h" "unat (of_nat (0xDC00 + l) :: u16) = 0xDC00 + l"
    using b by (simp_all add: unat_unit del: of_nat_add)
  ultimately show ?thesis using False b by (simp add: utf16_encode_def del: of_nat_add flip: hl)
qed

text \<open>Decoding text that was encoded in UTF-16 returns it.\<close>

lemma utf16_lossy_id: "list_all is_scalar cs \<Longrightarrow> utf16_lossy (concat (map utf16_encode cs) @ us) = cs @ utf16_lossy us"
  by (induction cs) (simp_all add: utf16_lossy_encode)

section \<open>Strings\<close>

lemma bytes_of_text [simp]: "bytes_of (text_of bs) = bs"
proof -
  have "unat b mod 256 = unat b" for b :: u8
    using unsigned_less [of b, where 'a = nat] by simp
  then show ?thesis by (simp add: bytes_of_def text_of_def o_def)
qed

lemma text_of_bytes [simp]: "text_of (bytes_of s) = s"
proof -
  have "char_of (unat (of_nat (of_char c) :: u8)) = c" for c
    by (simp add: unsigned_of_nat take_bit_nat_eq_self)
  then show ?thesis unfolding bytes_of_def text_of_def map_map o_def by simp
qed

lemma is_rust_string_text: "is_rust_string (text_of bs) = utf8_valid bs"
  by (simp add: is_rust_string_def)

lemma is_rust_string_Nil: "is_rust_string []"
  by (simp add: is_rust_string_def bytes_of_def utf8_valid.simps [of "[]"])

text \<open>Seven-bit text is its own encoding.\<close>

lemma ascii_valid: "\<forall>b\<in>set bs. unat b < 0x80 \<Longrightarrow> utf8_valid bs"
proof (induction bs)
  case (Cons b bs)
  then have "is_scalar (unat b)" "utf8_encode (unat b) = [b]" by (simp_all add: is_scalar_def utf8_encode_def)
  with Cons utf8_valid_encode [of "unat b" bs] show ?case by simp
qed (simp add: utf8_valid.simps)

end
