(* ===== verification/Dnet_Text.thy ===== *)
theory Dnet_Text
  imports Rust_Unicode
begin

text \<open>
  \<open>wnr-dnet/src/intf.rs\<close>: the names that the operating system gives to interfaces, as \<open>String\<close>s. A pointer
  to a text is null, or the memory from there on, which is read up to the first zero.
\<close>

definition ansi_to_string :: "bytes option \<Rightarrow> string" where
  "ansi_to_string p = (case p of None \<Rightarrow> [] | Some m \<Rightarrow> text_of (utf8_lossy (takeWhile (\<lambda>b. b \<noteq> 0) m)))"

definition wide_to_string :: "u16 list option \<Rightarrow> string" where
  "wide_to_string p =
     (case p of None \<Rightarrow> [] | Some m \<Rightarrow> text_of (utf8_bytes (utf16_lossy (takeWhile (\<lambda>u. u \<noteq> 0) m))))"

lemma ansi_string_valid [intro, simp]: "is_rust_string (ansi_to_string p)"
  by (simp add: ansi_to_string_def is_rust_string_text is_rust_string_Nil utf8_lossy_valid split: option.split)

lemma wide_string_valid [intro, simp]: "is_rust_string (wide_to_string p)"
  by (simp add: wide_to_string_def is_rust_string_text is_rust_string_Nil utf8_valid_bytes utf16_lossy_scalars
      split: option.split)

lemma ansi_string_kept:
  assumes "utf8_valid bs" "0 \<notin> set bs"
  shows "ansi_to_string (Some (bs @ 0 # rest)) = text_of bs"
proof -
  have "takeWhile (\<lambda>b. b \<noteq> 0) (bs @ 0 # rest) = bs" using assms(2) by (subst takeWhile_append2) auto
  with assms(1) show ?thesis by (simp add: ansi_to_string_def utf8_lossy_id)
qed

text \<open>A terminated UTF-16 string decodes to the text it encodes.\<close>

lemma wide_string_encoded:
  assumes "list_all is_scalar cs" "0 \<notin> set cs"
  shows "wide_to_string (Some (concat (map utf16_encode cs) @ 0 # rest)) = text_of (utf8_bytes cs)"
proof -
  have "0 \<notin> set (utf16_encode c)" if "is_scalar c" "c \<noteq> 0" for c
  proof -
    have nz: "(of_nat n :: u16) \<noteq> 0" if "0 < n" "n < 65536" for n
      using unat_unit [OF that(2)] that(1) by (metis unsigned_0 neq0_conv)
    have "(c - 0x10000) div 1024 < 1024" using that(1) by (auto simp: is_scalar_def)
    with that show ?thesis
      by (auto simp: utf16_encode_def nz simp del: of_nat_add dest!: sym [of 0])
  qed
  then have "0 \<notin> set (concat (map utf16_encode cs))"
    using assms by (fastforce simp: list_all_iff)
  then have "takeWhile (\<lambda>u. u \<noteq> 0) (concat (map utf16_encode cs) @ 0 # rest) = concat (map utf16_encode cs)"
    by (subst takeWhile_append2) auto
  with utf16_lossy_id [OF assms(1), of "[]"] show ?thesis by (simp add: wide_to_string_def)
qed

end
