(* ===== verification/Dnet_Intf.thy ===== *)
theory Dnet_Intf
  imports Dnet_Route Dnet_Text
begin

text \<open>
  \<open>wnr-dnet/src/intf.rs\<close>: interface entries, their enumeration from the records the operating system
  returns (\<open>getifaddrs\<close> on Linux, \<open>GetAdaptersAddresses\<close> on Windows), and the lookups built on it. The
  operating system is a parameter: the records it returns, and for the \<open>connect\<close> probe the three
  socket calls (\<open>os_udp\<close>), each of which may fail.
\<close>

section \<open>Entries\<close>

definition INTF_TYPE_ETH :: u16 where "INTF_TYPE_ETH = 6"
definition INTF_TYPE_PPP :: u16 where "INTF_TYPE_PPP = 23"
definition INTF_TYPE_LOOPBACK :: u16 where "INTF_TYPE_LOOPBACK = 24"
definition INTF_FLAG_UP :: u16 where "INTF_FLAG_UP = 0x01"
definition INTF_FLAG_LOOPBACK :: u16 where "INTF_FLAG_LOOPBACK = 0x02"
definition INTF_FLAG_POINTOPOINT :: u16 where "INTF_FLAG_POINTOPOINT = 0x04"
definition INTF_TYPE_OTHER :: u16 where "INTF_TYPE_OTHER = 1"
definition INTF_TYPE_TOKENRING :: u16 where "INTF_TYPE_TOKENRING = 9"
definition INTF_TYPE_FDDI :: u16 where "INTF_TYPE_FDDI = 15"
definition INTF_TYPE_SLIP :: u16 where "INTF_TYPE_SLIP = 28"
definition INTF_TYPE_TUN :: u16 where "INTF_TYPE_TUN = 53"
definition INTF_FLAG_NOARP :: u16 where "INTF_FLAG_NOARP = 0x08"
definition INTF_FLAG_BROADCAST :: u16 where "INTF_FLAG_BROADCAST = 0x10"
definition INTF_FLAG_MULTICAST :: u16 where "INTF_FLAG_MULTICAST = 0x20"
definition INTF_NAME_LEN :: nat where "INTF_NAME_LEN = 16"

record intf_entry =
  intf_name :: string
  intf_type :: u16
  intf_flags :: u16
  intf_mtu :: u32
  intf_addr :: addr
  intf_dst_addr :: addr
  intf_link_addr :: addr
  intf_alias_addrs :: "addr list"

definition intf_default :: intf_entry where
  "intf_default = \<lparr>intf_name = [], intf_type = 0, intf_flags = 0, intf_mtu = 0, intf_addr = addr_default,
     intf_dst_addr = addr_default, intf_link_addr = addr_default, intf_alias_addrs = []\<rparr>"

definition intf_is_up :: "intf_entry \<Rightarrow> bool" where
  "intf_is_up e \<longleftrightarrow> intf_flags e AND INTF_FLAG_UP \<noteq> 0"

definition intf_is_loopback :: "intf_entry \<Rightarrow> bool" where
  "intf_is_loopback e \<longleftrightarrow> intf_flags e AND INTF_FLAG_LOOPBACK \<noteq> 0"

definition intf_is_point_to_point :: "intf_entry \<Rightarrow> bool" where
  "intf_is_point_to_point e \<longleftrightarrow> intf_flags e AND INTF_FLAG_POINTOPOINT \<noteq> 0"

definition link_addr_slice :: "intf_entry \<Rightarrow> bytes option" where
  "link_addr_slice e = to_hw (intf_link_addr e)"

section \<open>Linux\<close>

text \<open>
  A \<open>struct sockaddr\<close> as it lies in memory: the four bytes of \<open>sin_addr\<close> (network order), the sixteen
  of \<open>sin6_addr\<close>, \<open>sll_halen\<close> with the eight bytes of \<open>sll_addr\<close> (Linux), or all of a
  \<open>sockaddr_dl\<close> from its first byte (macOS: length, family, two bytes of index, type, \<open>sdl_nlen\<close>,
  \<open>sdl_alen\<close>, \<open>sdl_slen\<close>, then the name followed by the link-layer address).
\<close>

datatype os_sockaddr = SaInet u8 u8 u8 u8 | SaInet6 bytes | SaPacket u8 bytes | SaLink bytes | SaOther

record ifaddrs =
  ifa_name :: "bytes option"
  ifa_flags :: u32
  ifa_addr :: "os_sockaddr option"

text \<open>\<open>s_addr\<close> is the native integer of those bytes; \<open>Ipv4Addr::from\<close> of an integer takes its most
  significant byte first.\<close>

definition native_u32 :: "bool \<Rightarrow> u8 \<Rightarrow> u8 \<Rightarrow> u8 \<Rightarrow> u8 \<Rightarrow> u32" where
  "native_u32 little a b c d = (if little then u32_from_le a b c d else u32_from_be a b c d)"

definition ipv4_from_u32 :: "u32 \<Rightarrow> ipv4_addr" where
  "ipv4_from_u32 w = (case u32_to_be w of [a, b, c, d] \<Rightarrow> Ipv4Addr a b c d | _ \<Rightarrow> Ipv4Addr 0 0 0 0)"

fun unix_sockaddr_addr :: "bool \<Rightarrow> os_sockaddr \<Rightarrow> addr" where
  "unix_sockaddr_addr little (SaInet a b c d) = addr_ipv4 (ipv4_from_u32 (native_u32 little a b c d))"
| "unix_sockaddr_addr little (SaInet6 bs) = addr_ipv6 (Ipv6Addr bs)"
| "unix_sockaddr_addr little _ = addr_default"

fun unix_link_addr :: "os_sockaddr \<Rightarrow> addr option" where
  "unix_link_addr (SaPacket halen m) = (if halen = 6 then Some (addr_hw (take 6 m)) else None)"
| "unix_link_addr (SaLink dl) =
     (if dl ! 6 = 6 then Some (addr_hw (take 6 (drop (unat (dl ! 5)) dl))) else None)"
| "unix_link_addr _ = None"

definition unix_entry :: "bool \<Rightarrow> ifaddrs \<Rightarrow> intf_entry" where
  "unix_entry little ifa =
     (let e0 = intf_default\<lparr>intf_name := ansi_to_string (ifa_name ifa),
                            intf_flags := ucast (ifa_flags ifa)\<rparr>;
          e1 = (case ifa_addr ifa of
                  Some sa \<Rightarrow> (let a = unix_sockaddr_addr little sa
                               in if addr_type a \<noteq> ADDR_TYPE_NONE then e0\<lparr>intf_addr := a\<rparr> else e0)
                | None \<Rightarrow> e0)
      in case Option.bind (ifa_addr ifa) unix_link_addr of
           Some m \<Rightarrow> e1\<lparr>intf_link_addr := m\<rparr>
         | None \<Rightarrow> e1)"

text \<open>\<open>None\<close>: \<open>getifaddrs\<close> failed.\<close>

definition unix_interfaces :: "bool \<Rightarrow> ifaddrs list option \<Rightarrow> intf_entry list" where
  "unix_interfaces little r = (case r of None \<Rightarrow> [] | Some ifas \<Rightarrow> map (unix_entry little) ifas)"

section \<open>Windows\<close>

record win_adapter =
  win_friendly_name :: "u16 list option"
  win_adapter_name :: "bytes option"
  win_mtu :: u32
  win_if_type :: u32
  win_oper_status :: u32
  win_mac_len :: u32
  win_mac :: bytes
  win_unicast :: "os_sockaddr option list"

text \<open>The octets of an IPv4 address are \<open>S_addr.to_le_bytes()\<close>; Windows hosts are little-endian.\<close>

fun win_sockaddr_addr :: "os_sockaddr \<Rightarrow> addr option" where
  "win_sockaddr_addr (SaInet a b c d) =
     (case u32_to_le (native_u32 True a b c d) of
        [w, x, y, z] \<Rightarrow> Some (addr_ipv4 (Ipv4Addr w x y z)) | _ \<Rightarrow> None)"
| "win_sockaddr_addr (SaInet6 bs) = Some (addr_ipv6 (Ipv6Addr bs))"
| "win_sockaddr_addr _ = None"

definition win_add_addr :: "intf_entry \<Rightarrow> addr \<Rightarrow> intf_entry" where
  "win_add_addr e a =
     (if addr_type (intf_addr e) = ADDR_TYPE_NONE then e\<lparr>intf_addr := a\<rparr>
      else e\<lparr>intf_alias_addrs := intf_alias_addrs e @ [a]\<rparr>)"

fun win_unicast_loop :: "os_sockaddr option list \<Rightarrow> intf_entry \<Rightarrow> intf_entry" where
  "win_unicast_loop [] e = e"
| "win_unicast_loop (sa # sas) e =
     win_unicast_loop sas
       (case Option.bind sa win_sockaddr_addr of Some a \<Rightarrow> win_add_addr e a | None \<Rightarrow> e)"

definition win_entry :: "win_adapter \<Rightarrow> intf_entry" where
  "win_entry w =
     (let wide = wide_to_string (win_friendly_name w);
          name = (if wide \<noteq> [] then wide else ansi_to_string (win_adapter_name w));
          e = intf_default\<lparr>intf_name := (if name = [] then ''iface'' else name), intf_mtu := win_mtu w\<rparr>;
          e = (if win_if_type w = 24
               then e\<lparr>intf_type := INTF_TYPE_LOOPBACK, intf_flags := intf_flags e OR INTF_FLAG_LOOPBACK\<rparr>
               else e\<lparr>intf_type := INTF_TYPE_ETH\<rparr>);
          e = (if win_oper_status w = 1 then e\<lparr>intf_flags := intf_flags e OR INTF_FLAG_UP\<rparr> else e);
          e = (if 6 \<le> win_mac_len w then e\<lparr>intf_link_addr := addr_hw (take 6 (win_mac w))\<rparr> else e)
      in win_unicast_loop (win_unicast w) e)"

text \<open>
  One reply of \<open>GetAdaptersAddresses\<close> per attempt; on an overflow the call stores the size it wants
  and the code asks again with 8 KiB more. \<open>None\<close>: the replies run out while the code still asks.
\<close>

datatype win_reply = WinOk "win_adapter list" | WinOverflow u32 | WinError

fun windows_loop :: "(u32 \<Rightarrow> win_reply) list \<Rightarrow> u32 \<Rightarrow> intf_entry list option" where
  "windows_loop [] sz = None"
| "windows_loop (call # calls) sz =
     (case call sz of
        WinOk ws \<Rightarrow> Some (map win_entry ws)
      | WinOverflow wanted \<Rightarrow> windows_loop calls (wanted + 8 * 1024)
      | WinError \<Rightarrow> Some [])"

definition windows_interfaces :: "(u32 \<Rightarrow> win_reply) list \<Rightarrow> intf_entry list option" where
  "windows_interfaces calls = windows_loop calls (15 * 1024)"

section \<open>All platforms\<close>

text \<open>The platform that the crate is compiled for, with what its operating system will answer.\<close>

datatype os_platform = OnWindows "(u32 \<Rightarrow> win_reply) list" | OnUnix bool "ifaddrs list option" | OnOther

fun interface_list :: "os_platform \<Rightarrow> intf_entry list option" where
  "interface_list (OnWindows calls) = windows_interfaces calls"
| "interface_list (OnUnix little r) = Some (unix_interfaces little r)"
| "interface_list OnOther = Some []"

section \<open>Lookups\<close>

text \<open>\<open>ifs\<close> is what \<open>interface_list()\<close> returns.\<close>

definition interface_by_name :: "intf_entry list \<Rightarrow> string \<Rightarrow> intf_entry option" where
  "interface_by_name ifs nm = find (\<lambda>e. intf_name e = nm) ifs"

definition intf_set :: "intf_entry list \<Rightarrow> intf_entry \<Rightarrow> string + unit" where
  "intf_set ifs e =
     (if intf_name e = [] then Inl ''intf_set: empty interface name''
      else if interface_by_name ifs (intf_name e) = None
      then Inl (''intf_set: no such interface '' @ [CHR 0x27] @ intf_name e @ [CHR 0x27])
      else Inl (''intf_set: applying interface configuration (MTU/flags/address) requires ''
                @ ''elevated privileges; set them via the OS instead''))"

definition addr_to_sockaddr :: "addr \<Rightarrow> socket_addr option" where
  "addr_to_sockaddr a =
     (if addr_type a = ADDR_TYPE_IP then map_option (\<lambda>ip. SockV4 ip 9) (to_ipv4 a)
      else if addr_type a = ADDR_TYPE_IP6 then map_option (\<lambda>ip. SockV6 ip 9 0 0) (to_ipv6 a)
      else None)"

record 's os_udp =
  udp_bind :: "string \<Rightarrow> 's option"
  udp_connect :: "'s \<Rightarrow> socket_addr \<Rightarrow> 's option"
  udp_local_addr :: "'s \<Rightarrow> socket_addr option"

definition source_addr_for_dest :: "'s os_udp \<Rightarrow> addr \<Rightarrow> addr option" where
  "source_addr_for_dest os dest = do {
     sa \<leftarrow> addr_to_sockaddr dest;
     s \<leftarrow> (case sa of SockV4 _ _ \<Rightarrow> udp_bind os ''0.0.0.0:0'' | SockV6 _ _ _ _ \<Rightarrow> udp_bind os ''[::]:0'');
     s \<leftarrow> udp_connect os s sa;
     local \<leftarrow> udp_local_addr os s;
     Some (sockaddr_to_addr local)
   }"

definition source_addr_for_family :: "'s os_udp \<Rightarrow> u16 \<Rightarrow> addr option" where
  "source_addr_for_family os family =
     (case (if family = 2 then Some ''255.255.255.255''
            else if family = 10 \<or> family = 23 then Some ''ff01::1'' else None) of
        None \<Rightarrow> None
      | Some dst \<Rightarrow> (case addr_from_str dst of Inl _ \<Rightarrow> None | Inr d \<Rightarrow> source_addr_for_dest os d))"

definition route_to :: "'s os_udp \<Rightarrow> intf_entry list \<Rightarrow> addr \<Rightarrow> (string \<times> addr) option" where
  "route_to os ifs dst = do {
     b \<leftarrow> (if addr_type dst = ADDR_TYPE_IP then Some ''0.0.0.0:0''
           else if addr_type dst = ADDR_TYPE_IP6 then Some ''[::]:0'' else None);
     sa \<leftarrow> route_sockaddr dst;
     s \<leftarrow> udp_bind os b;
     s \<leftarrow> udp_connect os s sa;
     local \<leftarrow> udp_local_addr os s;
     let src = sockaddr_to_addr local;
     Some (case find (\<lambda>i. intf_addr i = src \<or> src \<in> set (intf_alias_addrs i)) ifs of
             Some i \<Rightarrow> intf_name i | None \<Rightarrow> ''?'', src)
   }"

section \<open>What enumeration reports\<close>

lemma u32_from_le_bytes [wire_simps]: "u32_to_be (u32_from_le a b c d) = [d, c, b, a]"
  by (simp add: u32_from_le_def wire_simps)

lemma win_octets [simp]: "win_sockaddr_addr (SaInet a b c d) = Some (addr_ipv4 (Ipv4Addr a b c d))"
  by (simp add: native_u32_def u32_to_le_def wire_simps)

text \<open>On a little-endian Linux host an interface whose IPv4 address is \<open>a.b.c.d\<close> is reported as
  \<open>d.c.b.a\<close>: the enumeration reads \<open>s_addr\<close> as a native integer and prints its most significant byte
  first. On a big-endian host, and on Windows, the octets come out in order. On macOS the link-layer address
  is read at offset \<open>sdl_nlen\<close> of the \<open>sockaddr_dl\<close> and not of its data: \<open>en0\<close> gets parts of its own
  interface number, type, lengths and name as its address, whatever that is.\<close>
theorem unix_addresses_misread:
  "intf_addr (unix_entry little (ifa\<lparr>ifa_addr := Some (SaInet a b c d)\<rparr>))
     = addr_ipv4 (if little then Ipv4Addr d c b a else Ipv4Addr a b c d)
   \<and> win_sockaddr_addr (SaInet a b c d) = Some (addr_ipv4 (Ipv4Addr a b c d))
   \<and> intf_link_addr (unix_entry little (ifa\<lparr>ifa_addr := Some (SaLink
       ([20, 18, i0, i1, ty, of_nat (length name), 6, slen] @ name @ mac @ pad))\<rparr>))
     = addr_hw (take 6 (drop (length name mod 256)
         ([20, 18, i0, i1, ty, of_nat (length name), 6, slen] @ name @ mac @ pad)))
   \<and> intf_link_addr (unix_entry little (ifa\<lparr>ifa_addr := Some (SaLink
       ([20, 18, 4, 0, 6, 3, 6, 0] @ bytes_of ''en0'' @ mac @ pad))\<rparr>)) = addr_hw [0, 6, 3, 6, 0, 0x65]"
proof (intro conjI)
  show "intf_addr (unix_entry little (ifa\<lparr>ifa_addr := Some (SaInet a b c d)\<rparr>))
     = addr_ipv4 (if little then Ipv4Addr d c b a else Ipv4Addr a b c d)"
    by (simp add: unix_entry_def native_u32_def ipv4_from_u32_def wire_simps addr_types)
qed (simp_all add: unix_entry_def Let_def unsigned_of_nat take_bit_eq_mod bytes_of_def del: win_sockaddr_addr.simps)

lemma and_flag_iff:
  "(w :: u16) AND 1 \<noteq> 0 \<longleftrightarrow> bit w 0" "w AND 2 \<noteq> 0 \<longleftrightarrow> bit w 1" "w AND 4 \<noteq> 0 \<longleftrightarrow> bit w 2"
proof -
  have "w AND 2 ^ n \<noteq> 0 \<longleftrightarrow> bit w n" if "n < 16" for n
  proof -
    have "w AND 2 ^ n = (if bit w n then 2 ^ n else 0)"
      by (rule bit_word_eqI) (use that in \<open>auto simp: bit_simps\<close>)
    moreover have "(2 :: u16) ^ n \<noteq> 0" using that by simp
    ultimately show ?thesis by auto
  qed
  from this [of 0] this [of 1] this [of 2] show
    "w AND 1 \<noteq> 0 \<longleftrightarrow> bit w 0" "w AND 2 \<noteq> 0 \<longleftrightarrow> bit w 1" "w AND 4 \<noteq> 0 \<longleftrightarrow> bit w 2" by simp_all
qed

lemma unix_flags [simp]: "intf_flags (unix_entry little ifa) = ucast (ifa_flags ifa)"
  by (simp add: unix_entry_def Let_def split: option.splits)

text \<open>Linux interface flags are copied as they are, so the predicates read the wrong bits: an entry
  is a loopback one for the code exactly when the kernel's bit 1 (\<open>IFF_BROADCAST\<close>) is set and
  point-to-point exactly when bit 2 (\<open>IFF_DEBUG\<close>) is; the usual flags of \<open>lo\<close> (\<open>UP\<close>, \<open>LOOPBACK\<close>,
  \<open>RUNNING\<close> = 0x49) are not loopback, those of an Ethernet card (0x1043) are. Only \<open>is_up\<close> is right.\<close>
theorem unix_flags_misread:
  "(intf_is_up (unix_entry little ifa) \<longleftrightarrow> bit (ifa_flags ifa) 0)
   \<and> (intf_is_loopback (unix_entry little ifa) \<longleftrightarrow> bit (ifa_flags ifa) 1)
   \<and> (intf_is_point_to_point (unix_entry little ifa) \<longleftrightarrow> bit (ifa_flags ifa) 2)
   \<and> \<not> intf_is_loopback (unix_entry little (ifa\<lparr>ifa_flags := 0x49\<rparr>))
   \<and> intf_is_loopback (unix_entry little (ifa\<lparr>ifa_flags := 0x1043\<rparr>))"
  by (simp add: intf_is_up_def intf_is_loopback_def intf_is_point_to_point_def INTF_FLAG_UP_def
      INTF_FLAG_LOOPBACK_def INTF_FLAG_POINTOPOINT_def and_flag_iff bit_simps)

text \<open>The Linux enumeration yields one entry per record of \<open>getifaddrs\<close>, and no entry is
  complete: none has aliases, a type or an MTU, and none has both a protocol and a link-layer address.\<close>
theorem unix_entries_fragment:
  "length (unix_interfaces little r) = (case r of None \<Rightarrow> 0 | Some ifas \<Rightarrow> length ifas)
   \<and> (\<forall>e\<in>set (unix_interfaces little r).
        intf_alias_addrs e = [] \<and> intf_type e = 0 \<and> intf_mtu e = 0
        \<and> (intf_addr e = addr_default \<or> intf_link_addr e = addr_default))"
proof -
  have "intf_alias_addrs (unix_entry little i) = [] \<and> intf_type (unix_entry little i) = 0
      \<and> intf_mtu (unix_entry little i) = 0
      \<and> (intf_addr (unix_entry little i) = addr_default \<or> intf_link_addr (unix_entry little i) = addr_default)" for i
    by (cases "ifa_addr i"; cases "the (ifa_addr i)") (auto simp: unix_entry_def intf_default_def Let_def)
  then show ?thesis by (auto simp: unix_interfaces_def split: option.splits)
qed

theorem unix_entries_fragment_witness:
  "intf_link_addr (hd (unix_interfaces True (Some [\<lparr>ifa_name = Some (bytes_of ''eth0'' @ [0]), ifa_flags = 0x1043,
      ifa_addr = Some (SaInet 10 0 0 1)\<rparr>]))) = addr_default"
proof -
  let ?r = "Some [\<lparr>ifa_name = Some (bytes_of ''eth0'' @ [0]), ifa_flags = 0x1043, ifa_addr = Some (SaInet 10 0 0 1)\<rparr>]"
  let ?e = "hd (unix_interfaces True ?r)"
  have "?e \<in> set (unix_interfaces True ?r)" by (simp add: unix_interfaces_def)
  then have "intf_addr ?e = addr_default \<or> intf_link_addr ?e = addr_default"
    using unix_entries_fragment [of True ?r] by blast
  moreover have "intf_addr ?e \<noteq> addr_default" by code_simp
  ultimately show ?thesis by blast
qed

definition win_addresses :: "win_adapter \<Rightarrow> addr list" where
  "win_addresses w = List.map_filter (\<lambda>sa. Option.bind sa win_sockaddr_addr) (win_unicast w)"

lemma win_sockaddr_type: "win_sockaddr_addr sa = Some a \<Longrightarrow> addr_type a \<noteq> ADDR_TYPE_NONE"
  by (cases sa) (auto simp: addr_types simp del: win_sockaddr_addr.simps(1))

lemma win_unicast_loop_addrs:
  "(let as = List.map_filter (\<lambda>sa. Option.bind sa win_sockaddr_addr) sas; e' = win_unicast_loop sas e in
     (addr_type (intf_addr e) \<noteq> ADDR_TYPE_NONE \<longrightarrow>
        intf_addr e' = intf_addr e \<and> intf_alias_addrs e' = intf_alias_addrs e @ as)
     \<and> (intf_addr e = addr_default \<longrightarrow>
        intf_addr e' = (case as of [] \<Rightarrow> addr_default | a # _ \<Rightarrow> a)
        \<and> intf_alias_addrs e' = intf_alias_addrs e @ drop 1 as)
     \<and> intf_flags e' = intf_flags e)"
proof (induction sas arbitrary: e)
  case (Cons sa sas)
  show ?case
  proof (cases "Option.bind sa win_sockaddr_addr")
    case None
    with Cons [of e] show ?thesis by (simp add: Let_def)
  next
    case (Some a)
    then have "addr_type a \<noteq> ADDR_TYPE_NONE" by (cases sa) (auto dest: win_sockaddr_type)
    with Some Cons [of "win_add_addr e a"] show ?thesis
      by (auto simp: Let_def win_add_addr_def addr_default_def addr_types)
  qed
qed simp

text \<open>On Windows an adapter's entry has the first IP address of the adapter as its primary
  address and all the others, in order, as aliases (addresses of other families are skipped); it is up
  exactly when the operational status is 1 and loopback exactly when the interface type is 24.\<close>
theorem windows_entry_addresses:
  "intf_addr (win_entry w) = (case win_addresses w of [] \<Rightarrow> addr_default | a # _ \<Rightarrow> a)
   \<and> intf_alias_addrs (win_entry w) = drop 1 (win_addresses w)
   \<and> (intf_is_up (win_entry w) \<longleftrightarrow> win_oper_status w = 1)
   \<and> (intf_is_loopback (win_entry w) \<longleftrightarrow> win_if_type w = 24)"
  using win_unicast_loop_addrs [of "win_unicast w"]
  by (auto simp: win_entry_def Let_def win_addresses_def intf_default_def intf_is_up_def
      intf_is_loopback_def INTF_FLAG_UP_def INTF_FLAG_LOOPBACK_def)

section \<open>Names and link-layer addresses\<close>

lemma win_unicast_loop_name: "intf_name (win_unicast_loop sas e) = intf_name e"
proof (induction sas arbitrary: e)
  case (Cons sa sas)
  then show ?case by (auto simp: win_add_addr_def split: option.split)
qed simp

lemma win_entry_name:
  "intf_name (win_entry w) =
     (let wide = wide_to_string (win_friendly_name w); ansi = ansi_to_string (win_adapter_name w)
      in if wide \<noteq> [] then wide else if ansi \<noteq> [] then ansi else ''iface'')"
  by (simp add: win_entry_def Let_def win_unicast_loop_name)

lemma unix_entry_name: "intf_name (unix_entry little ifa) = ansi_to_string (ifa_name ifa)"
  by (simp add: unix_entry_def Let_def split: option.split)

lemma win_unicast_loop_rest:
  "intf_type (win_unicast_loop sas e) = intf_type e" "intf_mtu (win_unicast_loop sas e) = intf_mtu e"
  "intf_dst_addr (win_unicast_loop sas e) = intf_dst_addr e" "intf_link_addr (win_unicast_loop sas e) = intf_link_addr e"
  by (induction sas arbitrary: e) (auto simp: win_add_addr_def split: option.split)

text \<open>What an adapter record says: the octets of its IP addresses in order, and the bytes that have to be
  there for the reads of the code to stay inside the record.\<close>

fun sockaddr_octets :: "os_sockaddr \<Rightarrow> (u32 \<times> bytes) option" where
  "sockaddr_octets (SaInet a b c d) = Some (ADDR_TYPE_IP, [a, b, c, d])"
| "sockaddr_octets (SaInet6 bs) = Some (ADDR_TYPE_IP6, bs)"
| "sockaddr_octets _ = None"

definition adapter_ips :: "win_adapter \<Rightarrow> (u32 \<times> bytes) list" where
  "adapter_ips w = List.map_filter (\<lambda>sa. Option.bind sa sockaddr_octets) (win_unicast w)"

definition adapter_ok :: "win_adapter \<Rightarrow> bool" where
  "adapter_ok w \<longleftrightarrow> length (win_mac w) = 8
     \<and> list_all (\<lambda>sa. case sa of Some (SaInet6 bs) \<Rightarrow> length bs = 16 | _ \<Rightarrow> True) (win_unicast w)"

text \<open>An address that stands for one host: its type, its octets at the front of the 16 bytes with zeros
  behind, and the full prefix length.\<close>

definition host_addr :: "u32 \<times> bytes \<Rightarrow> addr" where
  "host_addr = (\<lambda>(ty, os). \<lparr>addr_type = ty, addr_bits = of_nat (8 * length os),
     addr_data = os @ replicate (16 - length os) 0\<rparr>)"

text \<open>The entry that an adapter should have: everything that the record says, and nothing else.\<close>

definition entry_of_adapter :: "win_adapter \<Rightarrow> intf_entry \<Rightarrow> bool" where
  "entry_of_adapter w e \<longleftrightarrow>
     (case map host_addr (adapter_ips w) of
        [] \<Rightarrow> addr_type (intf_addr e) = ADDR_TYPE_NONE \<and> intf_alias_addrs e = []
      | a # as \<Rightarrow> intf_addr e = a \<and> intf_alias_addrs e = as)
     \<and> (if 6 \<le> win_mac_len w then intf_link_addr e = host_addr (ADDR_TYPE_HW, take 6 (win_mac w))
        else link_addr_slice e = None)
     \<and> intf_mtu e = win_mtu w \<and> (intf_is_up e \<longleftrightarrow> win_oper_status w = 1)
     \<and> (intf_is_loopback e \<longleftrightarrow> win_if_type w = 24) \<and> \<not> intf_is_point_to_point e
     \<and> intf_type e = (if win_if_type w = 24 then INTF_TYPE_LOOPBACK else INTF_TYPE_ETH) \<and> intf_name e \<noteq> []"

lemma host_addr_ip: "win_sockaddr_addr sa = (case sockaddr_octets sa of
    Some (ty, os) \<Rightarrow> if ty = ADDR_TYPE_IP \<or> length os = 16 then Some (host_addr (ty, os)) else win_sockaddr_addr sa
  | None \<Rightarrow> None)"
  by (cases sa) (auto simp: host_addr_def addr_ipv4_def addr_ipv6_def addr_default_def addr_types
      simp del: win_sockaddr_addr.simps(1))

lemma adapter_addresses: "adapter_ok w \<Longrightarrow> win_addresses w = map host_addr (adapter_ips w)"
proof -
  have "List.map_filter (\<lambda>sa. Option.bind sa win_sockaddr_addr) sas
      = map host_addr (List.map_filter (\<lambda>sa. Option.bind sa sockaddr_octets) sas)"
    if "list_all (\<lambda>sa. case sa of Some (SaInet6 bs) \<Rightarrow> length bs = 16 | _ \<Rightarrow> True) sas" for sas
    using that
  proof (induction sas)
    case (Cons sa sas)
    then show ?case
      by (cases sa; cases "the sa") (auto simp: host_addr_ip simp del: win_sockaddr_addr.simps)
  qed simp
  then show "adapter_ok w \<Longrightarrow> ?thesis" by (simp add: adapter_ok_def win_addresses_def adapter_ips_def)
qed

lemma win_entry_adapter:
  assumes "adapter_ok w"
  shows "entry_of_adapter w (win_entry w)"
proof -
  have "intf_mtu (win_entry w) = win_mtu w" "intf_is_point_to_point (win_entry w) = False"
    "intf_type (win_entry w) = (if win_if_type w = 24 then INTF_TYPE_LOOPBACK else INTF_TYPE_ETH)"
    "intf_link_addr (win_entry w) = (if 6 \<le> win_mac_len w then addr_hw (take 6 (win_mac w)) else addr_default)"
    using win_unicast_loop_addrs [of "win_unicast w"]
    by (auto simp: win_entry_def Let_def win_unicast_loop_rest intf_default_def intf_is_point_to_point_def
        INTF_FLAG_UP_def INTF_FLAG_LOOPBACK_def INTF_FLAG_POINTOPOINT_def)
  moreover have "intf_name (win_entry w) \<noteq> []" by (simp add: win_entry_name Let_def)
  moreover have "addr_hw (take 6 (win_mac w)) = host_addr (ADDR_TYPE_HW, take 6 (win_mac w))"
    using assms by (simp add: adapter_ok_def addr_hw_def host_addr_def addr_default_def)
  ultimately show ?thesis
    using windows_entry_addresses [of w] adapter_addresses [OF assms]
    by (auto simp: entry_of_adapter_def link_addr_slice_def to_hw_def addr_default_def addr_types split: list.split)
qed

text \<open>The buffer size with which the code asks for the \<open>n\<close>-th time.\<close>

fun asked_size :: "(u32 \<Rightarrow> win_reply) list \<Rightarrow> u32 \<Rightarrow> nat \<Rightarrow> u32" where
  "asked_size calls sz 0 = sz"
| "asked_size calls sz (Suc n) =
     (case hd calls sz of WinOverflow wanted \<Rightarrow> asked_size (tl calls) (wanted + 8 * 1024) n | _ \<Rightarrow> sz)"

lemma windows_loop_overflows:
  assumes "n < length calls" "\<forall>i < n. \<exists>wanted. (calls ! i) (asked_size calls sz i) = WinOverflow wanted"
    and "\<nexists>wanted. (calls ! n) (asked_size calls sz n) = WinOverflow wanted"
  shows "windows_loop calls sz = (case (calls ! n) (asked_size calls sz n) of
      WinOk ws \<Rightarrow> Some (map win_entry ws) | _ \<Rightarrow> Some [])"
  using assms
proof (induction n arbitrary: calls sz)
  case 0
  then show ?case by (cases calls) (auto split: win_reply.splits)
next
  case (Suc n)
  then obtain call calls' where calls: "calls = call # calls'" by (cases calls) auto
  from Suc.prems(2) obtain wanted where w: "call sz = WinOverflow wanted" unfolding calls by force
  have "\<exists>x. (calls' ! i) (asked_size calls' (wanted + 8 * 1024) i) = WinOverflow x" if "i < n" for i
    using Suc.prems(2) [rule_format, of "Suc i"] that w unfolding calls by simp
  with Suc.IH [of calls' "wanted + 8 * 1024"] Suc.prems(1,3) w show ?case unfolding calls by simp
qed


text \<open>One overflow, then an adapter with an IPv6 and an IPv4 address.\<close>

definition demo_adapter :: win_adapter where
  "demo_adapter = \<lparr>win_friendly_name = None, win_adapter_name = None, win_mtu = 1500, win_if_type = 6,
     win_oper_status = 1, win_mac_len = 6, win_mac = [2, 0, 0, 0, 0, 1, 0, 0],
     win_unicast = [Some (SaInet6 (0xfe # 0x80 # replicate 13 0 @ [1])), None, Some (SaInet 192 0 2 7)]\<rparr>"


text \<open>C27: A Windows adapter whose friendly name is a terminated UTF-16 text is listed under that text, in
  UTF-8; without one it is listed under its adapter name when that is UTF-8, and a Linux interface under the
  name that the kernel has for it.\<close>
theorem interface_names_kept:
  assumes "list_all is_scalar cs" "0 \<notin> set cs" "cs \<noteq> []" "utf8_valid bs" "0 \<notin> set bs" "bs \<noteq> []"
  shows "intf_name (win_entry (w\<lparr>win_friendly_name := Some (concat (map utf16_encode cs) @ 0 # rest)\<rparr>))
      = text_of (utf8_bytes cs)
    \<and> intf_name (win_entry (w\<lparr>win_friendly_name := None, win_adapter_name := Some (bs @ 0 # brest)\<rparr>)) = text_of bs
    \<and> intf_name (unix_entry little (ifa\<lparr>ifa_name := Some (bs @ 0 # brest)\<rparr>)) = text_of bs"
proof -
  have "text_of (utf8_bytes cs) \<noteq> []" using assms(3) by (cases cs) (simp_all add: text_of_def)
  then show ?thesis
    using wide_string_encoded [OF assms(1,2), of rest] ansi_string_kept [OF assms(4,5), of brest] assms(6)
    by (simp add: win_entry_name unix_entry_name Let_def wide_to_string_def [of None] text_of_def)
qed

text \<open>A friendly name with a character outside the basic plane.\<close>

theorem interface_names_kept_witness:
  "intf_name (win_entry \<lparr>win_friendly_name = Some [0x57, 0xD83D, 0xDE00, 0], win_adapter_name = None, win_mtu = 1500,
     win_if_type = 6, win_oper_status = 1, win_mac_len = 0, win_mac = [], win_unicast = []\<rparr>)
   = text_of [0x57, 0xF0, 0x9F, 0x98, 0x80]"
proof -
  let ?w = "\<lparr>win_friendly_name = None, win_adapter_name = None, win_mtu = 1500,
     win_if_type = 6, win_oper_status = 1, win_mac_len = 0, win_mac = [], win_unicast = []\<rparr>"
  have u: "utf16_encode 0x57 = [0x57]" "utf16_encode 0x1F600 = [0xD83D, 0xDE00]"
    "utf8_encode 0x57 = [0x57]" "utf8_encode 0x1F600 = [0xF0, 0x9F, 0x98, 0x80]"
    by (simp_all add: utf16_encode_def utf8_encode_def byte_def)
  have "utf8_valid [0x65]" by (rule ascii_valid) simp
  moreover have "is_scalar 0x57" "is_scalar 0x1F600" by (simp_all add: is_scalar_def)
  ultimately show ?thesis
    using interface_names_kept [of "[0x57, 0x1F600]" "[0x65]" "[]" ?w, THEN conjunct1] by (simp add: u)
qed

section \<open>The connect probe\<close>

lemma all_nodes_text:
  "addr_from_str ''ff01::1'' = Inr (addr_ipv6 (Ipv6Addr [0xff, 1, 0, 0, 0, 0, 0, 0, 0, 0, 0, 0, 0, 0, 0, 1]))"
proof -
  have "parse_ipv4 ''ff01::1'' = None" by (simp add: parse_ipv4_def parse_closed)
  moreover have "read_groups 8 8 ''ff01::1'' = ([0xff01], False, ''::1'')" "read_groups 6 6 ''1'' = ([1], False, [])"
    by (simp_all add: parse_closed)
  moreover have "replicate 6 (0 :: u16) = [0, 0, 0, 0, 0, 0]"
    "groups_to_ipv6 [0xff01, 0, 0, 0, 0, 0, 0, 1] = Ipv6Addr [0xff, 1, 0, 0, 0, 0, 0, 0, 0, 0, 0, 0, 0, 0, 0, 1]"
    by code_simp+
  moreover have "trim ''ff01::1'' = ''ff01::1''" by (rule trim_id) (auto simp: plain_char_def)
  ultimately show ?thesis
    by (simp add: addr_from_str_def parse_ipv6_def read_ipv6_def)
qed

text \<open>\<open>source_addr_for_family\<close> probes toward 255.255.255.255 for family 2 and toward
  \<open>ff01::1\<close> for families 10 and 23, and answers nothing for any other; \<open>route_to\<close> finds a route
  exactly when \<open>source_addr_for_dest\<close> finds a source, and returns that source, with the name of the
  first interface that has it as primary address or alias (\<open>?\<close> when there is none).\<close>
theorem connect_probe_answers:
  "source_addr_for_family os family =
     (if family = 2 then source_addr_for_dest os (addr_ipv4 (Ipv4Addr 255 255 255 255))
      else if family = 10 \<or> family = 23
      then source_addr_for_dest os (addr_ipv6 (Ipv6Addr [0xff, 1, 0, 0, 0, 0, 0, 0, 0, 0, 0, 0, 0, 0, 0, 1]))
      else None)
   \<and> route_to os ifs dst =
       map_option (\<lambda>src. (case find (\<lambda>i. src \<in> set (intf_addr i # intf_alias_addrs i)) ifs of
            Some i \<Rightarrow> intf_name i | None \<Rightarrow> ''?'', src)) (source_addr_for_dest os dst)"
proof
  have "addr_from_str ''255.255.255.255'' = Inr (addr_ipv4 (Ipv4Addr 255 255 255 255))" by code_simp
  then show "source_addr_for_family os family =
     (if family = 2 then source_addr_for_dest os (addr_ipv4 (Ipv4Addr 255 255 255 255))
      else if family = 10 \<or> family = 23
      then source_addr_for_dest os (addr_ipv6 (Ipv6Addr [0xff, 1, 0, 0, 0, 0, 0, 0, 0, 0, 0, 0, 0, 0, 0, 1]))
      else None)"
    by (simp add: source_addr_for_family_def all_nodes_text)
  have covers: "(\<lambda>i. intf_addr i = src \<or> src \<in> set (intf_alias_addrs i))
      = (\<lambda>i. src \<in> set (intf_addr i # intf_alias_addrs i))" for src :: addr by auto
  have probe: "route_sockaddr dst = addr_to_sockaddr dst"
    by (simp add: route_sockaddr_def addr_to_sockaddr_def)
  show "route_to os ifs dst =
       map_option (\<lambda>src. (case find (\<lambda>i. src \<in> set (intf_addr i # intf_alias_addrs i)) ifs of
            Some i \<Rightarrow> intf_name i | None \<Rightarrow> ''?'', src)) (source_addr_for_dest os dst)"
  proof (cases "addr_to_sockaddr dst")
    case None
    then show ?thesis by (simp add: route_to_def probe source_addr_for_dest_def bind_eq_None_conv)
  next
    case (Some sa)
    then have t: "addr_type dst = (case sa of SockV4 _ _ \<Rightarrow> ADDR_TYPE_IP | SockV6 _ _ _ _ \<Rightarrow> ADDR_TYPE_IP6)"
      by (auto simp: addr_to_sockaddr_def split: if_splits)
    show ?thesis
      unfolding route_to_def probe source_addr_for_dest_def Some covers
      by (cases sa) (simp_all add: t addr_types Let_def split: Option.bind_split)
  qed
qed

end
