(* ===== verification/Pcap_Datalink.thy ===== *)
theory Pcap_Datalink
  imports Wnr_Prelude
begin

text \<open>
  \<open>wnr-pcap/src/datalink.rs\<close>: the link types, their names and the length of their headers.
\<close>

definition DLT_NULL :: i32 where "DLT_NULL = 0"
definition DLT_EN10MB :: i32 where "DLT_EN10MB = 1"
definition DLT_IEEE802 :: i32 where "DLT_IEEE802 = 6"
definition DLT_ARCNET :: i32 where "DLT_ARCNET = 7"
definition DLT_SLIP :: i32 where "DLT_SLIP = 8"
definition DLT_PPP :: i32 where "DLT_PPP = 9"
definition DLT_FDDI :: i32 where "DLT_FDDI = 10"
definition DLT_RAW :: i32 where "DLT_RAW = 12"
definition DLT_IEEE802_11 :: i32 where "DLT_IEEE802_11 = 105"
definition DLT_IEEE802_11_RADIO :: i32 where "DLT_IEEE802_11_RADIO = 127"
definition DLT_LOOP :: i32 where "DLT_LOOP = 108"
definition DLT_LINUX_SLL :: i32 where "DLT_LINUX_SLL = 113"
definition DLT_IPV4 :: i32 where "DLT_IPV4 = 228"
definition DLT_IPV6 :: i32 where "DLT_IPV6 = 229"
definition DLT_EN3MB :: i32 where "DLT_EN3MB = 2"
definition DLT_AX25 :: i32 where "DLT_AX25 = 3"
definition DLT_PRONET :: i32 where "DLT_PRONET = 4"
definition DLT_CHAOS :: i32 where "DLT_CHAOS = 5"
definition DLT_ATM_RFC1483 :: i32 where "DLT_ATM_RFC1483 = 11"
definition DLT_SLIP_BSDOS :: i32 where "DLT_SLIP_BSDOS = 15"
definition DLT_PPP_BSDOS :: i32 where "DLT_PPP_BSDOS = 16"
definition DLT_ATM_CLIP :: i32 where "DLT_ATM_CLIP = 19"
definition DLT_PPP_SERIAL :: i32 where "DLT_PPP_SERIAL = 50"
definition DLT_PPP_ETHER :: i32 where "DLT_PPP_ETHER = 51"

lemmas dlt_types = DLT_NULL_def DLT_EN10MB_def DLT_IEEE802_def DLT_ARCNET_def DLT_SLIP_def DLT_PPP_def
  DLT_FDDI_def DLT_RAW_def DLT_IEEE802_11_def DLT_IEEE802_11_RADIO_def DLT_LOOP_def DLT_LINUX_SLL_def
  DLT_IPV4_def DLT_IPV6_def

definition datalink_ntop :: "i32 \<Rightarrow> string" where
  "datalink_ntop dlt =
     (if dlt = DLT_NULL then ''NULL'' else if dlt = DLT_EN10MB then ''EN10MB''
      else if dlt = DLT_IEEE802 then ''IEEE802'' else if dlt = DLT_ARCNET then ''ARCNET''
      else if dlt = DLT_SLIP then ''SLIP'' else if dlt = DLT_PPP then ''PPP''
      else if dlt = DLT_FDDI then ''FDDI'' else if dlt = DLT_RAW then ''RAW''
      else if dlt = DLT_LOOP then ''LOOP'' else if dlt = DLT_LINUX_SLL then ''LINUX_SLL''
      else if dlt = DLT_IEEE802_11 then ''IEEE802_11''
      else if dlt = DLT_IEEE802_11_RADIO then ''IEEE802_11_RADIO''
      else if dlt = DLT_IPV4 then ''IPV4'' else if dlt = DLT_IPV6 then ''IPV6'' else ''UNKNOWN'')"

definition link_header_len :: "i32 \<Rightarrow> nat" where
  "link_header_len dlt =
     (if dlt = DLT_EN10MB then 14
      else if dlt = DLT_LINUX_SLL then 16
      else if dlt = DLT_IEEE802_11_RADIO then 32
      else if dlt = DLT_RAW \<or> dlt = DLT_IPV4 \<or> dlt = DLT_IPV6 \<or> dlt = DLT_LOOP \<or> dlt = DLT_NULL then 0
      else 14)"

lemma link_header_len_le: "link_header_len dlt \<le> 32"
  by (simp add: link_header_len_def)

end
