(* ===== verification/Pcap_Bpf.thy ===== *)
theory Pcap_Bpf
  imports Pcap_Datalink
begin

text \<open>
  \<open>wnr-pcap/src/bpf.rs\<close>, the virtual machine: instructions, registers and memory, one function for
  the arithmetic, one for a step, and the loop as a partial function whose \<open>None\<close> is a program that
  never returns.
\<close>

section \<open>Opcodes\<close>

definition BPF_LD :: u8 where "BPF_LD = 0x00"
definition BPF_LDX :: u8 where "BPF_LDX = 0x01"
definition BPF_ST :: u8 where "BPF_ST = 0x02"
definition BPF_STX :: u8 where "BPF_STX = 0x03"
definition BPF_ALU :: u8 where "BPF_ALU = 0x04"
definition BPF_JMP :: u8 where "BPF_JMP = 0x05"
definition BPF_RET :: u8 where "BPF_RET = 0x06"
definition BPF_MISC :: u8 where "BPF_MISC = 0x07"

definition BPF_W :: u8 where "BPF_W = 0x00"
definition BPF_H :: u8 where "BPF_H = 0x08"
definition BPF_B :: u8 where "BPF_B = 0x10"
definition BPF_IMM :: u8 where "BPF_IMM = 0x00"
definition BPF_ABS :: u8 where "BPF_ABS = 0x20"
definition BPF_IND :: u8 where "BPF_IND = 0x40"
definition BPF_MEM :: u8 where "BPF_MEM = 0x60"
definition BPF_LEN :: u8 where "BPF_LEN = 0x80"
definition BPF_MSH :: u8 where "BPF_MSH = 0xa0"

definition BPF_ADD :: u8 where "BPF_ADD = 0x00"
definition BPF_SUB :: u8 where "BPF_SUB = 0x10"
definition BPF_MUL :: u8 where "BPF_MUL = 0x20"
definition BPF_DIV :: u8 where "BPF_DIV = 0x30"
definition BPF_OR :: u8 where "BPF_OR = 0x40"
definition BPF_AND :: u8 where "BPF_AND = 0x50"
definition BPF_LSH :: u8 where "BPF_LSH = 0x60"
definition BPF_RSH :: u8 where "BPF_RSH = 0x70"
definition BPF_NEG :: u8 where "BPF_NEG = 0x80"
definition BPF_MOD :: u8 where "BPF_MOD = 0x90"
definition BPF_XOR :: u8 where "BPF_XOR = 0xa0"

definition BPF_JA :: u8 where "BPF_JA = 0x00"
definition BPF_JEQ :: u8 where "BPF_JEQ = 0x10"
definition BPF_JGT :: u8 where "BPF_JGT = 0x20"
definition BPF_JGE :: u8 where "BPF_JGE = 0x30"
definition BPF_JSET :: u8 where "BPF_JSET = 0x40"

definition BPF_K :: u8 where "BPF_K = 0x00"
definition BPF_X :: u8 where "BPF_X = 0x08"
definition BPF_TAX :: u8 where "BPF_TAX = 0x00"
definition BPF_TXA :: u8 where "BPF_TXA = 0x80"

definition BPF_ACCEPT :: u32 where "BPF_ACCEPT = 0xffffffff"
definition BPF_REJECT :: u32 where "BPF_REJECT = 0"

lemmas bpf_class = BPF_LD_def BPF_LDX_def BPF_ST_def BPF_STX_def BPF_ALU_def BPF_JMP_def BPF_RET_def BPF_MISC_def
lemmas bpf_mode = BPF_W_def BPF_H_def BPF_B_def BPF_IMM_def BPF_ABS_def BPF_IND_def BPF_MEM_def BPF_LEN_def
  BPF_MSH_def BPF_K_def BPF_TAX_def BPF_TXA_def
lemmas bpf_alu_op = BPF_ADD_def BPF_SUB_def BPF_MUL_def BPF_DIV_def BPF_OR_def BPF_AND_def BPF_LSH_def
  BPF_RSH_def BPF_NEG_def BPF_MOD_def BPF_XOR_def
lemmas bpf_jump = BPF_JA_def BPF_JEQ_def BPF_JGT_def BPF_JGE_def BPF_JSET_def
lemmas bpf_ops = bpf_class bpf_mode bpf_alu_op bpf_jump

section \<open>The machine\<close>

record bpf_insn =
  bpf_code :: u16
  bpf_jt :: u8
  bpf_jf :: u8
  bpf_k :: u32

definition bpf_insn_new :: "u16 \<Rightarrow> u8 \<Rightarrow> u8 \<Rightarrow> u32 \<Rightarrow> bpf_insn" where
  "bpf_insn_new code jt jf k = \<lparr>bpf_code = code, bpf_jt = jt, bpf_jf = jf, bpf_k = k\<rparr>"

record bpf_vm =
  vm_acc :: u32
  vm_x :: u32
  vm_mem :: "u32 list"

definition bpf_vm_new :: bpf_vm where
  "bpf_vm_new = \<lparr>vm_acc = 0, vm_x = 0, vm_mem = replicate 16 0\<rparr>"

definition bpf_load :: "bytes \<Rightarrow> u32 \<Rightarrow> u32 \<Rightarrow> u8 \<Rightarrow> u32 option" where
  "bpf_load pkt pkt_len idx sz =
     (let i = unat idx in
      if sz = BPF_W then
        (if i + 4 > length pkt then None
         else Some (u32_from_be (pkt ! i) (pkt ! (i + 1)) (pkt ! (i + 2)) (pkt ! (i + 3))))
      else if sz = BPF_H then
        (if i + 2 > length pkt then None else Some (ucast (u16_from_be (pkt ! i) (pkt ! (i + 1)))))
      else (if i \<ge> unat pkt_len then None else Some (ucast (pkt ! i))))"

text \<open>\<open>checked_shl\<close> and \<open>checked_shr\<close> give nothing for a shift of 32 bits or more.\<close>

definition checked_shl :: "u32 \<Rightarrow> u32 \<Rightarrow> u32 option" where
  "checked_shl a v = (if v < 32 then Some (push_bit (unat v) a) else None)"

definition checked_shr :: "u32 \<Rightarrow> u32 \<Rightarrow> u32 option" where
  "checked_shr a v = (if v < 32 then Some (drop_bit (unat v) a) else None)"

definition bpf_alu :: "u8 \<Rightarrow> bool \<Rightarrow> u32 \<Rightarrow> bpf_vm \<Rightarrow> bpf_vm" where
  "bpf_alu aop use_x k vm =
     (let v = (if use_x then vm_x vm else k); a = vm_acc vm in
      if aop = BPF_ADD then vm\<lparr>vm_acc := a + v\<rparr>
      else if aop = BPF_SUB then vm\<lparr>vm_acc := a - v\<rparr>
      else if aop = BPF_MUL then vm\<lparr>vm_acc := a * v\<rparr>
      else if aop = BPF_DIV then vm\<lparr>vm_acc := (if v \<noteq> 0 then a div v else 0)\<rparr>
      else if aop = BPF_OR then vm\<lparr>vm_acc := a OR v\<rparr>
      else if aop = BPF_AND then vm\<lparr>vm_acc := a AND v\<rparr>
      else if aop = BPF_LSH then vm\<lparr>vm_acc := (case checked_shl a v of Some r \<Rightarrow> r | None \<Rightarrow> 0)\<rparr>
      else if aop = BPF_RSH then vm\<lparr>vm_acc := (case checked_shr a v of Some r \<Rightarrow> r | None \<Rightarrow> 0)\<rparr>
      else if aop = BPF_NEG then vm\<lparr>vm_acc := - a\<rparr>
      else if aop = BPF_MOD then vm\<lparr>vm_acc := (if v \<noteq> 0 then a mod v else 0)\<rparr>
      else if aop = BPF_XOR then vm\<lparr>vm_acc := a XOR v\<rparr>
      else vm)"

text \<open>Which register a load writes: the accumulator for class \<open>LD\<close>, the index register otherwise.\<close>

definition bpf_set_reg :: "u8 \<Rightarrow> u32 \<Rightarrow> bpf_vm \<Rightarrow> bpf_vm" where
  "bpf_set_reg cls v vm = (if cls = BPF_LD then vm\<lparr>vm_acc := v\<rparr> else vm\<lparr>vm_x := v\<rparr>)"

text \<open>One turn of the loop: the program returns, or goes on at a program counter.\<close>

datatype bpf_outcome = Return u32 | Goto nat bpf_vm

definition bpf_step_load :: "bytes \<Rightarrow> bpf_insn \<Rightarrow> u8 \<Rightarrow> nat \<Rightarrow> bpf_vm \<Rightarrow> bpf_outcome" where
  "bpf_step_load pkt ins cls pc vm =
     (let pkt_len = (of_nat (length pkt) :: u32);
          sz = (ucast (bpf_code ins AND 0x18) :: u8);
          md = (ucast (bpf_code ins AND 0xe0) :: u8) in
      if md = BPF_IMM then Goto (pc + 1) (bpf_set_reg cls (bpf_k ins) vm)
      else if md = BPF_ABS \<or> md = BPF_IND then
        (let idx = (if md = BPF_IND then vm_x vm + bpf_k ins else bpf_k ins) in
         case bpf_load pkt pkt_len idx sz of
           Some v \<Rightarrow> Goto (pc + 1) (bpf_set_reg cls v vm)
         | None \<Rightarrow> Return 0)
      else if md = BPF_MEM then
        (let i = unat (bpf_k ins) in
         if i \<ge> length (vm_mem vm) then Return 0
         else Goto (pc + 1) (bpf_set_reg cls (vm_mem vm ! i) vm))
      else if md = BPF_LEN then Goto (pc + 1) (bpf_set_reg cls pkt_len vm)
      else if md = BPF_MSH then
        (case bpf_load pkt pkt_len (bpf_k ins) BPF_B of
           Some v \<Rightarrow> (let hlen = push_bit 2 (v AND 0x0f) in
                      if hlen > pkt_len then Return 0 else Goto (pc + 1) (vm\<lparr>vm_x := hlen\<rparr>))
         | None \<Rightarrow> Return 0)
      else Return 0)"

definition bpf_step_jump :: "bpf_insn \<Rightarrow> nat \<Rightarrow> bpf_vm \<Rightarrow> bpf_outcome" where
  "bpf_step_jump ins pc vm =
     (let jop = (ucast (bpf_code ins AND 0x70) :: u8);
          v = (if bpf_code ins AND 0x08 \<noteq> 0 then vm_x vm else bpf_k ins);
          t = (of_nat pc + ucast (bpf_jt ins) + 1 :: u32);
          f = (of_nat pc + ucast (bpf_jf ins) + 1 :: u32);
          goto = (\<lambda>target. Goto (unat target) vm) in
      if jop = BPF_JA then goto (bpf_k ins)
      else if jop = BPF_JEQ then goto (if vm_acc vm = v then t else f)
      else if jop = BPF_JGT then goto (if vm_acc vm > v then t else f)
      else if jop = BPF_JGE then goto (if vm_acc vm \<ge> v then t else f)
      else if jop = BPF_JSET then goto (if vm_acc vm AND v \<noteq> 0 then t else f)
      else Return 0)"

definition bpf_step :: "bytes \<Rightarrow> bpf_insn \<Rightarrow> nat \<Rightarrow> bpf_vm \<Rightarrow> bpf_outcome" where
  "bpf_step pkt ins pc vm =
     (let cls = (ucast (bpf_code ins AND 0x07) :: u8) in
      if cls = BPF_LD \<or> cls = BPF_LDX then bpf_step_load pkt ins cls pc vm
      else if cls = BPF_ST \<or> cls = BPF_STX then
        (let i = unat (bpf_k ins) in
         if i \<ge> length (vm_mem vm) then Return 0
         else Goto (pc + 1) (vm\<lparr>vm_mem := (vm_mem vm)[i := if cls = BPF_ST then vm_acc vm else vm_x vm]\<rparr>))
      else if cls = BPF_ALU then
        Goto (pc + 1) (bpf_alu (ucast (bpf_code ins AND 0xf0)) (bpf_code ins AND 0x08 \<noteq> 0) (bpf_k ins) vm)
      else if cls = BPF_JMP then bpf_step_jump ins pc vm
      else if cls = BPF_RET then Return (if bpf_code ins AND 0x08 \<noteq> 0 then vm_x vm else bpf_k ins)
      else if cls = BPF_MISC then
        Goto (pc + 1)
          (if bpf_code ins AND 0xf0 = ucast BPF_TAX then vm\<lparr>vm_x := vm_acc vm\<rparr>
           else if bpf_code ins AND 0xf0 = ucast BPF_TXA then vm\<lparr>vm_acc := vm_x vm\<rparr>
           else vm)
      else Return 0)"

partial_function (option) bpf_loop :: "bpf_insn list \<Rightarrow> bytes \<Rightarrow> nat \<Rightarrow> bpf_vm \<Rightarrow> u32 option" where
  "bpf_loop prog pkt pc vm =
     (if pc < length prog then
        (case bpf_step pkt (prog ! pc) pc vm of
           Return v \<Rightarrow> Some v
         | Goto pc' vm' \<Rightarrow> bpf_loop prog pkt pc' vm')
      else Some (vm_acc vm))"

definition bpf_run :: "bpf_insn list \<Rightarrow> bytes \<Rightarrow> u32 option" where
  "bpf_run prog pkt = bpf_loop prog pkt 0 bpf_vm_new"

text \<open>\<open>filter_ok\<close>, which is also \<open>BpfProgram::filter\<close>; \<open>None\<close> when the machine never stops.\<close>

definition bpf_filter :: "bpf_insn list \<Rightarrow> bytes \<Rightarrow> bool option" where
  "bpf_filter prog pkt = map_option (\<lambda>v. v \<noteq> 0) (bpf_run prog pkt)"

declare bpf_loop.simps [code]

section \<open>Termination and divergence\<close>

text \<open>An unconditional jump goes forward when its target lies behind it; conditional jumps always do.\<close>

definition is_ja :: "bpf_insn \<Rightarrow> bool" where
  "is_ja i \<longleftrightarrow> (ucast (bpf_code i AND 0x07) :: u8) = BPF_JMP \<and> (ucast (bpf_code i AND 0x70) :: u8) = BPF_JA"

definition forward_jumps :: "bpf_insn list \<Rightarrow> bool" where
  "forward_jumps prog \<longleftrightarrow> length prog + 256 < 2 ^ 32 \<and>
     (\<forall>pc\<in>{..<length prog}. is_ja (prog ! pc) \<longrightarrow> pc < unat (bpf_k (prog ! pc)))"

text \<open>The configurations at the head of the loop, with the number of turns made.\<close>

inductive bpf_reach :: "bpf_insn list \<Rightarrow> bytes \<Rightarrow> nat \<Rightarrow> nat \<Rightarrow> bpf_vm \<Rightarrow> bool" for prog pkt where
  reach_start: "bpf_reach prog pkt 0 0 bpf_vm_new"
| reach_turn: "bpf_reach prog pkt n pc vm \<Longrightarrow> pc < length prog \<Longrightarrow>
      bpf_step pkt (prog ! pc) pc vm = Goto pc' vm' \<Longrightarrow> bpf_reach prog pkt (Suc n) pc' vm'"

inductive_cases reach_sucE: "bpf_reach prog pkt (Suc n) pc vm"

lemma cond_target:
  assumes "pc + 256 < 2 ^ 32"
  shows "unat (of_nat pc + ucast (j :: u8) + 1 :: u32) = pc + unat j + 1"
proof -
  have j: "unat j < 256" using unsigned_less [of j] by simp
  have "(of_nat pc + ucast j + 1 :: u32) = of_nat (pc + unat j + 1)"
    by simp
  moreover have "unat (of_nat (pc + unat j + 1) :: u32) = pc + unat j + 1"
    unfolding unat_of_nat using assms j by simp
  ultimately show ?thesis by (simp only:)
qed

lemma jump_forward:
  assumes "bpf_step_jump ins pc vm = Goto pc' vm'" "pc + 256 < 2 ^ 32"
    and "(ucast (bpf_code ins AND 0x70) :: u8) = BPF_JA \<longrightarrow> pc < unat (bpf_k ins)"
  shows "pc < pc' \<and> vm' = vm"
  using assms by (auto simp: bpf_step_jump_def Let_def cond_target split: if_splits)

lemma load_forward:
  assumes "bpf_step_load pkt ins cls pc vm = Goto pc' vm'"
  shows "pc' = pc + 1 \<and> vm_mem vm' = vm_mem vm"
  using assms by (auto simp: bpf_step_load_def bpf_set_reg_def Let_def split: if_splits option.splits)

lemma alu_mem: "vm_mem (bpf_alu aop use_x k vm) = vm_mem vm"
  by (simp add: bpf_alu_def Let_def)

lemma step_forward:
  assumes "bpf_step pkt ins pc vm = Goto pc' vm'" "pc + 256 < 2 ^ 32" "is_ja ins \<longrightarrow> pc < unat (bpf_k ins)"
  shows "pc < pc'"
  using assms by (auto simp: bpf_step_def is_ja_def Let_def dest: load_forward jump_forward split: if_splits)

lemma step_mem:
  assumes "bpf_step pkt ins pc vm = Goto pc' vm'"
  shows "length (vm_mem vm') = length (vm_mem vm)"
proof -
  have "bpf_step_jump ins pc vm = Goto pc' vm' \<Longrightarrow> vm' = vm"
    by (auto simp: bpf_step_jump_def Let_def split: if_splits)
  then show ?thesis
    using assms by (auto simp: bpf_step_def Let_def alu_mem dest: load_forward split: if_splits)
qed

lemma loop_returns:
  assumes "forward_jumps prog"
  shows "\<exists>v. bpf_loop prog pkt pc vm = Some v"
proof (induction "length prog - pc" arbitrary: pc vm rule: less_induct)
  case less
  show ?case
  proof (cases "pc < length prog")
    case True
    show ?thesis
    proof (cases "bpf_step pkt (prog ! pc) pc vm")
      case (Goto pc' vm')
      have "pc < pc'"
        using step_forward [OF Goto] True assms by (auto simp: forward_jumps_def)
      then show ?thesis using less [of pc' vm'] True Goto by (simp add: bpf_loop.simps [of prog pkt pc])
    qed (simp add: True bpf_loop.simps)
  qed (simp add: bpf_loop.simps)
qed

text \<open>C19: A program whose unconditional jumps all go forward returns on every packet, within one turn
  of the loop per instruction: at the head of the loop the number of turns made is at most the program
  counter. Scratch memory keeps its 16 words throughout, whatever the program.\<close>
theorem bpf_run_bounded:
  assumes "forward_jumps prog"
  shows "(\<exists>v. bpf_run prog pkt = Some v)
    \<and> (bpf_reach prog pkt n pc vm \<longrightarrow> n \<le> pc \<and> length (vm_mem vm) = 16)"
proof -
  have "bpf_reach prog pkt n pc vm \<Longrightarrow> n \<le> pc \<and> length (vm_mem vm) = 16"
  proof (induction rule: bpf_reach.induct)
    case (reach_turn n pc vm pc' vm')
    have "pc < pc'"
      using step_forward [OF reach_turn.hyps(3)] reach_turn.hyps(2) assms by (auto simp: forward_jumps_def)
    then show ?case using reach_turn.IH step_mem [OF reach_turn.hyps(3)] by simp
  qed (simp add: bpf_vm_new_def)
  then show ?thesis using loop_returns [OF assms] by (simp add: bpf_run_def)
qed

theorem bpf_run_bounded_witness:
  "(\<exists>v. bpf_run [bpf_insn_new 0x05 0 0 2, bpf_insn_new 0x06 0 0 0, bpf_insn_new 0x06 0 0 7] [] = Some v)"
proof -
  let ?p = "[bpf_insn_new 0x05 0 0 2, bpf_insn_new 0x06 0 0 0, bpf_insn_new 0x06 0 0 7]"
  have "forward_jumps ?p"
    by (simp add: forward_jumps_def bpf_insn_new_def is_ja_def bpf_ops lessThan_Suc)
  then show ?thesis using bpf_run_bounded by blast
qed

lemma self_jump_diverges:
  assumes "prog ! p = bpf_insn_new 0x05 jt jf (of_nat p)" "p < length prog" "p < 2 ^ 32"
  shows "bpf_loop prog pkt p vm = None"
proof (rule ccontr)
  assume "bpf_loop prog pkt p vm \<noteq> None"
  then obtain v where "bpf_loop prog pkt p vm = Some v" by blast
  then have "prog = prog \<longrightarrow> p = p \<longrightarrow> False"
  proof (rule bpf_loop.raw_induct [where P = "\<lambda>q pkt' pc' vm' y. q = prog \<longrightarrow> pc' = p \<longrightarrow> False", rotated])
    fix f q pkt' pc' vm' y
    assume ih: "\<And>q pkt' pc' vm' y. f q pkt' pc' vm' = Some y \<Longrightarrow> q = prog \<longrightarrow> pc' = p \<longrightarrow> False"
      and body: "(if pc' < length q then case bpf_step pkt' (q ! pc') pc' vm' of Return v \<Rightarrow> Some v
         | Goto pc'' vm'' \<Rightarrow> f q pkt' pc'' vm'' else Some (vm_acc vm')) = Some y"
    have "bpf_step pkt' (prog ! p) p vm' = Goto p vm'"
      using assms by (simp add: bpf_insn_new_def bpf_step_def bpf_step_jump_def bpf_ops unat_of_nat)
    with ih [of prog pkt' p vm' y] body assms(2) show "q = prog \<longrightarrow> pc' = p \<longrightarrow> False" by auto
  qed
  then show False by simp
qed

end
