(* ===== verification/Pcap_Classic.thy ===== *)
theory Pcap_Classic
  imports Pcap_Bpf
begin

text \<open>
  The classic BPF machine, which \<open>wnr-pcap/src/bpf.rs\<close> says it matches: its instructions, their standard
  encoding, the checks of the validator, and their meaning, stated on natural numbers and apart from the
  interpreter. The interpreter agrees with it step by step, but for a list of cases.
\<close>

section \<open>The reference machine\<close>

datatype operand = OpK u32 | OpX
datatype width = Word | Half | Byte
datatype alu_op = Add | Sub | Mul | Div | Or | And | Lsh | Rsh | Mod | Xor
datatype cond = Jeq | Jgt | Jge | Jset

datatype classic =
  LdImm u32 | LdxImm u32 | LdAbs width u32 | LdInd width u32 | LdMem u32 | LdxMem u32 | LdLen | LdxLen
| LdxMsh u32 | St u32 | Stx u32 | Alu alu_op operand | Neg | Ja u32 | Jmp cond operand u8 u8
| RetK u32 | RetA | Tax | Txa

fun width_code :: "width \<Rightarrow> u16" where
  "width_code Word = 0x00" | "width_code Half = 0x08" | "width_code Byte = 0x10"

fun alu_code :: "alu_op \<Rightarrow> u16" where
  "alu_code Add = 0x00" | "alu_code Sub = 0x10" | "alu_code Mul = 0x20" | "alu_code Div = 0x30"
| "alu_code Or = 0x40" | "alu_code And = 0x50" | "alu_code Lsh = 0x60" | "alu_code Rsh = 0x70"
| "alu_code Mod = 0x90" | "alu_code Xor = 0xa0"

fun cond_code :: "cond \<Rightarrow> u16" where
  "cond_code Jeq = 0x10" | "cond_code Jgt = 0x20" | "cond_code Jge = 0x30" | "cond_code Jset = 0x40"

fun operand_code :: "operand \<Rightarrow> u16" where
  "operand_code (OpK k) = 0x00" | "operand_code OpX = 0x08"

fun operand_k :: "operand \<Rightarrow> u32" where
  "operand_k (OpK k) = k" | "operand_k OpX = 0"

fun assemble :: "classic \<Rightarrow> bpf_insn" where
  "assemble (LdImm k) = bpf_insn_new 0x00 0 0 k"
| "assemble (LdxImm k) = bpf_insn_new 0x01 0 0 k"
| "assemble (LdAbs w k) = bpf_insn_new (0x20 OR width_code w) 0 0 k"
| "assemble (LdInd w k) = bpf_insn_new (0x40 OR width_code w) 0 0 k"
| "assemble (LdMem k) = bpf_insn_new 0x60 0 0 k"
| "assemble (LdxMem k) = bpf_insn_new 0x61 0 0 k"
| "assemble LdLen = bpf_insn_new 0x80 0 0 0"
| "assemble LdxLen = bpf_insn_new 0x81 0 0 0"
| "assemble (LdxMsh k) = bpf_insn_new 0xb1 0 0 k"
| "assemble (St k) = bpf_insn_new 0x02 0 0 k"
| "assemble (Stx k) = bpf_insn_new 0x03 0 0 k"
| "assemble (Alu a v) = bpf_insn_new (0x04 OR alu_code a OR operand_code v) 0 0 (operand_k v)"
| "assemble Neg = bpf_insn_new 0x84 0 0 0"
| "assemble (Ja k) = bpf_insn_new 0x05 0 0 k"
| "assemble (Jmp c v jt jf) = bpf_insn_new (0x05 OR cond_code c OR operand_code v) jt jf (operand_k v)"
| "assemble (RetK k) = bpf_insn_new 0x06 0 0 k"
| "assemble RetA = bpf_insn_new 0x16 0 0 0"
| "assemble Tax = bpf_insn_new 0x07 0 0 0"
| "assemble Txa = bpf_insn_new 0x87 0 0 0"

text \<open>Packet data is big-endian; a fetch that is not inside the packet ends the program with 0.\<close>

fun width_bytes :: "width \<Rightarrow> nat" where
  "width_bytes Word = 4" | "width_bytes Half = 2" | "width_bytes Byte = 1"

definition fetch :: "bytes \<Rightarrow> width \<Rightarrow> nat \<Rightarrow> nat option" where
  "fetch pkt w off =
     (if off + width_bytes w \<le> length pkt
      then Some (foldl (\<lambda>v b. v * 256 + unat b) 0 (take (width_bytes w) (drop off pkt))) else None)"

fun operand_value :: "bpf_vm \<Rightarrow> operand \<Rightarrow> u32" where
  "operand_value vm (OpK k) = k"
| "operand_value vm OpX = vm_x vm"

fun alu_value :: "alu_op \<Rightarrow> u32 \<Rightarrow> u32 \<Rightarrow> u32" where
  "alu_value Add a v = a + v" | "alu_value Sub a v = a - v" | "alu_value Mul a v = a * v"
| "alu_value Div a v = a div v" | "alu_value Or a v = a OR v" | "alu_value And a v = a AND v"
| "alu_value Lsh a v = push_bit (unat v) a" | "alu_value Rsh a v = drop_bit (unat v) a"
| "alu_value Mod a v = a mod v" | "alu_value Xor a v = a XOR v"

fun cond_holds :: "cond \<Rightarrow> u32 \<Rightarrow> u32 \<Rightarrow> bool" where
  "cond_holds Jeq a v \<longleftrightarrow> a = v" | "cond_holds Jgt a v \<longleftrightarrow> v < a" | "cond_holds Jge a v \<longleftrightarrow> v \<le> a"
| "cond_holds Jset a v \<longleftrightarrow> a AND v \<noteq> 0"

fun classic_step :: "bytes \<Rightarrow> nat \<Rightarrow> classic \<Rightarrow> bpf_vm \<Rightarrow> bpf_outcome" where
  "classic_step pkt pc (LdImm k) vm = Goto (pc + 1) (vm\<lparr>vm_acc := k\<rparr>)"
| "classic_step pkt pc (LdxImm k) vm = Goto (pc + 1) (vm\<lparr>vm_x := k\<rparr>)"
| "classic_step pkt pc (LdAbs w k) vm =
     (case fetch pkt w (unat k) of Some v \<Rightarrow> Goto (pc + 1) (vm\<lparr>vm_acc := of_nat v\<rparr>) | None \<Rightarrow> Return 0)"
| "classic_step pkt pc (LdInd w k) vm =
     (case fetch pkt w (unat (vm_x vm) + unat k) of
        Some v \<Rightarrow> Goto (pc + 1) (vm\<lparr>vm_acc := of_nat v\<rparr>) | None \<Rightarrow> Return 0)"
| "classic_step pkt pc (LdMem k) vm = Goto (pc + 1) (vm\<lparr>vm_acc := vm_mem vm ! unat k\<rparr>)"
| "classic_step pkt pc (LdxMem k) vm = Goto (pc + 1) (vm\<lparr>vm_x := vm_mem vm ! unat k\<rparr>)"
| "classic_step pkt pc LdLen vm = Goto (pc + 1) (vm\<lparr>vm_acc := of_nat (length pkt)\<rparr>)"
| "classic_step pkt pc LdxLen vm = Goto (pc + 1) (vm\<lparr>vm_x := of_nat (length pkt)\<rparr>)"
| "classic_step pkt pc (LdxMsh k) vm =
     (case fetch pkt Byte (unat k) of
        Some b \<Rightarrow> Goto (pc + 1) (vm\<lparr>vm_x := of_nat (4 * (b mod 16))\<rparr>) | None \<Rightarrow> Return 0)"
| "classic_step pkt pc (St k) vm = Goto (pc + 1) (vm\<lparr>vm_mem := (vm_mem vm)[unat k := vm_acc vm]\<rparr>)"
| "classic_step pkt pc (Stx k) vm = Goto (pc + 1) (vm\<lparr>vm_mem := (vm_mem vm)[unat k := vm_x vm]\<rparr>)"
| "classic_step pkt pc (Alu a v) vm =
     (if a \<in> {Div, Mod} \<and> operand_value vm v = 0 then Return 0
      else Goto (pc + 1) (vm\<lparr>vm_acc := alu_value a (vm_acc vm) (operand_value vm v)\<rparr>))"
| "classic_step pkt pc Neg vm = Goto (pc + 1) (vm\<lparr>vm_acc := - vm_acc vm\<rparr>)"
| "classic_step pkt pc (Ja k) vm = Goto (pc + 1 + unat k) vm"
| "classic_step pkt pc (Jmp c v jt jf) vm =
     Goto (pc + 1 + unat (if cond_holds c (vm_acc vm) (operand_value vm v) then jt else jf)) vm"
| "classic_step pkt pc (RetK k) vm = Return k"
| "classic_step pkt pc RetA vm = Return (vm_acc vm)"
| "classic_step pkt pc Tax vm = Goto (pc + 1) (vm\<lparr>vm_x := vm_acc vm\<rparr>)"
| "classic_step pkt pc Txa vm = Goto (pc + 1) (vm\<lparr>vm_acc := vm_x vm\<rparr>)"

text \<open>What the validator checks: memory cells exist, constant shifts and divisors make sense, and control
  stays inside the program.\<close>

fun legal :: "classic \<Rightarrow> bool" where
  "legal (LdMem k) \<longleftrightarrow> k < 16" | "legal (LdxMem k) \<longleftrightarrow> k < 16" | "legal (St k) \<longleftrightarrow> k < 16" | "legal (Stx k) \<longleftrightarrow> k < 16"
| "legal (Alu a (OpK k)) \<longleftrightarrow> (a \<in> {Div, Mod} \<longrightarrow> k \<noteq> 0) \<and> (a \<in> {Lsh, Rsh} \<longrightarrow> k < 32)"
| "legal c \<longleftrightarrow> True"

fun successors :: "nat \<Rightarrow> classic \<Rightarrow> nat set" where
  "successors pc (Ja k) = {pc + 1 + unat k}"
| "successors pc (Jmp c v jt jf) = {pc + 1 + unat jt, pc + 1 + unat jf}"
| "successors pc (RetK k) = {}"
| "successors pc RetA = {}"
| "successors pc c = {pc + 1}"

definition classic_valid :: "classic list \<Rightarrow> bool" where
  "classic_valid prog \<longleftrightarrow> prog \<noteq> [] \<and> length prog + 256 < 2 ^ 32 \<and>
     (\<forall>pc \<in> {..<length prog}. legal (prog ! pc) \<and> successors pc (prog ! pc) \<subseteq> {..<length prog})"

lemma classic_step_successor:
  "classic_step pkt pc c vm = Goto pc' vm' \<Longrightarrow> pc' \<in> successors pc c \<and> pc < pc'"
  by (cases c) (auto split: option.splits if_splits)

function classic_loop :: "classic list \<Rightarrow> bytes \<Rightarrow> nat \<Rightarrow> bpf_vm \<Rightarrow> u32" where
  "classic_loop prog pkt pc vm =
     (if pc < length prog then
        (case classic_step pkt pc (prog ! pc) vm of Return v \<Rightarrow> v | Goto pc' vm' \<Rightarrow> classic_loop prog pkt pc' vm')
      else 0)"
  by pat_completeness auto
termination
  by (relation "measure (\<lambda>(prog, _, pc, _). length prog - pc)") (auto dest: classic_step_successor)

declare classic_loop.simps [simp del]

definition classic_run :: "classic list \<Rightarrow> bytes \<Rightarrow> u32" where
  "classic_run prog pkt = classic_loop prog pkt 0 bpf_vm_new"

section \<open>Where the interpreter departs\<close>

text \<open>An unconditional jump (its operand is taken as the target and not as a distance); \<open>RET A\<close> unless the
  accumulator holds the value that is returned, the constant of the instruction; a division or remainder
  by an index register of 0 (the result is 0 and the program goes on); an indexed load whose sum wraps around
  and ends up inside the packet; a header length that is larger than the packet (the program ends).
  A shift by an index register of 32 or more bits gives 0 in both.\<close>

fun departs :: "bytes \<Rightarrow> classic \<Rightarrow> bpf_vm \<Rightarrow> bool" where
  "departs pkt (Ja k) vm \<longleftrightarrow> True"
| "departs pkt RetA vm \<longleftrightarrow> vm_acc vm \<noteq> 0"
| "departs pkt (Alu a v) vm \<longleftrightarrow> a \<in> {Div, Mod} \<and> operand_value vm v = 0"
| "departs pkt (LdInd w k) vm \<longleftrightarrow> 2 ^ 32 \<le> unat (vm_x vm) + unat k \<and> fetch pkt w (unat (vm_x vm + k)) \<noteq> None"
| "departs pkt (LdxMsh k) vm \<longleftrightarrow> (case fetch pkt Byte (unat k) of Some b \<Rightarrow> length pkt < 4 * (b mod 16) | None \<Rightarrow> False)"
| "departs pkt c vm \<longleftrightarrow> False"

function strays :: "classic list \<Rightarrow> bytes \<Rightarrow> nat \<Rightarrow> bpf_vm \<Rightarrow> bool" where
  "strays prog pkt pc vm =
     (if pc < length prog then departs pkt (prog ! pc) vm \<or>
        (case classic_step pkt pc (prog ! pc) vm of Return v \<Rightarrow> False | Goto pc' vm' \<Rightarrow> strays prog pkt pc' vm')
      else False)"
  by pat_completeness auto
termination
  by (relation "measure (\<lambda>(prog, _, pc, _). length prog - pc)") (auto dest: classic_step_successor)

declare strays.simps [simp del]

section \<open>Agreement\<close>

lemma byte_bit_low: "bit (b :: u8) n \<Longrightarrow> n < 8"
  using bit_imp_le_length [of b n] by simp

lemma u32_value: "u32_from_be a b c d = of_nat (((unat a * 256 + unat b) * 256 + unat c) * 256 + unat d)"
proof -
  let ?A = "push_bit 24 (ucast a) :: u32" and ?B = "push_bit 16 (ucast b) :: u32"
    and ?C = "push_bit 8 (ucast c) :: u32" and ?D = "ucast d :: u32"
  have "?C + ?D = ?C OR ?D"
    by (rule disjunctive_add_eq_or, rule bit_word_eqI) (auto simp: bit_simps dest!: byte_bit_low)
  moreover have "?B + (?C OR ?D) = ?B OR (?C OR ?D)"
    by (rule disjunctive_add_eq_or, rule bit_word_eqI) (auto simp: bit_simps dest!: byte_bit_low)
  moreover have "?A + (?B OR (?C OR ?D)) = ?A OR (?B OR (?C OR ?D))"
    by (rule disjunctive_add_eq_or, rule bit_word_eqI) (auto simp: bit_simps dest!: byte_bit_low)
  ultimately have "u32_from_be a b c d = ?A + (?B + (?C + ?D))" by (simp only: u32_from_be_def or.assoc)
  also have "\<dots> = of_nat (((unat a * 256 + unat b) * 256 + unat c) * 256 + unat d)"
    by (simp add: push_bit_eq_mult algebra_simps)
  finally show ?thesis .
qed

lemma u16_value: "(ucast (u16_from_be a b) :: u32) = of_nat (unat a * 256 + unat b)"
proof -
  let ?A = "push_bit 8 (ucast a) :: u32"
  have "(ucast (u16_from_be a b) :: u32) = ?A OR ucast b"
  proof (rule bit_word_eqI)
    fix n :: nat
    show "bit (ucast (u16_from_be a b) :: u32) n \<longleftrightarrow> bit (?A OR ucast b) n" if "n < LENGTH(32)"
      using that byte_bit_low [of a "n - 8"] byte_bit_low [of b n] by (auto simp: u16_from_be_def bit_simps)
  qed
  also have "\<dots> = ?A + ucast b"
    by (rule disjunctive_add_eq_or [symmetric], rule bit_word_eqI) (auto simp: bit_simps dest!: byte_bit_low)
  also have "\<dots> = of_nat (unat a * 256 + unat b)" by (simp add: push_bit_eq_mult algebra_simps)
  finally show ?thesis .
qed

lemma load_fetch:
  assumes "length pkt < 2 ^ 32"
  shows "bpf_load pkt (of_nat (length pkt)) k (ucast (width_code w)) = map_option of_nat (fetch pkt w (unat k))"
proof -
  have l: "unat (of_nat (length pkt) :: u32) = length pkt" unfolding unat_of_nat using assms by simp
  have cells: "take n (drop (unat k) pkt) = map (\<lambda>i. pkt ! (unat k + i)) [0..<n]" if "unat k + n \<le> length pkt" for n
    using that by (intro nth_equalityI) simp_all
  have upts: "[0..<4] = [0, 1, 2, 3 :: nat]" "[0..<2] = [0, 1 :: nat]" "[0..<1] = [0 :: nat]" by code_simp+
  show ?thesis
  proof (cases w)
    case Word
    then show ?thesis
      using cells [of 4, unfolded upts] by (simp add: bpf_load_def fetch_def bpf_mode u32_value Let_def)
  next
    case Half
    then show ?thesis
      using cells [of 2, unfolded upts] by (simp add: bpf_load_def fetch_def bpf_mode u16_value Let_def)
  next
    case Byte
    then show ?thesis
      using cells [of 1, unfolded upts] by (auto simp: bpf_load_def fetch_def bpf_mode l Let_def)
  qed
qed

lemmas step_defs = bpf_step_def bpf_insn_new_def bpf_ops bpf_set_reg_def

lemma step_load:
  assumes "length pkt < 2 ^ 32"
  shows "bpf_step pkt (assemble (LdAbs w k)) pc vm =
      (case fetch pkt w (unat k) of Some v \<Rightarrow> Goto (pc + 1) (vm\<lparr>vm_acc := of_nat v\<rparr>) | None \<Rightarrow> Return 0)"
    and "bpf_step pkt (assemble (LdInd w k)) pc vm =
      (case fetch pkt w (unat (vm_x vm + k)) of Some v \<Rightarrow> Goto (pc + 1) (vm\<lparr>vm_acc := of_nat v\<rparr>) | None \<Rightarrow> Return 0)"
    and "bpf_step pkt (assemble (LdxMsh k)) pc vm =
      (case fetch pkt Byte (unat k) of
         Some b \<Rightarrow> if length pkt < 4 * (b mod 16) then Return 0 else Goto (pc + 1) (vm\<lparr>vm_x := of_nat (4 * (b mod 16))\<rparr>)
       | None \<Rightarrow> Return 0)"
proof -
  note ld = load_fetch [OF assms, unfolded bpf_mode]
  show "bpf_step pkt (assemble (LdAbs w k)) pc vm =
      (case fetch pkt w (unat k) of Some v \<Rightarrow> Goto (pc + 1) (vm\<lparr>vm_acc := of_nat v\<rparr>) | None \<Rightarrow> Return 0)"
    using ld [of k w] by (cases w) (simp_all add: step_defs bpf_step_load_def split: option.split)
  show "bpf_step pkt (assemble (LdInd w k)) pc vm =
      (case fetch pkt w (unat (vm_x vm + k)) of Some v \<Rightarrow> Goto (pc + 1) (vm\<lparr>vm_acc := of_nat v\<rparr>) | None \<Rightarrow> Return 0)"
    using ld [of "vm_x vm + k" w] by (cases w) (simp_all add: step_defs bpf_step_load_def split: option.split)
  have l: "unat (of_nat (length pkt) :: u32) = length pkt" unfolding unat_of_nat using assms by simp
  have hlen: "push_bit 2 (of_nat b) AND 60 = (of_nat (4 * (b mod 16)) :: u32)"
    "unat (of_nat (4 * (b mod 16)) :: u32) = 4 * (b mod 16)" for b
  proof -
    have "of_nat b AND (0x0f :: u32) = take_bit 4 (of_nat b)" by (simp add: take_bit_eq_mask mask_numeral)
    also have "\<dots> = of_nat (b mod 16)" unfolding take_bit_of_nat by (simp add: take_bit_eq_mod)
    finally have m: "of_nat b AND (0x0f :: u32) = of_nat (b mod 16)" .
    then have "push_bit 2 (of_nat b AND 0x0f) = (of_nat (4 * (b mod 16)) :: u32)"
      unfolding m by (simp add: push_bit_eq_mult mult.commute)
    then show "push_bit 2 (of_nat b) AND 60 = (of_nat (4 * (b mod 16)) :: u32)" by simp
    have "4 * (b mod 16) < 2 ^ 32" by (rule order_less_trans [of _ 64]) simp_all
    then show "unat (of_nat (4 * (b mod 16)) :: u32) = 4 * (b mod 16)" unfolding unat_of_nat by (intro mod_less) simp
  qed
  show "bpf_step pkt (assemble (LdxMsh k)) pc vm =
      (case fetch pkt Byte (unat k) of
         Some b \<Rightarrow> if length pkt < 4 * (b mod 16) then Return 0 else Goto (pc + 1) (vm\<lparr>vm_x := of_nat (4 * (b mod 16))\<rparr>)
       | None \<Rightarrow> Return 0)"
    using ld [of k Byte] by (simp add: step_defs bpf_step_load_def hlen word_less_nat_alt l del: of_nat_mult split: option.split)
qed

text \<open>The codes of the arithmetic instructions and of the jumps, decoded.\<close>

lemma decode_alu:
  "bpf_step pkt (assemble (Alu a v)) pc vm
     = Goto (pc + 1) (bpf_alu (ucast (alu_code a)) (v = OpX) (operand_k v) vm)"
  by (cases a; cases v) (simp_all add: step_defs)

lemma alu_agrees:
  assumes "legal (Alu a v)"
  shows "bpf_alu (ucast (alu_code a)) (v = OpX) (operand_k v) vm = vm\<lparr>vm_acc :=
     (if a \<in> {Div, Mod} \<and> operand_value vm v = 0 then 0 else alu_value a (vm_acc vm) (operand_value vm v))\<rparr>"
proof -
  have v: "(if v = OpX then vm_x vm else operand_k v) = operand_value vm v" by (cases v) simp_all
  have "32 \<le> unat w" if "\<not> w < (32 :: u32)" for w using that by (simp add: word_less_nat_alt)
  then show ?thesis
    unfolding bpf_alu_def v
    by (cases a) (auto simp: bpf_alu_op Let_def checked_shl_def checked_shr_def)
qed

lemma jump_agrees:
  assumes "pc + 256 < 2 ^ 32"
  shows "bpf_step pkt (assemble (Jmp c v jt jf)) pc vm = classic_step pkt pc (Jmp c v jt jf) vm"
  using cond_target [OF assms, of jt] cond_target [OF assms, of jf]
  by (cases c; cases v; simp add: step_defs bpf_step_jump_def)

lemma step_agrees:
  assumes "length pkt < 2 ^ 32" "pc + 256 < 2 ^ 32" "length (vm_mem vm) = 16" "legal c"
  shows "bpf_step pkt (assemble c) pc vm = classic_step pkt pc c vm \<longleftrightarrow> \<not> departs pkt c vm"
proof (cases c)
  case (LdInd w k)
  let ?x = "unat (vm_x vm)"
  show ?thesis
  proof (cases "?x + unat k < 2 ^ 32")
    case True
    then have "unat (vm_x vm + k) = ?x + unat k" unfolding unat_word_ariths by simp
    with True LdInd show ?thesis by (simp add: step_load [OF assms(1)] del: assemble.simps)
  next
    case False
    then have "fetch pkt w (?x + unat k) = None" using assms(1) by (cases w) (simp_all add: fetch_def)
    with False LdInd show ?thesis by (auto simp: step_load [OF assms(1)] simp del: assemble.simps split: option.split)
  qed
next
  case (LdAbs w k)
  then show ?thesis by (simp add: step_load [OF assms(1)] del: assemble.simps)
next
  case (LdxMsh k)
  then show ?thesis by (auto simp: step_load [OF assms(1)] simp del: assemble.simps split: option.split)
next
  case (Alu a v)
  with assms(4) show ?thesis by (simp add: decode_alu alu_agrees del: assemble.simps)
next
  case (Jmp d v jt jf)
  then show ?thesis by (simp add: jump_agrees [OF assms(2)] del: assemble.simps classic_step.simps)
next
  case (Ja k)
  then show ?thesis by (simp add: step_defs bpf_step_jump_def)
next
  case Neg
  then show ?thesis by (simp add: step_defs bpf_alu_def)
next
  case RetA
  then show ?thesis by (auto simp: step_defs)
qed (use assms in \<open>auto simp: step_defs bpf_step_load_def word_less_nat_alt\<close>)

section \<open>Programs\<close>

lemma classic_step_mem:
  "classic_step pkt pc c vm = Goto pc' vm' \<Longrightarrow> length (vm_mem vm') = length (vm_mem vm)"
  by (cases c) (auto split: option.splits if_splits)

lemma run_agrees:
  assumes "classic_valid prog" "length pkt < 2 ^ 32"
    "pc < length prog" "length (vm_mem vm) = 16" "\<not> strays prog pkt pc vm"
  shows "bpf_loop (map assemble prog) pkt pc vm = Some (classic_loop prog pkt pc vm)"
  using assms
proof (induction prog pkt pc vm rule: classic_loop.induct)
  case (1 prog pkt pc vm)
  let ?c = "prog ! pc"
  have v: "legal ?c" "successors pc ?c \<subseteq> {..<length prog}" "pc + 256 < 2 ^ 32"
    using "1.prems"(1,3) by (auto simp: classic_valid_def)
  have "\<not> departs pkt ?c vm" using "1.prems"(3,5) by (subst (asm) strays.simps) simp
  then have step: "bpf_step pkt (assemble ?c) pc vm = classic_step pkt pc ?c vm"
    using step_agrees [OF "1.prems"(2) v(3) "1.prems"(4) v(1)] by simp
  show ?case
  proof (cases "classic_step pkt pc ?c vm")
    case (Return r)
    with step "1.prems"(3) show ?thesis by (subst bpf_loop.simps, subst classic_loop.simps) simp
  next
    case (Goto pc' vm')
    have "\<not> strays prog pkt pc' vm'" using "1.prems"(3,5) Goto by (subst (asm) strays.simps) simp
    moreover have "pc' < length prog" using classic_step_successor [OF Goto] v(2) by auto
    moreover have "length (vm_mem vm') = 16" using classic_step_mem [OF Goto] "1.prems"(4) by simp
    ultimately have "bpf_loop (map assemble prog) pkt pc' vm' = Some (classic_loop prog pkt pc' vm')"
      using "1.IH" [OF "1.prems"(3) Goto "1.prems"(1,2)] by blast
    with step Goto "1.prems"(3) show ?thesis by (subst bpf_loop.simps, subst classic_loop.simps) simp
  qed
qed

text \<open>C39: The module says that instructions and semantics match classic BPF. For every program that the
  classic validator accepts and every packet, the interpreter returns what the classic machine returns,
  unless the classic run comes by one of the departures; and the departures listed are all there are and
  none too many: at each instruction, interpreter and classic machine take the same step exactly when it
  is not one of them. One is serious: a jump by distance 0, a no-operation, sends the interpreter into
  an endless loop when it stands at the beginning of a program.\<close>
theorem bpf_matches_classic:
  assumes "classic_valid prog" "length pkt < 2 ^ 32"
  shows "(\<not> strays prog pkt 0 bpf_vm_new \<longrightarrow> bpf_run (map assemble prog) pkt = Some (classic_run prog pkt))
    \<and> (\<forall>pc c vm. pc < length prog \<and> legal c \<and> length (vm_mem vm) = 16 \<longrightarrow>
         (bpf_step pkt (assemble c) pc vm = classic_step pkt pc c vm \<longleftrightarrow> \<not> departs pkt c vm))
    \<and> bpf_run [assemble (Ja 0), assemble (RetK 7)] pkt = None \<and> classic_run [Ja 0, RetK 7] pkt = 7"
proof (intro conjI allI impI)
  assume "\<not> strays prog pkt 0 bpf_vm_new"
  moreover have "0 < length prog" "length (vm_mem bpf_vm_new) = 16"
    using assms(1) by (simp_all add: classic_valid_def bpf_vm_new_def)
  ultimately show "bpf_run (map assemble prog) pkt = Some (classic_run prog pkt)"
    using run_agrees [OF assms] by (simp add: bpf_run_def classic_run_def)
next
  fix pc c and vm :: bpf_vm assume "pc < length prog \<and> legal c \<and> length (vm_mem vm) = 16"
  moreover from this have "pc + 256 < 2 ^ 32" using assms(1) by (simp add: classic_valid_def)
  ultimately show "bpf_step pkt (assemble c) pc vm = classic_step pkt pc c vm \<longleftrightarrow> \<not> departs pkt c vm"
    using step_agrees [OF assms(2)] by blast
next
  show "bpf_run [assemble (Ja 0), assemble (RetK 7)] pkt = None"
    unfolding bpf_run_def by (rule self_jump_diverges) simp_all
  show "classic_run [Ja 0, RetK 7] pkt = 7" by (simp add: classic_run_def classic_loop.simps)
qed

text \<open>A filter on the EtherType, as a classic program.\<close>

theorem bpf_matches_classic_witness:
  "bpf_run (map assemble [LdAbs Half 12, Jmp Jeq (OpK 0x0800) 0 1, RetK 96, RetK 0]) (replicate 12 0 @ [8, 0]) = Some 96"
proof -
  let ?prog = "[LdAbs Half 12, Jmp Jeq (OpK 0x0800) 0 1, RetK 96, RetK 0]" and ?pkt = "replicate 12 0 @ [8, 0] :: bytes"
  have four: "{..<length ?prog} = {0, 1, 2, 3 :: nat}" by auto
  have "classic_valid ?prog" unfolding classic_valid_def four by simp
  moreover have "length ?pkt < 2 ^ 32" by simp
  moreover have f: "fetch ?pkt Half 12 = Some 2048" by code_simp
  moreover have "\<not> strays ?prog ?pkt 0 bpf_vm_new" "classic_run ?prog ?pkt = 96"
    using f by (simp_all add: strays.simps classic_run_def classic_loop.simps)
  ultimately show ?thesis using bpf_matches_classic [of ?prog ?pkt] by simp
qed

end
