(* ===== verification/Pcap_Savefile.thy ===== *)
theory Pcap_Savefile
  imports Interfaces
begin

text \<open>
  \<open>wnr-pcap/src/savefile.rs\<close>: the file header and record header on the wire, the reader over the bytes
  of a file and the writer that appends to them. A file is a list of bytes; failures of the disk other
  than reaching the end are not modelled.
\<close>

section \<open>Headers\<close>

definition PCAP_MAGIC_NUMBER :: u32 where "PCAP_MAGIC_NUMBER = 0xa1b2c3d4"
definition PCAP_MAGIC_NUMBER_NANO :: u32 where "PCAP_MAGIC_NUMBER_NANO = 0xa1b23c4d"
definition PCAP_MAGIC_NUMBER_BE :: u32 where "PCAP_MAGIC_NUMBER_BE = 0xd4c3b2a1"
definition PCAP_MAGIC_NUMBER_NANO_BE :: u32 where "PCAP_MAGIC_NUMBER_NANO_BE = 0x4d3cb2a1"

lemmas magics = PCAP_MAGIC_NUMBER_def PCAP_MAGIC_NUMBER_NANO_def PCAP_MAGIC_NUMBER_BE_def PCAP_MAGIC_NUMBER_NANO_BE_def

record pcap_file_header =
  ph_magic :: u32
  ph_version_major :: u16
  ph_version_minor :: u16
  ph_thiszone :: i32
  ph_sigfigs :: u32
  ph_snaplen :: u32
  ph_linktype :: u32

definition pcap_file_header_new :: "u32 \<Rightarrow> u32 \<Rightarrow> pcap_file_header" where
  "pcap_file_header_new snaplen linktype =
     \<lparr>ph_magic = PCAP_MAGIC_NUMBER, ph_version_major = 2, ph_version_minor = 4, ph_thiszone = 0,
      ph_sigfigs = 0, ph_snaplen = snaplen, ph_linktype = linktype\<rparr>"

definition is_nano :: "pcap_file_header \<Rightarrow> bool" where
  "is_nano h \<longleftrightarrow> ph_magic h = PCAP_MAGIC_NUMBER_NANO \<or> ph_magic h = PCAP_MAGIC_NUMBER_NANO_BE"

definition needs_swap :: "pcap_file_header \<Rightarrow> bool" where
  "needs_swap h \<longleftrightarrow> ph_magic h = PCAP_MAGIC_NUMBER_BE \<or> ph_magic h = PCAP_MAGIC_NUMBER_NANO_BE"

record pcap_packet =
  pk_ts_sec :: u32
  pk_ts_frac :: u32
  pk_caplen :: u32
  pk_origlen :: u32
  pk_pkttype :: u16
  pk_data :: bytes

datatype io_error = UnexpectedEof | InvalidData string | OtherError string

text \<open>The readers of the two closures, at an offset; \<open>swap\<close> selects the byte order.\<close>

definition rd_u16 :: "bool \<Rightarrow> bytes \<Rightarrow> nat \<Rightarrow> u16" where
  "rd_u16 swap b i = (if swap then u16_from_be (b ! i) (b ! (i + 1)) else u16_from_le (b ! i) (b ! (i + 1)))"

definition rd_u32 :: "bool \<Rightarrow> bytes \<Rightarrow> nat \<Rightarrow> u32" where
  "rd_u32 swap b i =
     (if swap then u32_from_be (b ! i) (b ! (i + 1)) (b ! (i + 2)) (b ! (i + 3))
      else u32_from_le (b ! i) (b ! (i + 1)) (b ! (i + 2)) (b ! (i + 3)))"

text \<open>\<open>read_exact\<close> over what is left of a file: at a premature end the rest is consumed.\<close>

definition read_exact :: "nat \<Rightarrow> bytes \<Rightarrow> (io_error + bytes) \<times> bytes" where
  "read_exact n rest = (if n \<le> length rest then (Inr (take n rest), drop n rest) else (Inl UnexpectedEof, []))"

section \<open>Reader\<close>

record savefile_reader =
  sr_header :: pcap_file_header
  sr_rest :: bytes

definition savefile_open :: "bytes \<Rightarrow> io_error + savefile_reader" where
  "savefile_open file =
     (case read_exact 24 file of
        (Inl e, _) \<Rightarrow> Inl e
      | (Inr raw, rest) \<Rightarrow>
          (let magic = u32_from_le (raw ! 0) (raw ! 1) (raw ! 2) (raw ! 3);
               known = (magic = PCAP_MAGIC_NUMBER \<or> magic = PCAP_MAGIC_NUMBER_NANO
                        \<or> magic = PCAP_MAGIC_NUMBER_BE \<or> magic = PCAP_MAGIC_NUMBER_NANO_BE);
               swap = (magic = PCAP_MAGIC_NUMBER_BE \<or> magic = PCAP_MAGIC_NUMBER_NANO_BE \<or> \<not> known)
           in if \<not> known then Inl (InvalidData ''not a pcap file (bad magic)'')
              else Inr \<lparr>sr_header =
                          \<lparr>ph_magic = magic, ph_version_major = rd_u16 swap raw 4,
                           ph_version_minor = rd_u16 swap raw 6, ph_thiszone = rd_u32 swap raw 8,
                           ph_sigfigs = rd_u32 swap raw 12, ph_snaplen = rd_u32 swap raw 16,
                           ph_linktype = rd_u32 swap raw 20\<rparr>,
                        sr_rest = rest\<rparr>))"

definition savefile_next :: "savefile_reader \<Rightarrow> (io_error + pcap_packet option) \<times> savefile_reader" where
  "savefile_next r =
     (case read_exact 16 (sr_rest r) of
        (Inl e, rest) \<Rightarrow> (if e = UnexpectedEof then Inr None else Inl e, r\<lparr>sr_rest := rest\<rparr>)
      | (Inr rh, rest) \<Rightarrow>
          (let swap = needs_swap (sr_header r);
               ts_sec = rd_u32 swap rh 0; ts_frac = rd_u32 swap rh 4;
               caplen = rd_u32 swap rh 8; origlen = rd_u32 swap rh 12
           in if caplen > ph_snaplen (sr_header r) \<and> \<not> is_nano (sr_header r) \<and> caplen > 0x1000000
              then (Inl (InvalidData ''corrupt controller (caplen too large)''), r\<lparr>sr_rest := rest\<rparr>)
              else (case read_exact (unat caplen) rest of
                      (Inl e, rest) \<Rightarrow> (Inl e, r\<lparr>sr_rest := rest\<rparr>)
                    | (Inr d, rest) \<Rightarrow>
                        (Inr (Some \<lparr>pk_ts_sec = ts_sec, pk_ts_frac = ts_frac, pk_caplen = caplen,
                                    pk_origlen = origlen, pk_pkttype = 0, pk_data = d\<rparr>),
                         r\<lparr>sr_rest := rest\<rparr>))))"

section \<open>Writer\<close>

record savefile_writer =
  sw_header :: pcap_file_header
  sw_out :: bytes

definition savefile_create :: "u32 \<Rightarrow> u32 \<Rightarrow> savefile_writer" where
  "savefile_create snaplen linktype =
     (let h = pcap_file_header_new snaplen linktype in
      \<lparr>sw_header = h,
       sw_out = u32_to_le (ph_magic h) @ u16_to_le (ph_version_major h) @ u16_to_le (ph_version_minor h)
         @ u32_to_le (ph_thiszone h) @ u32_to_le (ph_sigfigs h) @ u32_to_le (ph_snaplen h)
         @ u32_to_le (ph_linktype h)\<rparr>)"

definition write_packet :: "u32 \<Rightarrow> u32 \<Rightarrow> bytes \<Rightarrow> savefile_writer \<Rightarrow> savefile_writer" where
  "write_packet ts_sec ts_frac d w =
     (let caplen = (of_nat (min (length d) (unat (ph_snaplen (sw_header w)))) :: u32);
          origlen = (of_nat (length d) :: u32)
      in w\<lparr>sw_out := sw_out w @ (u32_to_le ts_sec @ u32_to_le ts_frac @ u32_to_le caplen @ u32_to_le origlen)
                     @ take (unat caplen) d\<rparr>)"

section \<open>The wire format of a record header\<close>

record rec_hdr =
  rh_ts_sec :: u32
  rh_ts_frac :: u32
  rh_caplen :: u32
  rh_origlen :: u32

definition u32_bytes :: "bool \<Rightarrow> u32 \<Rightarrow> bytes" where
  "u32_bytes swap w = (if swap then u32_to_be w else u32_to_le w)"

definition rec_image :: "bool \<Rightarrow> rec_hdr \<Rightarrow> bytes" where
  "rec_image swap h = u32_bytes swap (rh_ts_sec h) @ u32_bytes swap (rh_ts_frac h)
     @ u32_bytes swap (rh_caplen h) @ u32_bytes swap (rh_origlen h)"

definition rec_parse :: "bool \<Rightarrow> bytes \<Rightarrow> rec_hdr option" where
  "rec_parse swap b =
     (if length b < 16 then None
      else Some \<lparr>rh_ts_sec = rd_u32 swap b 0, rh_ts_frac = rd_u32 swap b 4,
                 rh_caplen = rd_u32 swap b 8, rh_origlen = rd_u32 swap b 12\<rparr>)"

lemma u32_bytes_length [simp]: "length (u32_bytes swap w) = 4"
  by (simp add: u32_bytes_def)

lemma rd_u32_nth: "i + 3 < length b \<Longrightarrow> u32_bytes swap (rd_u32 swap b i) = slice i (i + 4) b"
proof -
  assume l: "i + 3 < length b"
  have "slice i (i + 4) b = [b ! i, b ! (i + 1), b ! (i + 2), b ! (i + 3)]"
    by (rule nth_equalityI) (use l in \<open>auto simp: slice_def less_Suc_eq numeral_eq_Suc\<close>)
  then show ?thesis
    by (simp add: u32_bytes_def rd_u32_def u32_from_le_def u32_to_le_def wire_simps)
qed

lemma u32_bytes_cases:
  "\<exists>p q r s. u32_bytes swap w = [p, q, r, s] \<and>
     (if swap then u32_from_be p q r s else u32_from_le p q r s) = w"
  by (auto simp: u32_bytes_def u32_to_le_def u32_to_be_def u32_from_le_def u32_be_inverse)

lemma rd_u32_front: "rd_u32 swap (u32_bytes swap w @ rest) 0 = w"
  using u32_bytes_cases [of swap w] by (auto simp: rd_u32_def)

lemma rd_u32_append: "length p = n \<Longrightarrow> rd_u32 swap (p @ rest) (n + i) = rd_u32 swap rest i"
  by (auto simp: rd_u32_def nth_append)

lemma rd_u32_rec:
  "rd_u32 swap (rec_image swap h @ rest) 0 = rh_ts_sec h"
  "rd_u32 swap (rec_image swap h @ rest) 4 = rh_ts_frac h"
  "rd_u32 swap (rec_image swap h @ rest) 8 = rh_caplen h"
  "rd_u32 swap (rec_image swap h @ rest) 12 = rh_origlen h"
proof -
  let ?a = "u32_bytes swap (rh_ts_sec h)" and ?b = "u32_bytes swap (rh_ts_frac h)"
    and ?c = "u32_bytes swap (rh_caplen h)"
  show "rd_u32 swap (rec_image swap h @ rest) 0 = rh_ts_sec h"
    by (simp add: rec_image_def rd_u32_front)
  show "rd_u32 swap (rec_image swap h @ rest) 4 = rh_ts_frac h"
    using rd_u32_append [of ?a 4 swap _ 0] by (simp add: rec_image_def rd_u32_front)
  show "rd_u32 swap (rec_image swap h @ rest) 8 = rh_caplen h"
    using rd_u32_append [of "?a @ ?b" 8 swap _ 0] by (simp add: rec_image_def rd_u32_front)
  show "rd_u32 swap (rec_image swap h @ rest) 12 = rh_origlen h"
    using rd_u32_append [of "?a @ ?b @ ?c" 12 swap _ 0] by (simp add: rec_image_def rd_u32_front)
qed

interpretation rec_wire: wire_codec "rec_image swap" "rec_parse swap" 16 "\<lambda>_. True" for swap
proof
  fix h :: rec_hdr and buf rest :: bytes
  show "length (rec_image swap h) = 16" by (simp add: rec_image_def)
  then show "rec_parse swap (rec_image swap h @ rest) = Some h"
    by (simp add: rec_parse_def rd_u32_rec)
  show "length buf < 16 \<Longrightarrow> rec_parse swap buf = None" by (simp add: rec_parse_def)
  assume l: "16 \<le> length buf"
  have "rec_image swap \<lparr>rh_ts_sec = rd_u32 swap buf 0, rh_ts_frac = rd_u32 swap buf 4,
       rh_caplen = rd_u32 swap buf 8, rh_origlen = rd_u32 swap buf 12\<rparr>
     = slice 0 4 buf @ slice 4 8 buf @ slice 8 12 buf @ slice 12 16 buf"
    using l by (simp add: rec_image_def rd_u32_nth)
  also have "\<dots> = take 16 buf"
    by (rule nth_equalityI) (use l in \<open>auto simp: slice_def nth_append\<close>)
  finally show "\<exists>h. True \<and> rec_parse swap buf = Some h \<and> rec_image swap h = take 16 buf"
    using l by (auto simp: rec_parse_def)
qed

text \<open>\<open>next_packet\<close> in terms of the record header.\<close>

lemma savefile_next_parse:
  "savefile_next r =
     (case rec_parse (needs_swap (sr_header r)) (sr_rest r) of
        None \<Rightarrow> (Inr None, r\<lparr>sr_rest := []\<rparr>)
      | Some h \<Rightarrow>
          (let rest = drop 16 (sr_rest r); n = unat (rh_caplen h) in
           if rh_caplen h > ph_snaplen (sr_header r) \<and> \<not> is_nano (sr_header r) \<and> rh_caplen h > 0x1000000
           then (Inl (InvalidData ''corrupt controller (caplen too large)''), r\<lparr>sr_rest := rest\<rparr>)
           else if length rest < n then (Inl UnexpectedEof, r\<lparr>sr_rest := []\<rparr>)
           else (Inr (Some \<lparr>pk_ts_sec = rh_ts_sec h, pk_ts_frac = rh_ts_frac h, pk_caplen = rh_caplen h,
                            pk_origlen = rh_origlen h, pk_pkttype = 0, pk_data = take n rest\<rparr>),
                 r\<lparr>sr_rest := drop n rest\<rparr>)))"
proof (cases "16 \<le> length (sr_rest r)")
  case True
  have "rd_u32 swap (take 16 (sr_rest r)) i = rd_u32 swap (sr_rest r) i" if "i + 3 < 16" for swap i
    using that by (simp add: rd_u32_def)
  with True show ?thesis
    by (simp add: savefile_next_def read_exact_def rec_parse_def Let_def not_le)
next
  case False
  then show ?thesis by (simp add: savefile_next_def read_exact_def rec_parse_def)
qed

section \<open>Whole files\<close>

lemma savefile_next_shrinks:
  "savefile_next r = (Inr (Some p), r') \<Longrightarrow> length (sr_rest r') < length (sr_rest r)"
  by (auto simp: savefile_next_parse rec_parse_def Let_def split: if_splits)

interpretation save_src: packet_source savefile_next "\<lambda>r. length (sr_rest r)"
  by unfold_locales (rule savefile_next_shrinks)

abbreviation savefile_packets :: "savefile_reader \<Rightarrow> pcap_packet list \<times> io_error option \<times> savefile_reader" where
  "savefile_packets \<equiv> exhaust savefile_next (\<lambda>r. length (sr_rest r))"

text \<open>The bytes of a file of any of the four formats, independently of the reader and the writer.\<close>

definition u16_bytes :: "bool \<Rightarrow> u16 \<Rightarrow> bytes" where
  "u16_bytes swap w = (if swap then u16_to_be w else u16_to_le w)"

definition header_image :: "pcap_file_header \<Rightarrow> bytes" where
  "header_image h =
     (let swap = needs_swap h in
      u32_to_le (ph_magic h) @ u16_bytes swap (ph_version_major h) @ u16_bytes swap (ph_version_minor h)
      @ u32_bytes swap (ph_thiszone h) @ u32_bytes swap (ph_sigfigs h) @ u32_bytes swap (ph_snaplen h)
      @ u32_bytes swap (ph_linktype h))"

definition known_magic :: "pcap_file_header \<Rightarrow> bool" where
  "known_magic h \<longleftrightarrow> ph_magic h \<in> {PCAP_MAGIC_NUMBER, PCAP_MAGIC_NUMBER_NANO,
     PCAP_MAGIC_NUMBER_BE, PCAP_MAGIC_NUMBER_NANO_BE}"

definition record_image :: "bool \<Rightarrow> pcap_packet \<Rightarrow> bytes" where
  "record_image swap p =
     rec_image swap \<lparr>rh_ts_sec = pk_ts_sec p, rh_ts_frac = pk_ts_frac p, rh_caplen = pk_caplen p,
                     rh_origlen = pk_origlen p\<rparr> @ pk_data p"

definition file_image :: "pcap_file_header \<Rightarrow> pcap_packet list \<Rightarrow> bytes" where
  "file_image h ps = header_image h @ concat (map (record_image (needs_swap h)) ps)"

text \<open>Packets as a file can hold them: the captured length is that of the data, and it is not one
  that the reader takes for corruption.\<close>

definition storable :: "pcap_file_header \<Rightarrow> pcap_packet \<Rightarrow> bool" where
  "storable h p \<longleftrightarrow> unat (pk_caplen p) = length (pk_data p) \<and> pk_pkttype p = 0
     \<and> (pk_caplen p \<le> ph_snaplen h \<or> is_nano h \<or> pk_caplen p \<le> 0x1000000)"

lemma savefile_next_record:
  assumes "storable (sr_header r) p" "sr_rest r = record_image (needs_swap (sr_header r)) p @ rest"
  shows "savefile_next r = (Inr (Some p), r\<lparr>sr_rest := rest\<rparr>)"
  using assms
  by (auto simp: savefile_next_parse record_image_def rec_wire.parse_image rec_wire.image_length storable_def Let_def)

lemma savefile_packets_records:
  assumes "\<forall>p\<in>set ps. storable (sr_header r) p"
  shows "savefile_packets (r\<lparr>sr_rest := concat (map (record_image (needs_swap (sr_header r))) ps) @ rest\<rparr>)
    = (let (qs, out) = savefile_packets (r\<lparr>sr_rest := rest\<rparr>) in (ps @ qs, out))"
  using assms
proof (induction ps)
  case (Cons p ps)
  let ?tail = "concat (map (record_image (needs_swap (sr_header r))) ps) @ rest"
  have "savefile_next (r\<lparr>sr_rest := concat (map (record_image (needs_swap (sr_header r))) (p # ps)) @ rest\<rparr>)
      = (Inr (Some p), r\<lparr>sr_rest := ?tail\<rparr>)"
    using savefile_next_record [of "r\<lparr>sr_rest := record_image (needs_swap (sr_header r)) p @ ?tail\<rparr>" p ?tail]
      Cons.prems by simp
  from save_src.exhaust_packet [OF this] Cons show ?case by (simp add: case_prod_beta Let_def)
qed (simp add: case_prod_beta Let_def)

lemma u16_bytes_length [simp]: "length (u16_bytes swap w) = 2"
  by (simp add: u16_bytes_def)

lemma header_image_length [simp]: "length (header_image h) = 24"
  by (simp add: header_image_def Let_def)

lemma rd_u16_front: "rd_u16 swap (u16_bytes swap w @ rest) 0 = w"
  by (auto simp: rd_u16_def u16_bytes_def u16_to_le_def u16_to_be_def u16_from_le_def u16_be_inverse)

lemma rd_u16_append: "length p = n \<Longrightarrow> rd_u16 swap (p @ rest) (n + i) = rd_u16 swap rest i"
  by (auto simp: rd_u16_def nth_append)

lemma savefile_open_image:
  assumes "known_magic h"
  shows "savefile_open (header_image h @ rest) = Inr \<lparr>sr_header = h, sr_rest = rest\<rparr>"
proof -
  let ?s = "needs_swap h"
  let ?m = "u32_to_le (ph_magic h)" and ?a = "u16_bytes ?s (ph_version_major h)"
    and ?b = "u16_bytes ?s (ph_version_minor h)" and ?c = "u32_bytes ?s (ph_thiszone h)"
    and ?d = "u32_bytes ?s (ph_sigfigs h)" and ?e = "u32_bytes ?s (ph_snaplen h)"
    and ?f = "u32_bytes ?s (ph_linktype h)"
  have h: "header_image h = ?m @ ?a @ ?b @ ?c @ ?d @ ?e @ ?f" by (simp add: header_image_def Let_def)
  have magic: "u32_from_le (header_image h ! 0) (header_image h ! 1) (header_image h ! 2) (header_image h ! 3)
      = ph_magic h"
    by (simp add: h u32_to_le_def u32_to_be_def u32_from_le_def u32_be_inverse)
  have fields: "rd_u16 ?s (header_image h) 4 = ph_version_major h" "rd_u16 ?s (header_image h) 6 = ph_version_minor h"
    "rd_u32 ?s (header_image h) 8 = ph_thiszone h" "rd_u32 ?s (header_image h) 12 = ph_sigfigs h"
    "rd_u32 ?s (header_image h) 16 = ph_snaplen h" "rd_u32 ?s (header_image h) 20 = ph_linktype h"
    using rd_u16_append [of ?m 4 ?s "?a @ ?b @ ?c @ ?d @ ?e @ ?f" 0]
      rd_u16_append [of "?m @ ?a" 6 ?s "?b @ ?c @ ?d @ ?e @ ?f" 0]
      rd_u32_append [of "?m @ ?a @ ?b" 8 ?s "?c @ ?d @ ?e @ ?f" 0]
      rd_u32_append [of "?m @ ?a @ ?b @ ?c" 12 ?s "?d @ ?e @ ?f" 0]
      rd_u32_append [of "?m @ ?a @ ?b @ ?c @ ?d" 16 ?s "?e @ ?f" 0]
      rd_u32_append [of "?m @ ?a @ ?b @ ?c @ ?d @ ?e" 20 ?s "?f" 0] rd_u32_front [of ?s "ph_linktype h" "[]"]
    by (simp_all add: h rd_u16_front rd_u32_front)
  have swap: "(ph_magic h = PCAP_MAGIC_NUMBER_BE \<or> ph_magic h = PCAP_MAGIC_NUMBER_NANO_BE) = needs_swap h"
    by (simp add: needs_swap_def)
  have known: "(ph_magic h = PCAP_MAGIC_NUMBER \<or> ph_magic h = PCAP_MAGIC_NUMBER_NANO
      \<or> ph_magic h = PCAP_MAGIC_NUMBER_BE \<or> ph_magic h = PCAP_MAGIC_NUMBER_NANO_BE) = True"
    using assms by (auto simp: known_magic_def)
  show ?thesis
    using known by (simp add: savefile_open_def read_exact_def Let_def magic [simplified] swap fields)
qed

text \<open>C16: A file of any of the four formats (either byte order, microseconds or nanoseconds) opens with
  its header, and reading packets until the end returns exactly the packets stored, in order, without
  an error. If the file is cut inside the record behind them, the packets before the cut are the same;
  a cut inside the data is reported, but a cut inside the 16-byte record header is not: it reads as the
  clean end of the file.\<close>
theorem savefile_reads_image:
  assumes "known_magic h" "\<forall>p\<in>set ps. storable h p" "storable h q" "n < 16 + length (pk_data q)"
  shows "savefile_open (file_image h ps) = Inr \<lparr>sr_header = h, sr_rest = drop 24 (file_image h ps)\<rparr>
    \<and> savefile_packets \<lparr>sr_header = h, sr_rest = drop 24 (file_image h ps)\<rparr> = (ps, None, \<lparr>sr_header = h, sr_rest = []\<rparr>)
    \<and> savefile_open (file_image h ps @ take n (record_image (needs_swap h) q))
        = Inr \<lparr>sr_header = h, sr_rest = drop 24 (file_image h ps) @ take n (record_image (needs_swap h) q)\<rparr>
    \<and> savefile_packets \<lparr>sr_header = h, sr_rest = drop 24 (file_image h ps) @ take n (record_image (needs_swap h) q)\<rparr>
        = (ps, if n < 16 then None else Some UnexpectedEof, \<lparr>sr_header = h, sr_rest = []\<rparr>)"
proof -
  let ?r = "\<lparr>sr_header = h, sr_rest = ([] :: bytes)\<rparr>"
  have recs: "drop 24 (file_image h ps) = concat (map (record_image (needs_swap h)) ps)"
    by (simp add: file_image_def)
  have empty: "savefile_packets ?r = ([], None, ?r)"
    by (rule save_src.exhaust_end) (simp add: savefile_next_parse rec_parse_def)
  have cut: "savefile_packets (?r\<lparr>sr_rest := take n (record_image (needs_swap h) q)\<rparr>)
      = ([], if n < 16 then None else Some UnexpectedEof, ?r)"
  proof (cases "n < 16")
    case True
    then have "savefile_next (?r\<lparr>sr_rest := take n (record_image (needs_swap h) q)\<rparr>) = (Inr None, ?r)"
      by (simp add: savefile_next_parse rec_parse_def min_less_iff_disj)
    from save_src.exhaust_end [OF this] True show ?thesis by simp
  next
    case False
    define rh where "rh = \<lparr>rh_ts_sec = pk_ts_sec q, rh_ts_frac = pk_ts_frac q, rh_caplen = pk_caplen q,
                     rh_origlen = pk_origlen q\<rparr>"
    have img: "take n (record_image (needs_swap h) q)
        = rec_image (needs_swap h) rh @ take (n - 16) (pk_data q)"
      using False by (simp add: record_image_def rh_def rec_wire.image_length)
    have "savefile_next (?r\<lparr>sr_rest := take n (record_image (needs_swap h) q)\<rparr>) = (Inl UnexpectedEof, ?r)"
      unfolding img using False assms(3,4)
      by (auto simp: savefile_next_parse rec_wire.parse_image rec_wire.image_length storable_def rh_def Let_def)
    from save_src.exhaust_error [OF this] False show ?thesis by simp
  qed
  show ?thesis
    using savefile_packets_records [of ps ?r "[]"] savefile_packets_records [of ps ?r "take n (record_image (needs_swap h) q)"]
      savefile_open_image [OF assms(1)] assms(2) empty cut
    by (simp add: recs file_image_def)
qed

theorem savefile_reads_image_witness:
  "savefile_packets \<lparr>sr_header = (pcap_file_header_new 65535 1)\<lparr>ph_magic := PCAP_MAGIC_NUMBER_NANO_BE\<rparr>,
      sr_rest = drop 24 (file_image ((pcap_file_header_new 65535 1)\<lparr>ph_magic := PCAP_MAGIC_NUMBER_NANO_BE\<rparr>)
          [\<lparr>pk_ts_sec = 1, pk_ts_frac = 2, pk_caplen = 3, pk_origlen = 60, pk_pkttype = 0, pk_data = [7, 8, 9]\<rparr>])\<rparr>
   = ([\<lparr>pk_ts_sec = 1, pk_ts_frac = 2, pk_caplen = 3, pk_origlen = 60, pk_pkttype = 0, pk_data = [7, 8, 9]\<rparr>], None,
      \<lparr>sr_header = (pcap_file_header_new 65535 1)\<lparr>ph_magic := PCAP_MAGIC_NUMBER_NANO_BE\<rparr>, sr_rest = []\<rparr>)"
proof -
  let ?h = "(pcap_file_header_new 65535 1)\<lparr>ph_magic := PCAP_MAGIC_NUMBER_NANO_BE\<rparr>"
  let ?p = "\<lparr>pk_ts_sec = 1, pk_ts_frac = 2, pk_caplen = 3, pk_origlen = 60, pk_pkttype = 0, pk_data = [7, 8, 9 :: u8]\<rparr>"
  have "known_magic ?h" by (simp add: known_magic_def)
  moreover have "storable ?h ?p" by (simp add: storable_def is_nano_def)
  ultimately show ?thesis using savefile_reads_image [of ?h "[?p]" ?p 0] by simp
qed

text \<open>What the writer produces.\<close>

definition write_all_packets :: "u32 \<Rightarrow> u32 \<Rightarrow> (u32 \<times> u32 \<times> bytes) list \<Rightarrow> savefile_writer" where
  "write_all_packets snaplen linktype ps =
     fold (\<lambda>(s, f, d). write_packet s f d) ps (savefile_create snaplen linktype)"

text \<open>The packet that a write of \<open>d\<close> stores: the data cut to the snapshot length.\<close>

definition stored_packet :: "u32 \<Rightarrow> u32 \<times> u32 \<times> bytes \<Rightarrow> pcap_packet" where
  "stored_packet snaplen = (\<lambda>(s, f, d).
     \<lparr>pk_ts_sec = s, pk_ts_frac = f, pk_caplen = of_nat (min (length d) (unat snaplen)),
      pk_origlen = of_nat (length d), pk_pkttype = 0, pk_data = take (unat snaplen) d\<rparr>)"

lemma caplen_unat: "unat (of_nat (min n (unat (s :: u32))) :: u32) = min n (unat s)"
proof -
  have "min n (unat s) < 2 ^ LENGTH(32)" using unsigned_less [where 'a = nat, of s] by (simp add: min_less_iff_disj)
  then show ?thesis unfolding unat_of_nat by simp
qed

lemma take_min_length: "take (min (length d) n) d = take n d"
  by (simp add: min_def)

lemma write_packet_image:
  "sw_out (write_packet s f d w) = sw_out w @ record_image False (stored_packet (ph_snaplen (sw_header w)) (s, f, d))"
  "sw_header (write_packet s f d w) = sw_header w"
  by (simp_all add: write_packet_def Let_def record_image_def rec_image_def u32_bytes_def stored_packet_def
      caplen_unat take_min_length)

lemma write_all_image:
  "sw_out (fold (\<lambda>(s, f, d). write_packet s f d) ps w)
     = sw_out w @ concat (map (record_image False) (map (stored_packet (ph_snaplen (sw_header w))) ps))"
  by (induction ps arbitrary: w) (auto simp: write_packet_image)

lemma written_is_image:
  "sw_out (write_all_packets sn lt ps) = file_image (pcap_file_header_new sn lt) (map (stored_packet sn) ps)"
proof -
  have "\<not> needs_swap (pcap_file_header_new sn lt)"
    by (simp add: needs_swap_def pcap_file_header_new_def magics)
  moreover have "sw_out (savefile_create sn lt) = header_image (pcap_file_header_new sn lt)"
    using calculation by (simp add: savefile_create_def header_image_def Let_def u16_bytes_def u32_bytes_def)
  ultimately show ?thesis
    by (simp add: write_all_packets_def write_all_image file_image_def)
       (simp add: savefile_create_def Let_def pcap_file_header_new_def)
qed

lemma stored_storable: "storable (pcap_file_header_new sn lt) (stored_packet sn x)"
proof (cases x)
  case (fields s f d)
  have "(of_nat (min (length d) (unat sn)) :: u32) \<le> sn"
    by (simp add: word_le_nat_alt caplen_unat)
  then show ?thesis
    using fields by (simp add: storable_def stored_packet_def caplen_unat pcap_file_header_new_def min.commute)
qed

lemma new_known: "known_magic (pcap_file_header_new sn lt)"
  by (simp add: known_magic_def pcap_file_header_new_def)

lemma written_reads:
  "savefile_open (sw_out (write_all_packets sn lt ps))
     = Inr \<lparr>sr_header = pcap_file_header_new sn lt,
            sr_rest = concat (map (record_image False) (map (stored_packet sn) ps))\<rparr>"
  "savefile_packets \<lparr>sr_header = pcap_file_header_new sn lt,
       sr_rest = concat (map (record_image False) (map (stored_packet sn) ps))\<rparr>
     = (map (stored_packet sn) ps, None, \<lparr>sr_header = pcap_file_header_new sn lt, sr_rest = []\<rparr>)"
proof -
  let ?h = "pcap_file_header_new sn lt"
  have ns: "needs_swap ?h = False" by (simp add: needs_swap_def pcap_file_header_new_def magics)
  show "savefile_open (sw_out (write_all_packets sn lt ps))
     = Inr \<lparr>sr_header = ?h, sr_rest = concat (map (record_image False) (map (stored_packet sn) ps))\<rparr>"
    by (simp add: written_is_image file_image_def savefile_open_image new_known ns)
  have "savefile_packets \<lparr>sr_header = ?h, sr_rest = []\<rparr> = ([], None, \<lparr>sr_header = ?h, sr_rest = []\<rparr>)"
    by (rule save_src.exhaust_end) (simp add: savefile_next_parse rec_parse_def)
  then show "savefile_packets \<lparr>sr_header = ?h, sr_rest = concat (map (record_image False) (map (stored_packet sn) ps))\<rparr>
     = (map (stored_packet sn) ps, None, \<lparr>sr_header = ?h, sr_rest = []\<rparr>)"
    using savefile_packets_records [of "map (stored_packet sn) ps" "\<lparr>sr_header = ?h, sr_rest = []\<rparr>" "[]"]
      stored_storable [of sn lt] by (auto simp: ns)
qed

text \<open>C4: A file written by \<open>create\<close> and any sequence of \<open>write_packet\<close> opens with the header it was
  created with and reads back as the packets written, in order and without an error: same timestamps,
  data cut to the snapshot length, captured length that of the stored data and original length that of
  the data given (its low 32 bits).\<close>
theorem written_file_reads_back:
  "\<exists>r. savefile_open (sw_out (write_all_packets sn lt ps)) = Inr r
     \<and> sr_header r = pcap_file_header_new sn lt
     \<and> savefile_packets r = (map (stored_packet sn) ps, None, r\<lparr>sr_rest := []\<rparr>)"
  using written_reads [of sn lt ps] by auto

end
