(* ===== verification/Pcap_Raw.thy ===== *)
theory Pcap_Raw
  imports Pcap_Savefile Dnet_Intf
begin

text \<open>
  \<open>wnr-pcap/src/raw.rs\<close>: direction filtering and the Linux packet socket. What the kernel does is a
  parameter carried in the handle: the outcomes of the coming \<open>recvfrom\<close> calls (a frame with its
  \<open>sll_pkttype\<close>, "would block" or an error) and of the coming \<open>sendto\<close> calls. When the outcomes run
  out, a receive would block. The socket's own non-blocking flag is part of the state. Waiting is not
  modelled: on a socket that \<open>set_nonblock(false)\<close> has made blocking, the call that the model answers
  with no packet at the end of the outcomes is one that waits, for as long as no frame arrives.
\<close>

datatype direction = DirIn | DirOut | DirInOut

definition PKT_HOST :: u16 where "PKT_HOST = 0"
definition PKT_BROADCAST :: u16 where "PKT_BROADCAST = 1"
definition PKT_MULTICAST :: u16 where "PKT_MULTICAST = 2"
definition PKT_OTHERHOST :: u16 where "PKT_OTHERHOST = 3"
definition PKT_OUTGOING :: u16 where "PKT_OUTGOING = 4"

definition pkttype_matches_dir :: "u16 \<Rightarrow> direction \<Rightarrow> bool" where
  "pkttype_matches_dir pkttype dir =
     (case dir of DirIn \<Rightarrow> pkttype \<noteq> PKT_OUTGOING | DirOut \<Rightarrow> pkttype = PKT_OUTGOING | DirInOut \<Rightarrow> True)"

datatype recv_result = RecvFrame bytes u8 | RecvWouldBlock | RecvError string

record raw_capture =
  raw_fd :: i32
  raw_ifindex :: i32
  raw_direction :: direction
  raw_buf_len :: nat
  raw_nonblock :: bool
  raw_recvs :: "recv_result list"
  raw_sends :: "(string + nat) list"
  raw_sent :: "bytes list"

text \<open>After the socket calls of \<open>open\<close> have succeeded.\<close>

definition raw_open :: "i32 \<Rightarrow> i32 \<Rightarrow> u32 \<Rightarrow> recv_result list \<Rightarrow> (string + nat) list \<Rightarrow> raw_capture" where
  "raw_open fd ifindex snaplen recvs sends =
     \<lparr>raw_fd = fd, raw_ifindex = ifindex, raw_direction = DirInOut,
      raw_buf_len = max (unat snaplen) 64, raw_nonblock = True,
      raw_recvs = recvs, raw_sends = sends, raw_sent = []\<rparr>"

text \<open>The loop of \<open>next_packet\<close>; a frame longer than the buffer is cut by the kernel.\<close>

fun raw_recv_loop ::
  "direction \<Rightarrow> nat \<Rightarrow> recv_result list \<Rightarrow> (io_error + pcap_packet option) \<times> recv_result list" where
  "raw_recv_loop dir n [] = (Inr None, [])"
| "raw_recv_loop dir n (RecvWouldBlock # es) = (Inr None, es)"
| "raw_recv_loop dir n (RecvError e # es) = (Inl (OtherError e), es)"
| "raw_recv_loop dir n (RecvFrame frame ty # es) =
     (let len = min (length frame) n; pkttype = ucast ty in
      if \<not> pkttype_matches_dir pkttype dir then raw_recv_loop dir n es
      else (Inr (Some \<lparr>pk_ts_sec = 0, pk_ts_frac = 0, pk_caplen = of_nat len, pk_origlen = of_nat len,
                       pk_pkttype = pkttype, pk_data = take len frame\<rparr>), es))"

definition raw_next :: "raw_capture \<Rightarrow> (io_error + pcap_packet option) \<times> raw_capture" where
  "raw_next r =
     (let (out, es) = raw_recv_loop (raw_direction r) (raw_buf_len r) (raw_recvs r)
      in (out, r\<lparr>raw_recvs := es\<rparr>))"

definition raw_set_direction :: "direction \<Rightarrow> raw_capture \<Rightarrow> raw_capture" where
  "raw_set_direction dir r = r\<lparr>raw_direction := dir\<rparr>"

text \<open>\<open>fcntl\<close> is the outcome of the system call that sets the flags.\<close>

definition raw_set_nonblock :: "string option \<Rightarrow> bool \<Rightarrow> raw_capture \<Rightarrow> (io_error + unit) \<times> raw_capture" where
  "raw_set_nonblock fcntl nb r =
     (case fcntl of Some e \<Rightarrow> (Inl (OtherError e), r) | None \<Rightarrow> (Inr (), r\<lparr>raw_nonblock := nb\<rparr>))"

definition raw_send_frame :: "bytes \<Rightarrow> raw_capture \<Rightarrow> (io_error + nat) \<times> raw_capture" where
  "raw_send_frame d r =
     (case raw_sends r of
        [] \<Rightarrow> (Inr (length d), r\<lparr>raw_sent := raw_sent r @ [d]\<rparr>)
      | Inr n # ss \<Rightarrow> (Inr n, r\<lparr>raw_sends := ss, raw_sent := raw_sent r @ [d]\<rparr>)
      | Inl e # ss \<Rightarrow> (Inl (OtherError e), r\<lparr>raw_sends := ss\<rparr>))"

text \<open>Windows: the address that a raw socket for \<open>device\<close> is bound to.\<close>

fun first_ipv4 :: "addr list \<Rightarrow> bytes option" where
  "first_ipv4 [] = None"
| "first_ipv4 (a # as) = (case to_ipv4 a of Some ip \<Rightarrow> Some (v4_octets ip) | None \<Rightarrow> first_ipv4 as)"

fun interface_ipv4 :: "intf_entry list \<Rightarrow> string \<Rightarrow> bytes option" where
  "interface_ipv4 [] device = None"
| "interface_ipv4 (e # es) device =
     (if intf_name e = device then
        (case to_ipv4 (intf_addr e) of
           Some ip \<Rightarrow> Some (v4_octets ip)
         | None \<Rightarrow> (case first_ipv4 (intf_alias_addrs e) of
                     Some o4 \<Rightarrow> Some o4 | None \<Rightarrow> interface_ipv4 es device))
      else interface_ipv4 es device)"

section \<open>The socket as a packet source\<close>

lemma raw_recv_loop_left:
  "raw_recv_loop dir n es = (Inr (Some p), es') \<Longrightarrow> length es' < length es"
  by (induction dir n es arbitrary: rule: raw_recv_loop.induct) (auto simp: Let_def split: if_splits intro: less_SucI)

interpretation raw_src: packet_source raw_next "\<lambda>r. length (raw_recvs r)"
proof
  fix r p r'
  assume "raw_next r = (Inr (Some p), r')"
  then show "length (raw_recvs r') < length (raw_recvs r)"
    by (auto simp: raw_next_def case_prod_beta
        intro!: raw_recv_loop_left [of "raw_direction r" "raw_buf_len r" _ p] prod_eqI)
qed

abbreviation raw_packets :: "raw_capture \<Rightarrow> pcap_packet list \<times> io_error option \<times> raw_capture" where
  "raw_packets \<equiv> exhaust raw_next (\<lambda>r. length (raw_recvs r))"

text \<open>The frames of a run of receives, up to the first that blocks or fails.\<close>

fun frames_ready :: "recv_result list \<Rightarrow> (bytes \<times> u8) list" where
  "frames_ready (RecvFrame f t # es) = (f, t) # frames_ready es"
| "frames_ready _ = []"

definition frame_packet :: "nat \<Rightarrow> bytes \<times> u8 \<Rightarrow> pcap_packet" where
  "frame_packet n = (\<lambda>(f, t). \<lparr>pk_ts_sec = 0, pk_ts_frac = 0, pk_caplen = of_nat (min (length f) n),
     pk_origlen = of_nat (min (length f) n), pk_pkttype = ucast t, pk_data = take n f\<rparr>)"

text \<open>The error, if any, that ends such a run.\<close>

fun frames_error :: "recv_result list \<Rightarrow> io_error option" where
  "frames_error (RecvFrame f t # es) = frames_error es"
| "frames_error (RecvError e # es) = Some (OtherError e)"
| "frames_error _ = None"

lemma raw_next_end:
  "raw_recvs r = [] \<Longrightarrow> raw_next r = (Inr None, r)"
  "raw_recvs r = RecvWouldBlock # es \<Longrightarrow> raw_next r = (Inr None, r\<lparr>raw_recvs := es\<rparr>)"
  "raw_recvs r = RecvError e # es \<Longrightarrow> raw_next r = (Inl (OtherError e), r\<lparr>raw_recvs := es\<rparr>)"
  by (simp_all add: raw_next_def)

lemma raw_packets_run:
  "raw_recvs r = es \<Longrightarrow> raw_packets r =
     (map (frame_packet (raw_buf_len r))
        (filter (\<lambda>(f, t). pkttype_matches_dir (ucast t) (raw_direction r)) (frames_ready es)),
      frames_error es, r\<lparr>raw_recvs := drop (Suc (length (frames_ready es))) es\<rparr>)"
proof (induction es arbitrary: r rule: frames_error.induct)
  case (1 f t es)
  let ?r = "r\<lparr>raw_recvs := es\<rparr>"
  show ?case
  proof (cases "pkttype_matches_dir (ucast t) (raw_direction r)")
    case True
    then have "raw_next r = (Inr (Some (frame_packet (raw_buf_len r) (f, t))), ?r)"
      by (simp add: raw_next_def "1.prems" frame_packet_def take_min_length Let_def)
    from raw_src.exhaust_packet [OF this] "1.IH" [of ?r] True show ?thesis by simp
  next
    case False
    then have "raw_next r = raw_next ?r" by (simp add: raw_next_def "1.prems")
    from raw_src.exhaust_same [OF this] "1.IH" [of ?r] False show ?thesis by simp
  qed
next
  case (2 e es)
  from raw_src.exhaust_error [OF raw_next_end(3) [OF 2]] show ?case by simp
next
  case "3_1"
  from "3_1" have "r\<lparr>raw_recvs := []\<rparr> = r" by simp
  with raw_src.exhaust_end [OF raw_next_end(1) [OF "3_1"]] show ?case by simp
next
  case "3_2"
  from raw_src.exhaust_end [OF raw_next_end(2) [OF "3_2"]] show ?case by simp
qed

lemma raw_packets_frames:
  "fst (raw_packets r) = map (frame_packet (raw_buf_len r))
     (filter (\<lambda>(f, t). pkttype_matches_dir (ucast t) (raw_direction r)) (frames_ready (raw_recvs r)))"
  by (simp add: raw_packets_run [OF refl])

text \<open>Reading a Linux capture until it would block returns the frames received, in order, that
  the direction admits (\<open>In\<close>: not outgoing, \<open>Out\<close>: only outgoing, \<open>InOut\<close>: all), each cut to the
  buffer; the buffer holds the snapshot length but never fewer than 64 bytes, so a capture with a
  smaller snapshot length returns more bytes than asked for, and the length on the wire of a longer
  frame is lost: \<open>origlen\<close> is always the captured length.\<close>
theorem raw_capture_direction:
  "fst (raw_packets (raw_set_direction dir (raw_open fd ifindex snaplen recvs sends)))
     = map (frame_packet (max (unat snaplen) 64))
         (filter (\<lambda>(f, t). case dir of DirIn \<Rightarrow> t \<noteq> 4 | DirOut \<Rightarrow> t = 4 | DirInOut \<Rightarrow> True) (frames_ready recvs))
   \<and> map pk_origlen (fst (raw_packets (raw_set_direction dir (raw_open fd ifindex snaplen recvs sends))))
        = map pk_caplen (fst (raw_packets (raw_set_direction dir (raw_open fd ifindex snaplen recvs sends))))"
proof -
  have t: "(ucast t :: u16) = 4 \<longleftrightarrow> t = 4" for t :: u8
  proof
    assume "(ucast t :: u16) = 4"
    then have "(ucast (ucast t :: u16) :: u8) = ucast (4 :: u16)" by simp
    moreover have "(ucast (ucast t :: u16) :: u8) = t" by (rule bit_word_eqI) (simp add: bit_simps)
    ultimately show "t = 4" by simp
  qed simp
  have f: "(\<lambda>(f, t :: u8). pkttype_matches_dir (ucast t) dir)
      = (\<lambda>(f :: bytes, t :: u8). case dir of DirIn \<Rightarrow> t \<noteq> 4 | DirOut \<Rightarrow> t = 4 | DirInOut \<Rightarrow> True)"
    by (rule ext) (auto simp: pkttype_matches_dir_def PKT_OUTGOING_def t split: direction.splits)
  show ?thesis
    using raw_packets_frames [of "raw_set_direction dir (raw_open fd ifindex snaplen recvs sends)"]
    by (auto simp: raw_set_direction_def raw_open_def f frame_packet_def)
qed

end
