(* ===== verification/Pcap_Backends.thy ===== *)
theory Pcap_Backends
  imports Pcap_Raw
begin

text \<open>
  \<open>wnr-pcap/src/raw.rs\<close>: opening and closing a packet socket on Linux and its statistics, the raw-socket
  back-end for Windows, and the stubs for BSD, macOS and other platforms. The answers of the system calls are arguments; the
  descriptors that the process holds are part of the state, so that what an \<open>open\<close> leaves behind shows.
\<close>

section \<open>Linux: opening, closing, statistics\<close>

text \<open>The answers to \<open>socket\<close> (for a protocol), \<open>if_nametoindex\<close> and \<open>bind\<close> (for a protocol and an
  interface index), the three texts that \<open>last_os_error\<close> gives after one of them has failed (for the last
  two it is read after \<open>close\<close>, so it is the text as \<open>close\<close> leaves it), whether the flags could be set, and
  what the socket will answer once it is open.\<close>

record linux_sys =
  ls_socket :: "i32 \<Rightarrow> i32"
  ls_ifindex :: "string \<Rightarrow> u32"
  ls_bind :: "u16 \<Rightarrow> i32 \<Rightarrow> i32"
  ls_socket_error :: string
  ls_ifindex_error :: string
  ls_bind_error :: string
  ls_setfl :: bool
  ls_recvs :: "recv_result list"
  ls_sends :: "(string + nat) list"

definition raw_open_device ::
  "linux_sys \<Rightarrow> string \<Rightarrow> u32 \<Rightarrow> i32 list \<Rightarrow> (io_error + raw_capture) \<times> i32 list" where
  "raw_open_device sys device snaplen fds =
     (let fd = ls_socket sys 0 in
      if sint fd < 0 then (Inl (OtherError (ls_socket_error sys)), fds)
      else
        (let held = fd # fds in
         if CHR 0x00 \<in> set device then (Inl (OtherError ''bad interface name''), held)
         else
           (let ifindex = ls_ifindex sys device in
            if ifindex = 0 then (Inl (OtherError (ls_ifindex_error sys)), remove1 fd held)
            else if sint (ls_bind sys 0 ifindex) < 0 then (Inl (OtherError (ls_bind_error sys)), remove1 fd held)
            else (Inr ((raw_open fd ifindex snaplen (ls_recvs sys) (ls_sends sys))\<lparr>raw_nonblock := ls_setfl sys\<rparr>), held))))"

definition raw_drop :: "raw_capture \<Rightarrow> i32 list \<Rightarrow> raw_capture \<times> i32 list" where
  "raw_drop r fds =
     (if 0 \<le> sint (raw_fd r) then (r\<lparr>raw_fd := - 1\<rparr>, remove1 (raw_fd r) fds) else (r, fds))"

text \<open>\<open>getsockopt\<close> either fails or writes bytes at the start of the zeroed 64-byte buffer; \<open>little\<close> is the
  byte order of the machine.\<close>

definition raw_poll_stats :: "bool \<Rightarrow> string + bytes \<Rightarrow> io_error + (u64 \<times> u64)" where
  "raw_poll_stats little answer =
     (case answer of
        Inl e \<Rightarrow> Inl (OtherError e)
      | Inr w \<Rightarrow>
          (let raw = take 64 (w @ replicate 64 0);
               packets = native_u32 little (raw ! 0) (raw ! 1) (raw ! 2) (raw ! 3);
               drops = native_u32 little (raw ! 4) (raw ! 5) (raw ! 6) (raw ! 7)
           in Inr (ucast packets, ucast drops)))"

section \<open>Windows: raw IPv4 sockets\<close>

text \<open>The outcomes of coming \<open>recv\<close> calls: a datagram that fits the buffer, with the time since the epoch
  when it was read (none if the clock is before the epoch), "would block", or an error (a datagram that
  does not fit is one).\<close>

datatype win_recv = WinDatagram bytes "(nat \<times> u32) option" | WinWouldBlock | WinRecvError string

record win_capture =
  win_sock :: u64
  win_buf_len :: nat
  win_nonblock :: bool
  win_recvs :: "win_recv list"

text \<open>What the process holds: whether WinSock is started, how often it was started, the open sockets.\<close>

record win_process =
  wp_started :: bool
  wp_startups :: nat
  wp_socks :: "u64 list"

definition ensure_wsa_started :: "win_process \<Rightarrow> win_process" where
  "ensure_wsa_started wp =
     (if wp_started wp then wp else wp\<lparr>wp_started := True, wp_startups := Suc (wp_startups wp)\<rparr>)"

text \<open>The answers to \<open>socket\<close> (none: \<open>INVALID_SOCKET\<close>), \<open>bind\<close> (at an address; a text: the error), and
  whether the two \<open>ioctlsocket\<close> calls succeed.\<close>

record win_sys =
  ws_socket :: "u64 option"
  ws_bind :: "u32 \<Rightarrow> string option"
  ws_rcvall :: bool
  ws_fionbio :: bool
  ws_recvs :: "win_recv list"

definition win_open ::
  "win_sys \<Rightarrow> intf_entry list \<Rightarrow> string \<Rightarrow> u32 \<Rightarrow> bool \<Rightarrow> win_process
     \<Rightarrow> (io_error + win_capture) \<times> win_process" where
  "win_open sys ents device snaplen promisc wp =
     (let wp = ensure_wsa_started wp in
      case interface_ipv4 ents device of
        Some [a, b, c, d] \<Rightarrow>
          (case ws_socket sys of
             None \<Rightarrow> (Inl (OtherError (''cannot open raw socket (is this process running as Administrator?); ''
                                     @ ''live capture without Npcap requires Admin rights'')), wp)
           | Some sock \<Rightarrow>
               (let held = wp\<lparr>wp_socks := sock # wp_socks wp\<rparr>;
                    closed = held\<lparr>wp_socks := remove1 sock (wp_socks held)\<rparr>
                in case ws_bind sys (u32_from_le a b c d) of
                     Some e \<Rightarrow> (Inl (OtherError e), closed)
                   | None \<Rightarrow>
                       if promisc \<and> \<not> ws_rcvall sys
                       then (Inl (OtherError (''SIO_RCVALL failed (raw socket capture-all needs ''
                                            @ ''Administrator privileges)'')), closed)
                       else (Inr \<lparr>win_sock = sock, win_buf_len = max (unat snaplen) 64,
                                  win_nonblock = ws_fionbio sys, win_recvs = ws_recvs sys\<rparr>, held)))
      | _ \<Rightarrow> (Inl (OtherError (''no IPv4 address for interface '' @ [CHR 0x27] @ device @ [CHR 0x27])), wp))"

definition win_next :: "win_capture \<Rightarrow> (io_error + pcap_packet option) \<times> win_capture" where
  "win_next w =
     (case win_recvs w of
        [] \<Rightarrow> (Inr None, w)
      | WinWouldBlock # es \<Rightarrow> (Inr None, w\<lparr>win_recvs := es\<rparr>)
      | WinRecvError e # es \<Rightarrow> (Inl (OtherError e), w\<lparr>win_recvs := es\<rparr>)
      | WinDatagram d clock # es \<Rightarrow>
          (if d = [] then (Inr None, w\<lparr>win_recvs := es\<rparr>)
           else
             (let (secs, micros) = (case clock of Some t \<Rightarrow> t | None \<Rightarrow> (0, 0))
              in (Inr (Some \<lparr>pk_ts_sec = of_nat secs, pk_ts_frac = micros, pk_caplen = of_nat (length d),
                             pk_origlen = of_nat (length d), pk_pkttype = 0, pk_data = d\<rparr>),
                  w\<lparr>win_recvs := es\<rparr>))))"

definition win_set_direction :: "direction \<Rightarrow> win_capture \<Rightarrow> win_capture" where
  "win_set_direction dir w = w"

text \<open>\<open>ioctl\<close> is the outcome of the system call.\<close>

definition win_set_nonblock :: "string option \<Rightarrow> bool \<Rightarrow> win_capture \<Rightarrow> (io_error + unit) \<times> win_capture" where
  "win_set_nonblock ioctl nb w =
     (case ioctl of Some e \<Rightarrow> (Inl (OtherError e), w) | None \<Rightarrow> (Inr (), w\<lparr>win_nonblock := nb\<rparr>))"

definition win_poll_stats :: "win_capture \<Rightarrow> io_error + (u64 \<times> u64)" where
  "win_poll_stats w = Inr (0, 0)"

definition win_send_frame :: "bytes \<Rightarrow> win_capture \<Rightarrow> io_error + nat" where
  "win_send_frame d w = Inl (OtherError ''injection is unsupported on the raw-socket Windows backend'')"

definition win_drop :: "win_capture \<Rightarrow> win_process \<Rightarrow> win_process" where
  "win_drop w wp = wp\<lparr>wp_socks := remove1 (win_sock w) (wp_socks wp)\<rparr>"

section \<open>BSD and macOS, and all other platforms: the stubs\<close>

text \<open>The two stubs differ in the text of their errors.\<close>

definition stub_open :: "string \<Rightarrow> u32 \<Rightarrow> bool \<Rightarrow> i32 \<Rightarrow> io_error + unit" where
  "stub_open device snaplen promisc timeout_ms =
     Inl (OtherError ''live raw capture not implemented on this platform'')"

definition stub_next :: "unit \<Rightarrow> (io_error + pcap_packet option) \<times> unit" where
  "stub_next s = (Inr None, s)"

definition stub_set_direction :: "direction \<Rightarrow> unit \<Rightarrow> unit" where
  "stub_set_direction dir s = s"

definition stub_set_nonblock :: "bool \<Rightarrow> unit \<Rightarrow> (io_error + unit) \<times> unit" where
  "stub_set_nonblock nb s = (Inr (), s)"

definition stub_poll_stats :: "unit \<Rightarrow> io_error + (u64 \<times> u64)" where
  "stub_poll_stats s = Inr (0, 0)"

definition stub_send_frame :: "bytes \<Rightarrow> unit \<Rightarrow> io_error + nat" where
  "stub_send_frame d s = Inl (OtherError ''live raw capture not implemented on this platform'')"

definition other_open :: "string \<Rightarrow> u32 \<Rightarrow> bool \<Rightarrow> i32 \<Rightarrow> io_error + unit" where
  "other_open device snaplen promisc timeout_ms =
     Inl (OtherError ''live capture requires Npcap on this platform'')"

definition other_send_frame :: "bytes \<Rightarrow> unit \<Rightarrow> io_error + nat" where
  "other_send_frame d s = Inl (OtherError ''live capture requires Npcap on this platform'')"

section \<open>The Windows socket as a packet source\<close>

interpretation win_src: packet_source win_next "\<lambda>w. length (win_recvs w)"
proof
  fix w p w'
  assume "win_next w = (Inr (Some p), w')"
  then show "length (win_recvs w') < length (win_recvs w)"
    by (auto simp: win_next_def Let_def split: list.splits win_recv.splits prod.splits if_splits option.splits)
qed

abbreviation win_packets :: "win_capture \<Rightarrow> pcap_packet list \<times> io_error option \<times> win_capture" where
  "win_packets \<equiv> exhaust win_next (\<lambda>w. length (win_recvs w))"

text \<open>The datagrams of a run of receives, up to the first that blocks, fails or is empty, and what
  follows them.\<close>

fun datagrams_ready :: "win_recv list \<Rightarrow> (bytes \<times> (nat \<times> u32) option) list" where
  "datagrams_ready (WinDatagram (b # bs) t # es) = (b # bs, t) # datagrams_ready es"
| "datagrams_ready _ = []"

definition datagram_packet :: "bytes \<times> (nat \<times> u32) option \<Rightarrow> pcap_packet" where
  "datagram_packet = (\<lambda>(d, t). \<lparr>pk_ts_sec = (case t of Some (s, _) \<Rightarrow> of_nat s | None \<Rightarrow> 0),
     pk_ts_frac = (case t of Some (_, u) \<Rightarrow> u | None \<Rightarrow> 0), pk_caplen = of_nat (length d),
     pk_origlen = of_nat (length d), pk_pkttype = 0, pk_data = d\<rparr>)"

lemma win_next_datagram:
  assumes "win_recvs w = WinDatagram (b # bs) t # es"
  shows "win_next w = (Inr (Some (datagram_packet (b # bs, t))), w\<lparr>win_recvs := es\<rparr>)"
  using assms by (auto simp: win_next_def datagram_packet_def split: option.split prod.split)

lemma win_next_end:
  "win_recvs w = [] \<Longrightarrow> win_next w = (Inr None, w)"
  "win_recvs w = WinDatagram [] t # es \<Longrightarrow> win_next w = (Inr None, w\<lparr>win_recvs := es\<rparr>)"
  "win_recvs w = WinWouldBlock # es \<Longrightarrow> win_next w = (Inr None, w\<lparr>win_recvs := es\<rparr>)"
  "win_recvs w = WinRecvError e # es \<Longrightarrow> win_next w = (Inl (OtherError e), w\<lparr>win_recvs := es\<rparr>)"
  by (simp_all add: win_next_def)

text \<open>The error, if any, that ends a run of receives.\<close>

fun receive_error :: "win_recv list \<Rightarrow> io_error option" where
  "receive_error (WinDatagram (b # bs) t # es) = receive_error es"
| "receive_error (WinRecvError e # es) = Some (OtherError e)"
| "receive_error _ = None"

lemma win_packets_run:
  "win_recvs w = es \<Longrightarrow> win_packets w = (map datagram_packet (datagrams_ready es), receive_error es,
     w\<lparr>win_recvs := drop (Suc (length (datagrams_ready es))) es\<rparr>)"
proof (induction es arbitrary: w rule: datagrams_ready.induct)
  case (1 b bs t es)
  from "1.IH" [of "w\<lparr>win_recvs := es\<rparr>"] win_src.exhaust_packet [OF win_next_datagram [OF "1.prems"]]
  show ?case by simp
next
  case "2_1"
  from "2_1" have "w\<lparr>win_recvs := []\<rparr> = w" by simp
  with win_src.exhaust_end [OF win_next_end(1) [OF "2_1"]] show ?case by simp
next
  case "2_2"
  from win_src.exhaust_end [OF win_next_end(2) [OF "2_2"]] show ?case by simp
next
  case "2_3"
  from win_src.exhaust_end [OF win_next_end(3) [OF "2_3"]] show ?case by simp
next
  case "2_4"
  from win_src.exhaust_error [OF win_next_end(4) [OF "2_4"]] show ?case by simp
qed

section \<open>What the back-ends guarantee\<close>

text \<open>Reading a Windows capture to its end returns the datagrams received, in order and whatever the
  direction asked for, each with the time of its receive (0 for a clock before the epoch; the seconds are
  cut to 32 bits). An error ends the run and is reported; an empty datagram ends it as if nothing more had
  arrived, and the datagrams behind it stay for the next run.\<close>
theorem windows_capture_datagrams:
  "win_packets (win_set_direction dir w) =
     (map datagram_packet (datagrams_ready (win_recvs w)), receive_error (win_recvs w),
      w\<lparr>win_recvs := drop (Suc (length (datagrams_ready (win_recvs w)))) (win_recvs w)\<rparr>)"
  by (simp add: win_set_direction_def win_packets_run)

text \<open>C31: Opening a live capture leaks no descriptor: on Windows a failed open leaves the process with the
  sockets it had, a successful one adds the socket of the capture, and dropping the capture takes that
  away again; WinSock is started at the first open and never again. On Linux the same holds, with one
  exception that the code does not handle: a device name with a NUL byte fails after the socket has been
  created, and the descriptor stays open.\<close>
theorem open_releases_descriptors:
  "(case raw_open_device sys device snaplen fds of
     (Inr r, held) \<Rightarrow> held = raw_fd r # fds \<and> snd (raw_drop r held) = fds \<and> raw_buf_len r = max (unat snaplen) 64
   | (Inl _, held) \<Rightarrow>
       held = (if CHR 0x00 \<in> set device \<and> 0 \<le> sint (ls_socket sys 0) then ls_socket sys 0 # fds else fds))
   \<and> (case win_open wsys ents device snaplen promisc wp of
     (out, wp') \<Rightarrow> wp_started wp' \<and> wp_startups wp' = (if wp_started wp then wp_startups wp else Suc (wp_startups wp))
       \<and> (case out of
            Inr w \<Rightarrow> wp_socks wp' = win_sock w # wp_socks wp \<and> wp_socks (win_drop w wp') = wp_socks wp
          | Inl _ \<Rightarrow> wp_socks wp' = wp_socks wp))"
  by (auto simp: raw_open_device_def raw_drop_def raw_open_def win_open_def win_drop_def ensure_wsa_started_def Let_def
      split: list.splits option.splits)

text \<open>The statistics are the two counters of the kernel's record, in the byte order of the machine; an
  answer shorter than a counter counts the missing bytes as 0.\<close>
lemma poll_stats_counters:
  "raw_poll_stats True (Inr (u32_to_le p @ u32_to_le d)) = Inr (ucast p, ucast d)"
  "raw_poll_stats False (Inr (u32_to_be p @ u32_to_be d)) = Inr (ucast p, ucast d)"
  "raw_poll_stats little (Inr []) = Inr (0, 0)"
  by (simp_all add: raw_poll_stats_def native_u32_def u32_to_le_def u32_to_be_def u32_from_le_def
      u32_be_inverse)
    (simp add: Let_def u32_from_le_def u32_from_be_def)

end
