(* ===== verification/Pcap_Sendqueue.thy ===== *)
theory Pcap_Sendqueue
  imports Pcap_Savefile Rust_Text
begin

text \<open>
  \<open>wnr-pcap/src/sendqueue.rs\<close>: the transmission queue, a vector of packets under a byte budget.
\<close>

record sendqueue =
  sq_capacity :: u32
  sq_bytes :: u32
  sq_pkts :: "pcap_packet list"

definition sendqueue_new :: "u32 \<Rightarrow> sendqueue" where
  "sendqueue_new cap = \<lparr>sq_capacity = cap, sq_bytes = 0, sq_pkts = []\<rparr>"

definition saturating_add :: "u32 \<Rightarrow> u32 \<Rightarrow> u32" where
  "saturating_add a b = (if unat a + unat b < 2 ^ 32 then a + b else 0xffffffff)"

definition saturating_sub :: "u32 \<Rightarrow> u32 \<Rightarrow> u32" where
  "saturating_sub a b = (if b \<le> a then a - b else 0)"

text \<open>\<open>self.bytes += need\<close> is the unchecked addition (wrapping in a release build).\<close>

definition sendqueue_add :: "pcap_packet \<Rightarrow> sendqueue \<Rightarrow> (string + unit) \<times> sendqueue" where
  "sendqueue_add p q =
     (let need = (of_nat (length (pk_data p)) :: u32) in
      if saturating_add (sq_bytes q) need > sq_capacity q
      then (Inl (''sendqueue: queue full ('' @ show_radix 10 (unat (sq_bytes q)) @ '' bytes queued + ''
                 @ show_radix 10 (unat need) @ '' requested exceeds capacity ''
                 @ show_radix 10 (unat (sq_capacity q)) @ '')''), q)
      else (Inr (), q\<lparr>sq_bytes := sq_bytes q + need, sq_pkts := sq_pkts q @ [p]\<rparr>))"

definition sendqueue_add_raw :: "u32 \<Rightarrow> u32 \<Rightarrow> bytes \<Rightarrow> sendqueue \<Rightarrow> (string + unit) \<times> sendqueue" where
  "sendqueue_add_raw ts_sec ts_frac d q =
     (let origlen = of_nat (length d); caplen = of_nat (length d) in
      sendqueue_add \<lparr>pk_ts_sec = ts_sec, pk_ts_frac = ts_frac, pk_caplen = caplen, pk_origlen = origlen,
                     pk_pkttype = 0, pk_data = d\<rparr> q)"

definition sendqueue_clear :: "sendqueue \<Rightarrow> sendqueue" where
  "sendqueue_clear q = q\<lparr>sq_pkts := [], sq_bytes := 0\<rparr>"

definition sendqueue_is_empty :: "sendqueue \<Rightarrow> bool" where
  "sendqueue_is_empty q \<longleftrightarrow> sq_pkts q = []"

definition sendqueue_len :: "sendqueue \<Rightarrow> nat" where
  "sendqueue_len q = length (sq_pkts q)"

definition sendqueue_remaining :: "sendqueue \<Rightarrow> u32" where
  "sendqueue_remaining q = saturating_sub (sq_capacity q) (sq_bytes q)"

text \<open>A history of the queue.\<close>

datatype queue_op = QAdd pcap_packet | QAddRaw u32 u32 bytes | QClear

fun queue_step :: "queue_op \<Rightarrow> sendqueue \<Rightarrow> sendqueue" where
  "queue_step (QAdd p) q = snd (sendqueue_add p q)"
| "queue_step (QAddRaw s f d) q = snd (sendqueue_add_raw s f d q)"
| "queue_step QClear q = sendqueue_clear q"

definition queue_total :: "sendqueue \<Rightarrow> nat" where
  "queue_total q = sum_list (map (length \<circ> pk_data) (sq_pkts q))"

definition queue_ok :: "sendqueue \<Rightarrow> bool" where
  "queue_ok q \<longleftrightarrow> unat (sq_bytes q) = queue_total q \<and> queue_total q \<le> unat (sq_capacity q)"

fun op_small :: "queue_op \<Rightarrow> bool" where
  "op_small (QAdd p) = (length (pk_data p) < 2 ^ 32)"
| "op_small (QAddRaw s f d) = (length d < 2 ^ 32)"
| "op_small QClear = True"

lemma sendqueue_add_ok:
  assumes "queue_ok q" "length (pk_data p) < 2 ^ 32" "sq_capacity q \<noteq> 0xffffffff"
  shows "queue_ok (snd (sendqueue_add p q)) \<and> sq_capacity (snd (sendqueue_add p q)) = sq_capacity q
    \<and> (fst (sendqueue_add p q) = Inr () \<longleftrightarrow> queue_total q + length (pk_data p) \<le> unat (sq_capacity q))"
proof -
  let ?n = "of_nat (length (pk_data p)) :: u32"
  have n: "unat ?n = length (pk_data p)" unfolding unat_of_nat using assms(2) by simp
  have cap: "unat (sq_capacity q) < 0xffffffff"
  proof -
    have "unat (sq_capacity q) \<noteq> unat (0xffffffff :: u32)" using assms(3) word_unat_eq_iff by blast
    moreover have "unat (sq_capacity q) < 2 ^ LENGTH(32)" by (rule unsigned_less)
    ultimately show ?thesis by simp
  qed
  have sum: "unat (sq_bytes q) + unat ?n < 2 ^ 32 \<Longrightarrow> unat (sq_bytes q + ?n) = unat (sq_bytes q) + unat ?n"
    by (simp add: unat_add_lem [symmetric])
  have full: "saturating_add (sq_bytes q) ?n > sq_capacity q \<longleftrightarrow> unat (sq_capacity q) < queue_total q + length (pk_data p)"
    using assms(1) cap sum by (auto simp: saturating_add_def word_less_nat_alt n queue_ok_def)
  have fits: "unat (sq_bytes q) + unat ?n < 2 ^ 32" if "\<not> unat (sq_capacity q) < queue_total q + length (pk_data p)"
    using that assms(1) cap by (simp add: n queue_ok_def)
  show ?thesis
    using assms(1) full fits sum
    by (auto simp: sendqueue_add_def Let_def queue_ok_def queue_total_def n not_less)
qed

lemma queue_step_ok:
  assumes "queue_ok q" "op_small a" "sq_capacity q \<noteq> 0xffffffff"
  shows "queue_ok (queue_step a q) \<and> sq_capacity (queue_step a q) = sq_capacity q"
proof (cases a)
  case (QAdd p)
  with assms sendqueue_add_ok [of q p] show ?thesis by simp
next
  case (QAddRaw s f d)
  with assms sendqueue_add_ok [where q = q] show ?thesis by (simp add: sendqueue_add_raw_def Let_def)
next
  case QClear
  then show ?thesis by (simp add: sendqueue_clear_def queue_ok_def queue_total_def)
qed

text \<open>C32: Under a capacity below \<open>u32::MAX\<close> and with packets of fewer than \<open>2^32\<close> bytes, after any
  history of \<open>add\<close>, \<open>add_raw\<close> and \<open>clear\<close> the byte counter is the total of the staged packets and
  within the capacity, and the next \<open>add\<close> succeeds exactly when its packet fits in what remains.\<close>
theorem sendqueue_budget:
  assumes "list_all op_small ops" "cap \<noteq> 0xffffffff" "length (pk_data p) < 2 ^ 32"
  shows "queue_ok (fold queue_step ops (sendqueue_new cap))
    \<and> (fst (sendqueue_add p (fold queue_step ops (sendqueue_new cap))) = Inr ()
        \<longleftrightarrow> length (pk_data p) \<le> unat (sendqueue_remaining (fold queue_step ops (sendqueue_new cap))))"
proof -
  have "queue_ok q \<Longrightarrow> sq_capacity q = cap \<Longrightarrow> list_all op_small os \<Longrightarrow>
      queue_ok (fold queue_step os q) \<and> sq_capacity (fold queue_step os q) = cap" for os q
  proof (induction os arbitrary: q)
    case (Cons a os)
    then have "queue_ok (queue_step a q) \<and> sq_capacity (queue_step a q) = cap"
      using queue_step_ok [of q a] assms(2) by simp
    with Cons show ?case by simp
  qed simp
  moreover have "queue_ok (sendqueue_new cap)" "sq_capacity (sendqueue_new cap) = cap"
    by (simp_all add: sendqueue_new_def queue_ok_def queue_total_def)
  ultimately have q: "queue_ok (fold queue_step ops (sendqueue_new cap))"
      "sq_capacity (fold queue_step ops (sendqueue_new cap)) = cap"
    using assms(1) by blast+
  let ?q = "fold queue_step ops (sendqueue_new cap)"
  have "sq_bytes ?q \<le> sq_capacity ?q" using q(1) by (simp add: queue_ok_def word_le_nat_alt)
  then have "unat (sendqueue_remaining ?q) = unat (sq_capacity ?q) - queue_total ?q"
    using q(1) by (simp add: sendqueue_remaining_def saturating_sub_def queue_ok_def unat_sub)
  then show ?thesis
    using sendqueue_add_ok [OF q(1) assms(3)] q assms(2) by (auto simp: queue_ok_def)
qed

theorem sendqueue_budget_witness:
  "fst (sendqueue_add \<lparr>pk_ts_sec = 0, pk_ts_frac = 0, pk_caplen = 2, pk_origlen = 2, pk_pkttype = 0, pk_data = [1, 2]\<rparr>
      (fold queue_step [QAddRaw 0 0 [9, 9, 9]] (sendqueue_new 4))) \<noteq> Inr ()"
proof -
  let ?p = "\<lparr>pk_ts_sec = 0, pk_ts_frac = 0, pk_caplen = 2, pk_origlen = 2, pk_pkttype = 0, pk_data = [1, 2 :: u8]\<rparr>"
  have "sendqueue_remaining (fold queue_step [QAddRaw 0 0 [9, 9, 9]] (sendqueue_new 4)) = 1"
    by (simp add: sendqueue_new_def sendqueue_add_raw_def sendqueue_add_def saturating_add_def
        sendqueue_remaining_def saturating_sub_def)
  then show ?thesis
    using sendqueue_budget [of "[QAddRaw 0 0 [9, 9, 9]]" 4 ?p] by simp
qed

text \<open>The check saturates but the counter does not: with a capacity of \<open>u32::MAX\<close> every packet
  is accepted, and once the bytes pass \<open>2^32\<close> the counter wraps (an overflow panic in a debug build)
  and says less than is queued.\<close>
theorem sendqueue_counter_wraps:
  assumes "sq_capacity q = 0xffffffff" "2 ^ 32 \<le> unat (sq_bytes q) + length (pk_data p)" "length (pk_data p) < 2 ^ 32"
  shows "fst (sendqueue_add p q) = Inr () \<and> sq_pkts (snd (sendqueue_add p q)) = sq_pkts q @ [p]
    \<and> unat (sq_bytes (snd (sendqueue_add p q))) = unat (sq_bytes q) + length (pk_data p) - 2 ^ 32"
proof -
  have n: "unat (of_nat (length (pk_data p)) :: u32) = length (pk_data p)"
    unfolding unat_of_nat using assms(3) by simp
  have "\<not> (0xffffffff :: u32) < saturating_add a b" for a b
  proof -
    have "unat (saturating_add a b) < 2 ^ LENGTH(32)" by (rule unsigned_less)
    then show ?thesis by (simp add: word_less_nat_alt not_less)
  qed
  moreover have "unat (sq_bytes q + of_nat (length (pk_data p))) = unat (sq_bytes q) + length (pk_data p) - 2 ^ 32"
  proof -
    have "unat (sq_bytes q) < 2 ^ 32" using unsigned_less [where 'a = nat, of "sq_bytes q"] by simp
    then show ?thesis
      using assms(2,3) n by (simp add: unat_word_ariths mod_if)
  qed
  ultimately show ?thesis using assms(1) by (simp add: sendqueue_add_def Let_def)
qed

theorem sendqueue_counter_wraps_witness:
  "sq_bytes (snd (sendqueue_add
      \<lparr>pk_ts_sec = 0, pk_ts_frac = 0, pk_caplen = 1, pk_origlen = 1, pk_pkttype = 0, pk_data = [1]\<rparr>
      \<lparr>sq_capacity = 0xffffffff, sq_bytes = 0xffffffff, sq_pkts = []\<rparr>)) = 0"
proof -
  let ?p = "\<lparr>pk_ts_sec = 0, pk_ts_frac = 0, pk_caplen = 1, pk_origlen = 1, pk_pkttype = 0, pk_data = [1 :: u8]\<rparr>"
  let ?q = "\<lparr>sq_capacity = 0xffffffff, sq_bytes = 0xffffffff, sq_pkts = []\<rparr>"
  have "unat (sq_bytes (snd (sendqueue_add ?p ?q))) = 0"
    using sendqueue_counter_wraps [of ?q ?p] by simp
  then show ?thesis by (simp add: unat_eq_0)
qed

end
