(* ===== verification/Pcap_Filter.thy ===== *)
theory Pcap_Filter
  imports Pcap_Bpf Rust_Text
begin

text \<open>
  \<open>wnr-pcap/src/bpf.rs\<close>, the filter language: tokenizer, parser, code generator and \<open>compile\<close>; and the
  predicate on packets that each primitive compiles to.
\<close>

section \<open>Parsing\<close>

datatype filter_prim =
  Proto u32 | Port u16 | PortRange u16 u16 | HostIpv4 ipv4_addr | Broadcast | Multicast | All

record filter_builder =
  fb_tokens :: "string list"
  fb_pos :: nat

definition tokenize_word :: "string \<Rightarrow> string list" where
  "tokenize_word w =
     (if CHR ''-'' \<in> set w \<and> (\<forall>p\<in>set (split_on (CHR ''-'') w). parse_u16 p \<noteq> None)
      then (let parts = split_on (CHR ''-'') w in [parts ! 0, ''-'', parts ! 1])
      else [w])"

definition tokenize :: "string \<Rightarrow> string list" where
  "tokenize expr = concat (map tokenize_word (split_whitespace expr))"

definition next_token :: "filter_builder \<Rightarrow> string option \<times> filter_builder" where
  "next_token fb =
     (if fb_pos fb < length (fb_tokens fb)
      then (Some (fb_tokens fb ! fb_pos fb), fb\<lparr>fb_pos := fb_pos fb + 1\<rparr>)
      else (None, fb))"

definition quoted :: "string \<Rightarrow> string \<Rightarrow> string" where
  "quoted msg s = msg @ '' '' @ [CHR 0x27] @ s @ [CHR 0x27]"

definition parse_port :: "string \<Rightarrow> string \<Rightarrow> string + u16" where
  "parse_port msg p = (case parse_u16 p of Some n \<Rightarrow> Inr n | None \<Rightarrow> Inl (quoted msg p))"

definition parse_primitive :: "filter_builder \<Rightarrow> (string + filter_prim) \<times> filter_builder" where
  "parse_primitive fb =
     (case next_token fb of
        (None, fb) \<Rightarrow> (Inl ''empty filter'', fb)
      | (Some tok, fb) \<Rightarrow>
          (let lower = to_ascii_lowercase tok in
           if lower = ''tcp'' then (Inr (Proto 6), fb)
           else if lower = ''udp'' then (Inr (Proto 17), fb)
           else if lower = ''icmp'' then (Inr (Proto 1), fb)
           else if lower = ''icmp6'' \<or> lower = ''icmpv6'' then (Inr (Proto 58), fb)
           else if lower = ''arp'' then (Inr (Proto 0x0806), fb)
           else if lower = ''ip'' then (Inr (Proto 0x0800), fb)
           else if lower = ''ip6'' \<or> lower = ''ipv6'' then (Inr (Proto 0x86dd), fb)
           else if lower = ''broadcast'' then (Inr Broadcast, fb)
           else if lower = ''multicast'' then (Inr Multicast, fb)
           else if lower = ''port'' then
             (case next_token fb of
                (None, fb) \<Rightarrow> (Inl ''missing port number'', fb)
              | (Some p, fb) \<Rightarrow> (map_sum id Port (parse_port ''invalid port'' p), fb))
           else if lower = ''portrange'' then
             (case next_token fb of
                (None, fb) \<Rightarrow> (Inl ''missing portrange start'', fb)
              | (Some a, fb) \<Rightarrow>
                  (case next_token fb of
                     (None, fb) \<Rightarrow> (Inl ''missing portrange end'', fb)
                   | (Some b, fb) \<Rightarrow>
                       ((case parse_port ''bad port'' a of
                           Inl e \<Rightarrow> Inl e
                         | Inr pa \<Rightarrow> map_sum id (PortRange pa) (parse_port ''bad port'' b)), fb)))
           else if lower = ''host'' then
             (case next_token fb of
                (None, fb) \<Rightarrow> (Inl ''missing host address'', fb)
              | (Some h, fb) \<Rightarrow>
                  ((case parse_ipv4 h of Some ip \<Rightarrow> Inr (HostIpv4 ip)
                    | None \<Rightarrow> Inl (quoted ''invalid host'' h)), fb))
           else (Inl (quoted ''unknown filter primitive'' lower), fb)))"

section \<open>Code generation\<close>

definition load_insn :: "u8 \<Rightarrow> u8 \<Rightarrow> u32 \<Rightarrow> bpf_insn" where
  "load_insn cls sz k = bpf_insn_new (ucast cls OR ucast sz OR ucast BPF_ABS) 0 0 k"

definition jmp_insn :: "u8 \<Rightarrow> u32 \<Rightarrow> u8 \<Rightarrow> u8 \<Rightarrow> bpf_insn" where
  "jmp_insn jop k jt jf = bpf_insn_new (ucast BPF_JMP OR ucast jop) jt jf k"

definition ret_insn :: "u32 \<Rightarrow> bpf_insn" where
  "ret_insn k = bpf_insn_new (ucast BPF_RET OR ucast BPF_K) 0 0 k"

definition compile_primitive :: "filter_prim \<Rightarrow> i32 \<Rightarrow> string + bpf_insn list" where
  "compile_primitive p linktype =
     (let ip_hdr = (of_nat (link_header_len linktype) :: u32); ethertype_offset = 12 in
      case p of
        All \<Rightarrow> Inr [ret_insn BPF_ACCEPT]
      | Proto proto \<Rightarrow>
          (if proto = 0x0806 \<or> proto = 0x0800 \<or> proto = 0x86dd then
             Inr [load_insn BPF_LD BPF_H ethertype_offset, jmp_insn BPF_JEQ proto 1 0,
                  ret_insn BPF_REJECT, ret_insn BPF_ACCEPT]
           else
             Inr [load_insn BPF_LD BPF_B (ip_hdr + 9), jmp_insn BPF_JEQ proto 1 0,
                  ret_insn BPF_REJECT, ret_insn BPF_ACCEPT])
      | Port _ \<Rightarrow> Inr [ret_insn BPF_ACCEPT]
      | PortRange _ _ \<Rightarrow> Inr [ret_insn BPF_ACCEPT]
      | HostIpv4 ip \<Rightarrow>
          (let target = (case v4_octets ip of [a, b, c, d] \<Rightarrow> u32_from_be a b c d | _ \<Rightarrow> 0) in
           Inr [load_insn BPF_LD BPF_W (ip_hdr + 16), jmp_insn BPF_JEQ target 1 0,
                ret_insn BPF_REJECT, ret_insn BPF_ACCEPT,
                load_insn BPF_LD BPF_W (ip_hdr + 12), jmp_insn BPF_JEQ target 1 0,
                ret_insn BPF_REJECT, ret_insn BPF_ACCEPT])
      | Broadcast \<Rightarrow>
          Inr [load_insn BPF_LD BPF_W (ip_hdr + 16), jmp_insn BPF_JEQ 0xffffffff 1 0,
               ret_insn BPF_REJECT, ret_insn BPF_ACCEPT]
      | Multicast \<Rightarrow>
          Inr [load_insn BPF_LD BPF_B (ip_hdr + 16), jmp_insn BPF_JGE 224 0 1,
               jmp_insn BPF_JGT 239 0 1, ret_insn BPF_REJECT, ret_insn BPF_ACCEPT])"

definition filter_compile :: "string \<Rightarrow> i32 \<Rightarrow> string + bpf_insn list" where
  "filter_compile expr linktype =
     (let tokens = tokenize expr in
      if tokens = [] then Inr [ret_insn BPF_ACCEPT]
      else (case fst (parse_primitive \<lparr>fb_tokens = tokens, fb_pos = 0\<rparr>) of
              Inl e \<Rightarrow> Inl e
            | Inr prim \<Rightarrow>
                (case compile_primitive prim linktype of
                   Inl e \<Rightarrow> Inl e
                 | Inr insns \<Rightarrow> Inr (insns @ [ret_insn BPF_ACCEPT]))))"

section \<open>What a primitive accepts\<close>

text \<open>The test that the generated code makes on the packet (how it relates to the meaning of the primitive
  is the subject of a section of its own below). The \<open>n\<close> bytes at an offset, when they are all inside the packet.\<close>

definition field :: "nat \<Rightarrow> nat \<Rightarrow> bytes \<Rightarrow> bytes option" where
  "field off n pkt = (if off + n \<le> length pkt then Some (slice off (off + n) pkt) else None)"

fun prim_accepts :: "i32 \<Rightarrow> filter_prim \<Rightarrow> bytes \<Rightarrow> bool" where
  "prim_accepts lt All pkt = True"
| "prim_accepts lt (Port _) pkt = True"
| "prim_accepts lt (PortRange _ _) pkt = True"
| "prim_accepts lt (Proto p) pkt =
     (if p = 0x0806 \<or> p = 0x0800 \<or> p = 0x86dd then field 12 2 pkt = Some (u16_to_be (ucast p))
      else (case field (link_header_len lt + 9) 1 pkt of Some [b] \<Rightarrow> ucast b = p | _ \<Rightarrow> False))"
| "prim_accepts lt (HostIpv4 ip) pkt = (field (link_header_len lt + 16) 4 pkt = Some (v4_octets ip))"
| "prim_accepts lt Broadcast pkt = (field (link_header_len lt + 16) 4 pkt = Some [255, 255, 255, 255])"
| "prim_accepts lt Multicast pkt =
     (case field (link_header_len lt + 16) 1 pkt of Some [b] \<Rightarrow> 224 \<le> b \<and> b \<le> 239 | _ \<Rightarrow> False)"

section \<open>Running generated code\<close>

lemma ucast_and_8 [simp]: "(ucast ((w :: u16) AND m) :: u8) = ucast w AND ucast m"
  by (rule bit_word_eqI) (auto simp: bit_simps)

lemma loop_ret:
  assumes "pc < length prog" "prog ! pc = ret_insn k"
  shows "bpf_loop prog pkt pc vm = Some k"
  using assms by (subst bpf_loop.simps) (simp add: ret_insn_def bpf_insn_new_def bpf_step_def bpf_ops)

lemma loop_load:
  assumes "pc < length prog" "prog ! pc = load_insn BPF_LD sz k" "sz = BPF_W \<or> sz = BPF_H \<or> sz = BPF_B"
  shows "bpf_loop prog pkt pc vm =
    (case bpf_load pkt (of_nat (length pkt)) k sz of
       None \<Rightarrow> Some 0 | Some v \<Rightarrow> bpf_loop prog pkt (Suc pc) (vm\<lparr>vm_acc := v\<rparr>))"
  using assms
  by (subst bpf_loop.simps)
     (auto simp: load_insn_def bpf_insn_new_def bpf_step_def bpf_step_load_def bpf_set_reg_def bpf_ops
       split: option.splits)

lemma loop_jump:
  assumes "pc < length prog" "pc + 256 < 2 ^ 32"
  shows "prog ! pc = jmp_insn BPF_JEQ k jt jf \<Longrightarrow>
      bpf_loop prog pkt pc vm = bpf_loop prog pkt (pc + unat (if vm_acc vm = k then jt else jf) + 1) vm"
    and "prog ! pc = jmp_insn BPF_JGE k jt jf \<Longrightarrow>
      bpf_loop prog pkt pc vm = bpf_loop prog pkt (pc + unat (if k \<le> vm_acc vm then jt else jf) + 1) vm"
    and "prog ! pc = jmp_insn BPF_JGT k jt jf \<Longrightarrow>
      bpf_loop prog pkt pc vm = bpf_loop prog pkt (pc + unat (if k < vm_acc vm then jt else jf) + 1) vm"
  using assms cond_target [OF assms(2), of jt] cond_target [OF assms(2), of jf]
  by (subst bpf_loop.simps; simp add: jmp_insn_def bpf_insn_new_def bpf_step_def bpf_step_jump_def bpf_ops)+

lemmas run_code = loop_ret loop_load loop_jump

lemma field_some: "field i n pkt = Some bs \<Longrightarrow> length bs = n"
  by (auto simp: field_def split: if_splits)

lemma slice_one: "i < length pkt \<Longrightarrow> slice i (Suc i) pkt = [pkt ! i]"
  by (simp add: slice_def take_Suc_conv_app_nth)

lemma slice_step: "i < length pkt \<Longrightarrow> i < j \<Longrightarrow> slice i j pkt = pkt ! i # slice (Suc i) j pkt"
  by (simp add: slice_def take_Cons' Suc_diff_Suc flip: Cons_nth_drop_Suc)

text \<open>A successful load is the big-endian value of the field, and it fails exactly when the field is
  not inside the packet.\<close>

lemma load_field:
  assumes "length pkt < 2 ^ 32"
  shows "bpf_load pkt (of_nat (length pkt)) k BPF_B = map_option (\<lambda>bs. ucast (bs ! 0)) (field (unat k) 1 pkt)"
    and "bpf_load pkt (of_nat (length pkt)) k BPF_H
           = map_option (\<lambda>bs. ucast (u16_from_be (bs ! 0) (bs ! 1))) (field (unat k) 2 pkt)"
    and "bpf_load pkt (of_nat (length pkt)) k BPF_W
           = map_option (\<lambda>bs. u32_from_be (bs ! 0) (bs ! 1) (bs ! 2) (bs ! 3)) (field (unat k) 4 pkt)"
proof -
  have l: "unat (of_nat (length pkt) :: u32) = length pkt"
    unfolding unat_of_nat using assms by simp
  show "bpf_load pkt (of_nat (length pkt)) k BPF_B = map_option (\<lambda>bs. ucast (bs ! 0)) (field (unat k) 1 pkt)"
    by (auto simp: bpf_load_def field_def bpf_mode l slice_step)
  show "bpf_load pkt (of_nat (length pkt)) k BPF_H
           = map_option (\<lambda>bs. ucast (u16_from_be (bs ! 0) (bs ! 1))) (field (unat k) 2 pkt)"
    by (auto simp: bpf_load_def field_def bpf_mode slice_step Let_def)
  show "bpf_load pkt (of_nat (length pkt)) k BPF_W
           = map_option (\<lambda>bs. u32_from_be (bs ! 0) (bs ! 1) (bs ! 2) (bs ! 3)) (field (unat k) 4 pkt)"
    by (auto simp: bpf_load_def field_def bpf_mode slice_step eval_nat_numeral Let_def)
qed

lemma hdr_offset:
  assumes "n \<le> 16"
  shows "unat (of_nat (link_header_len lt) + of_nat n :: u32) = link_header_len lt + n"
  using link_header_len_le [of lt] assms unfolding of_nat_add [symmetric] unat_of_nat by simp

lemma four_bytes_eq:
  "length bs = 4 \<Longrightarrow> u32_from_be (bs ! 0) (bs ! 1) (bs ! 2) (bs ! 3) = u32_from_be a b c d \<longleftrightarrow> bs = [a, b, c, d]"
proof
  assume l: "length bs = 4" and e: "u32_from_be (bs ! 0) (bs ! 1) (bs ! 2) (bs ! 3) = u32_from_be a b c d"
  from l obtain w x y z where b: "bs = [w, x, y, z]"
    by (auto simp: length_Suc_conv numeral_eq_Suc)
  show "bs = [a, b, c, d]"
    using arg_cong [OF e, of u32_to_be] by (simp add: b u32_be_bytes)
qed simp

lemma ucast_up_down: "(ucast (ucast (w :: u16) :: u32) :: u16) = w"
  by (rule bit_word_eqI) (simp add: bit_simps)

lemma two_bytes_eq:
  assumes "length bs = 2"
  shows "(ucast (u16_from_be (bs ! 0) (bs ! 1)) :: u32) = ucast (w :: u16) \<longleftrightarrow> bs = u16_to_be w"
proof -
  from assms obtain x y where b: "bs = [x, y]" by (auto simp: length_Suc_conv numeral_eq_Suc)
  have "(ucast (u16_from_be x y) :: u32) = ucast w \<longleftrightarrow> u16_from_be x y = w"
    by (metis ucast_up_down)
  also have "\<dots> \<longleftrightarrow> [x, y] = u16_to_be w"
    using u16_be_bytes [of x y] u16_be_inverse [of w] by (auto simp: u16_to_be_def)
  finally show ?thesis by (simp add: b)
qed

lemma run_two_way:
  assumes "code = load_insn BPF_LD sz k # jmp_insn BPF_JEQ v 1 0 # ret_insn BPF_REJECT # ret_insn BPF_ACCEPT # rest"
    and "sz = BPF_W \<or> sz = BPF_H \<or> sz = BPF_B"
  shows "bpf_run code pkt = Some (if bpf_load pkt (of_nat (length pkt)) k sz = Some v then BPF_ACCEPT else BPF_REJECT)"
  using assms by (auto simp: bpf_run_def run_code BPF_REJECT_def split: option.splits)

lemma run_range:
  assumes "code = load_insn BPF_LD BPF_B k # jmp_insn BPF_JGE lo 0 1 # jmp_insn BPF_JGT hi 0 1
      # ret_insn BPF_REJECT # ret_insn BPF_ACCEPT # rest"
  shows "bpf_run code pkt = Some (case bpf_load pkt (of_nat (length pkt)) k BPF_B of
       Some v \<Rightarrow> if lo \<le> v \<and> v \<le> hi then BPF_ACCEPT else BPF_REJECT | None \<Rightarrow> BPF_REJECT)"
  using assms by (auto simp: bpf_run_def run_code BPF_REJECT_def split: option.splits)

lemma unat_ucast_up: "unat (ucast (b :: u8) :: u32) = unat b"
proof -
  have "unat b < 2 ^ LENGTH(32)" by (rule order_less_trans [OF unat_u8]) simp
  then show ?thesis by (simp only: unsigned_ucast_eq take_bit_nat_eq_self)
qed

lemma compile_primitive_runs:
  assumes "length pkt < 2 ^ 32"
  shows "\<exists>code. compile_primitive p lt = Inr code
     \<and> bpf_run (code @ [ret_insn BPF_ACCEPT]) pkt = Some (if prim_accepts lt p pkt then BPF_ACCEPT else BPF_REJECT)"
proof (cases p)
  case (Proto q)
  note off = hdr_offset [of 9 lt, simplified] and ld = load_field [OF assms]
  show ?thesis
  proof (cases "q = 0x0806 \<or> q = 0x0800 \<or> q = 0x86dd")
    case True
    then have q: "q = ucast (ucast q :: u16)" by auto
    define w where "w = (ucast q :: u16)"
    have "bpf_load pkt (of_nat (length pkt)) 12 BPF_H = Some (ucast w) \<longleftrightarrow> field 12 2 pkt = Some (u16_to_be w)"
      using two_bytes_eq [where w = w]
      by (cases "field 12 2 pkt") (auto simp: ld dest: field_some)
    then have "bpf_load pkt (of_nat (length pkt)) 12 BPF_H = Some q \<longleftrightarrow> field 12 2 pkt = Some (u16_to_be (ucast q))"
      using q by (simp add: w_def)
    with True Proto show ?thesis
      by (auto simp: compile_primitive_def Let_def run_two_way [OF refl])
  next
    case False
    have "bpf_load pkt (of_nat (length pkt)) (of_nat (link_header_len lt) + 9) BPF_B = Some q
        \<longleftrightarrow> (case field (link_header_len lt + 9) 1 pkt of Some [b] \<Rightarrow> ucast b = q | _ \<Rightarrow> False)"
      by (auto simp: ld off length_Suc_conv split: option.splits list.splits dest: field_some)
    with False Proto show ?thesis
      by (auto simp: compile_primitive_def Let_def run_two_way [OF refl])
  qed
next
  case (HostIpv4 ip)
  obtain a b c d where ip: "ip = Ipv4Addr a b c d" by (cases ip)
  have "bpf_load pkt (of_nat (length pkt)) (of_nat (link_header_len lt) + 16) BPF_W = Some (u32_from_be a b c d)
      \<longleftrightarrow> field (link_header_len lt + 16) 4 pkt = Some [a, b, c, d]"
    using hdr_offset [of 16 lt] four_bytes_eq
    by (cases "field (link_header_len lt + 16) 4 pkt") (auto simp: load_field [OF assms] dest: field_some)
  with HostIpv4 ip show ?thesis by (auto simp: compile_primitive_def Let_def run_two_way [OF refl])
next
  case Broadcast
  have ff: "(0xffffffff :: u32) = u32_from_be 255 255 255 255" by code_simp
  have "bpf_load pkt (of_nat (length pkt)) (of_nat (link_header_len lt) + 16) BPF_W = Some 0xffffffff
      \<longleftrightarrow> field (link_header_len lt + 16) 4 pkt = Some [255, 255, 255, 255]"
    unfolding ff using hdr_offset [of 16 lt] four_bytes_eq
    by (cases "field (link_header_len lt + 16) 4 pkt") (auto simp: load_field [OF assms] dest: field_some)
  with Broadcast show ?thesis by (auto simp: compile_primitive_def Let_def run_two_way [OF refl])
next
  case Multicast
  have "224 \<le> (ucast b :: u32) \<and> ucast b \<le> (239 :: u32) \<longleftrightarrow> 224 \<le> b \<and> b \<le> 239" for b :: u8
    by (simp add: word_le_nat_alt unat_ucast_up)
  with Multicast show ?thesis
    using hdr_offset [of 16 lt]
    by (auto simp: compile_primitive_def Let_def run_range [OF refl] load_field [OF assms] length_Suc_conv
        split: option.splits list.splits dest: field_some)
qed (auto simp: compile_primitive_def bpf_run_def run_code)

lemma filter_compile_runs:
  assumes "length pkt < 2 ^ 32"
  shows "case filter_compile expr lt of
      Inl e \<Rightarrow> tokenize expr \<noteq> [] \<and> fst (parse_primitive \<lparr>fb_tokens = tokenize expr, fb_pos = 0\<rparr>) = Inl e
    | Inr prog \<Rightarrow> bpf_filter prog pkt =
        Some (tokenize expr = [] \<or>
          (\<exists>p. fst (parse_primitive \<lparr>fb_tokens = tokenize expr, fb_pos = 0\<rparr>) = Inr p \<and> prim_accepts lt p pkt))"
proof (cases "tokenize expr = []")
  case True
  then show ?thesis
    by (simp add: filter_compile_def bpf_filter_def bpf_run_def loop_ret BPF_ACCEPT_def)
next
  case False
  show ?thesis
  proof (cases "fst (parse_primitive \<lparr>fb_tokens = tokenize expr, fb_pos = 0\<rparr>)")
    case (Inl e)
    with False show ?thesis by (simp add: filter_compile_def)
  next
    case (Inr p)
    obtain code where "compile_primitive p lt = Inr code"
      "bpf_run (code @ [ret_insn BPF_ACCEPT]) pkt = Some (if prim_accepts lt p pkt then BPF_ACCEPT else BPF_REJECT)"
      using compile_primitive_runs [OF assms] by blast
    with Inr False show ?thesis
      by (simp add: filter_compile_def bpf_filter_def BPF_ACCEPT_def BPF_REJECT_def)
  qed
qed

section \<open>What a primitive means\<close>

text \<open>
  The meaning of the primitives by the comments of \<open>bpf.rs\<close> and the filter language they are taken from. A
  frame carries IPv4 when it is long enough for the first byte of the header, that has version 4, and
  on Ethernet the EtherType says so; likewise IPv6.
\<close>

definition carries :: "u8 \<Rightarrow> u16 \<Rightarrow> i32 \<Rightarrow> bytes \<Rightarrow> bool" where
  "carries version ethertype lt pkt \<longleftrightarrow>
     (lt = DLT_EN10MB \<longrightarrow> field 12 2 pkt = Some (u16_to_be ethertype)) \<and>
     (\<exists>b. field (link_header_len lt) 1 pkt = Some [b] \<and> b div 16 = version)"

abbreviation "carries_ipv4 \<equiv> carries 4 0x0800"
abbreviation "carries_ipv6 \<equiv> carries 6 0x86dd"

definition ip_byte :: "i32 \<Rightarrow> nat \<Rightarrow> bytes \<Rightarrow> u8 option" where
  "ip_byte lt off pkt = map_option hd (field (link_header_len lt + off) 1 pkt)"

definition ip_source :: "i32 \<Rightarrow> bytes \<Rightarrow> bytes option" where
  "ip_source lt pkt = field (link_header_len lt + 12) 4 pkt"

definition ip_destination :: "i32 \<Rightarrow> bytes \<Rightarrow> bytes option" where
  "ip_destination lt pkt = field (link_header_len lt + 16) 4 pkt"

text \<open>The ports of a TCP or UDP segment come right after the IPv4 header, whose length in words is in the low
  half of its first byte.\<close>

definition has_port :: "u16 set \<Rightarrow> i32 \<Rightarrow> bytes \<Rightarrow> bool" where
  "has_port ps lt pkt \<longleftrightarrow> carries_ipv4 lt pkt \<and> ip_byte lt 9 pkt \<in> {Some 6, Some 17} \<and>
     (\<exists>b p. ip_byte lt 0 pkt = Some b \<and> p \<in> ps \<and>
        (let seg = link_header_len lt + 4 * (unat b mod 16)
         in field seg 2 pkt = Some (u16_to_be p) \<or> field (seg + 2) 2 pkt = Some (u16_to_be p)))"

definition is_ethertype :: "u32 \<Rightarrow> bool" where
  "is_ethertype q \<longleftrightarrow> q = 0x0806 \<or> q = 0x0800 \<or> q = 0x86dd"

fun prim_means :: "i32 \<Rightarrow> filter_prim \<Rightarrow> bytes \<Rightarrow> bool" where
  "prim_means lt All pkt \<longleftrightarrow> True"
| "prim_means lt (Proto q) pkt \<longleftrightarrow>
     (if is_ethertype q then lt = DLT_EN10MB \<and> field 12 2 pkt = Some (u16_to_be (ucast q))
      else if q = 58 then carries_ipv6 lt pkt \<and> ip_byte lt 6 pkt = Some 58
      else carries_ipv4 lt pkt \<and> map_option ucast (ip_byte lt 9 pkt) = Some q)"
| "prim_means lt (Port n) pkt \<longleftrightarrow> has_port {n} lt pkt"
| "prim_means lt (PortRange a b) pkt \<longleftrightarrow> has_port {a..b} lt pkt"
| "prim_means lt (HostIpv4 ip) pkt \<longleftrightarrow>
     carries_ipv4 lt pkt \<and> Some (v4_octets ip) \<in> {ip_source lt pkt, ip_destination lt pkt}"
| "prim_means lt Broadcast pkt \<longleftrightarrow> carries_ipv4 lt pkt \<and> ip_destination lt pkt = Some [255, 255, 255, 255]"
| "prim_means lt Multicast pkt \<longleftrightarrow> carries_ipv4 lt pkt \<and> (\<exists>b. ip_byte lt 16 pkt = Some b \<and> 224 \<le> b \<and> b \<le> 239)"

text \<open>Packets that a filter means and its code misses: those that only come from the host, and ICMPv6
  (the protocol is looked for where an IPv4 header has it).\<close>

fun prim_misses :: "i32 \<Rightarrow> filter_prim \<Rightarrow> bytes \<Rightarrow> bool" where
  "prim_misses lt (HostIpv4 ip) pkt \<longleftrightarrow> ip_destination lt pkt \<noteq> Some (v4_octets ip)"
| "prim_misses lt (Proto q) pkt \<longleftrightarrow> q = 58 \<and> ip_byte lt 9 pkt \<noteq> Some 58"
| "prim_misses lt p pkt \<longleftrightarrow> False"

text \<open>Packets that the code accepts, whether they are meant or not: any packet for a port; and for the
  others, frames that carry something else and happen to have the tested value at the tested offset,
  since neither the version nor, for the IP primitives, the EtherType is tested, and the EtherType is
  taken from bytes 12 and 13 on every link type.\<close>

fun prim_overaccepts :: "i32 \<Rightarrow> filter_prim \<Rightarrow> bytes \<Rightarrow> bool" where
  "prim_overaccepts lt All pkt \<longleftrightarrow> False"
| "prim_overaccepts lt (Proto q) pkt \<longleftrightarrow>
     (if is_ethertype q then lt \<noteq> DLT_EN10MB \<and> field 12 2 pkt = Some (u16_to_be (ucast q))
      else map_option ucast (ip_byte lt 9 pkt) = Some q \<and> (q = 58 \<or> \<not> carries_ipv4 lt pkt))"
| "prim_overaccepts lt (Port n) pkt \<longleftrightarrow> True"
| "prim_overaccepts lt (PortRange a b) pkt \<longleftrightarrow> True"
| "prim_overaccepts lt (HostIpv4 ip) pkt \<longleftrightarrow> \<not> carries_ipv4 lt pkt \<and> ip_destination lt pkt = Some (v4_octets ip)"
| "prim_overaccepts lt Broadcast pkt \<longleftrightarrow> \<not> carries_ipv4 lt pkt \<and> ip_destination lt pkt = Some [255, 255, 255, 255]"
| "prim_overaccepts lt Multicast pkt \<longleftrightarrow>
     \<not> carries_ipv4 lt pkt \<and> (\<exists>b. ip_byte lt 16 pkt = Some b \<and> 224 \<le> b \<and> b \<le> 239)"

lemma field_one: "(case field off 1 pkt of Some [b] \<Rightarrow> P b | _ \<Rightarrow> False) \<longleftrightarrow> (\<exists>b. map_option hd (field off 1 pkt) = Some b \<and> P b)"
  by (auto split: option.splits list.splits dest!: field_some simp: length_Suc_conv)

lemma prim_accepts_meaning:
  "prim_accepts lt p pkt \<longleftrightarrow> prim_means lt p pkt \<and> \<not> prim_misses lt p pkt \<or> prim_overaccepts lt p pkt"
proof (cases p)
  case (Proto q)
  have b: "ucast (b :: u8) = (58 :: u32) \<longleftrightarrow> b = 58" for b
    by (simp add: word_unat_eq_iff unat_ucast_up)
  show ?thesis using Proto by (auto simp: is_ethertype_def field_one ip_byte_def b simp del: One_nat_def)
qed (auto simp: field_one ip_source_def ip_destination_def ip_byte_def simp del: One_nat_def)

lemma prim_exact:
  assumes "lt = DLT_EN10MB"
    "p \<in> Proto ` {0x0806, 0x0800, 0x86dd} \<or> carries_ipv4 lt pkt \<and> p \<in> {Broadcast, Multicast} \<union> (Proto ` (- {58}))"
  shows "\<not> prim_misses lt p pkt \<and> \<not> prim_overaccepts lt p pkt"
  using assms by (auto simp: is_ethertype_def split: if_splits)

text \<open>C2: Compilation fails exactly when the parser does. The program for an expression runs to the end on
  every packet (of fewer than \<open>2^32\<close> bytes). Without words in the expression it accepts everything. Else
  it accepts what the first primitive means, without the packets that the code misses, and with those that it
  accepts beyond the meaning: the two functions list the departures, \<open>host\<close> not seeing a source
  address (which the comment promises) and \<open>port\<close> accepting everything (which a comment
  admits) among them. On Ethernet, \<open>arp\<close>, \<open>ip\<close> and \<open>ip6\<close> accept exactly what they mean, and so do \<open>tcp\<close>, \<open>udp\<close>,
  \<open>icmp\<close>, \<open>broadcast\<close> and \<open>multicast\<close> on frames that carry IPv4.\<close>
theorem filter_compile_correct:
  assumes "length pkt < 2 ^ 32"
  shows "case filter_compile expr lt of
      Inl e \<Rightarrow> tokenize expr \<noteq> [] \<and> fst (parse_primitive \<lparr>fb_tokens = tokenize expr, fb_pos = 0\<rparr>) = Inl e
    | Inr prog \<Rightarrow> \<exists>accepted. bpf_filter prog pkt = Some accepted \<and> (tokenize expr = [] \<longrightarrow> accepted) \<and>
        (\<forall>p. tokenize expr \<noteq> [] \<and> fst (parse_primitive \<lparr>fb_tokens = tokenize expr, fb_pos = 0\<rparr>) = Inr p \<longrightarrow>
           (accepted \<longleftrightarrow> prim_means lt p pkt \<and> \<not> prim_misses lt p pkt \<or> prim_overaccepts lt p pkt) \<and>
           (lt = DLT_EN10MB \<and> (p \<in> Proto ` {0x0806, 0x0800, 0x86dd} \<or>
                carries_ipv4 lt pkt \<and> p \<in> {Broadcast, Multicast} \<union> (Proto ` (- {58}))) \<longrightarrow>
              (accepted \<longleftrightarrow> prim_means lt p pkt)))"
proof (cases "filter_compile expr lt")
  case (Inl e)
  with filter_compile_runs [OF assms, of expr lt] show ?thesis by simp
next
  case (Inr prog)
  let ?parsed = "fst (parse_primitive \<lparr>fb_tokens = tokenize expr, fb_pos = 0\<rparr>)"
  let ?accepted = "tokenize expr = [] \<or> (\<exists>p. ?parsed = Inr p \<and> prim_accepts lt p pkt)"
  have run: "bpf_filter prog pkt = Some ?accepted"
    using filter_compile_runs [OF assms, of expr lt] unfolding Inr sum.case .
  have acc: "?accepted \<longleftrightarrow> prim_means lt p pkt \<and> \<not> prim_misses lt p pkt \<or> prim_overaccepts lt p pkt"
    if "tokenize expr \<noteq> []" "?parsed = Inr p" for p
    using that unfolding prim_accepts_meaning [of lt p pkt, symmetric] by simp
  show ?thesis
    unfolding Inr sum.case
    by (intro exI [of _ ?accepted] conjI allI impI run) (use acc prim_exact in blast)+
qed

text \<open>A TCP segment in an IPv4 packet, read without a link-layer header.\<close>

theorem filter_compile_correct_witness:
  "\<exists>prog. filter_compile ''tcp'' DLT_RAW = Inr prog
     \<and> bpf_filter prog [0x45, 0, 0, 20, 0, 0, 0, 0, 64, 6, 0, 0, 1, 2, 3, 4, 9, 9, 9, 9] = Some True"
proof -
  let ?pkt = "[0x45, 0, 0, 20, 0, 0, 0, 0, 64, 6, 0, 0, 1, 2, 3, 4, 9, 9, 9, 9] :: bytes"
  have t: "tokenize ''tcp'' = [''tcp'']"
    by (simp add: tokenize_def tokenize_word_def split_whitespace_word is_word_def plain_char_def)
  moreover have p: "fst (parse_primitive \<lparr>fb_tokens = [''tcp''], fb_pos = 0\<rparr>) = Inr (Proto 6)"
    by (simp add: parse_primitive_def next_token_def to_ascii_lowercase_def)
  moreover have "prim_means DLT_RAW (Proto 6) ?pkt" "\<not> prim_misses DLT_RAW (Proto 6) ?pkt"
    by (simp_all add: is_ethertype_def carries_def ip_byte_def field_def slice_def link_header_len_def dlt_types)
  moreover have "filter_compile ''tcp'' DLT_RAW \<noteq> Inl e" for e
    by (simp add: filter_compile_def t p compile_primitive_def)
  moreover have "length ?pkt < 2 ^ 32" by simp
  ultimately show ?thesis
    using filter_compile_correct [of ?pkt "''tcp''" DLT_RAW] by (cases "filter_compile ''tcp'' DLT_RAW") auto
qed

section \<open>Departures of the language\<close>

lemma tokenize_word_plain: "CHR ''-'' \<notin> set w \<Longrightarrow> tokenize_word w = [w]"
  by (simp add: tokenize_word_def)

lemma tokenize_append:
  "is_word w \<Longrightarrow> tokenize (w @ CHR '' '' # s) = tokenize_word w @ tokenize s"
  "is_word w \<Longrightarrow> tokenize w = tokenize_word w"
  by (simp_all add: tokenize_def split_whitespace_word)

lemma show_u16_word: "is_word (show_radix 10 (unat (p :: u16)))"
  by (simp add: is_word_def show_radix_word)

lemma tokenize_range:
  "tokenize (show_radix 10 (unat (a :: u16)) @ ''-'' @ show_radix 10 (unat (b :: u16)))
     = [show_radix 10 (unat a), ''-'', show_radix 10 (unat b)]"
proof -
  let ?w = "show_radix 10 (unat a) @ ''-'' @ show_radix 10 (unat b)"
  have "plain_char (CHR ''-'')" by (simp add: plain_char_def)
  then have "is_word ?w" by (simp add: is_word_def show_radix_word)
  moreover have "split_on (CHR ''-'') ?w = [show_radix 10 (unat a), show_radix 10 (unat b)]"
    using split_on_append [of "CHR ''-''" "show_radix 10 (unat a)"]
    by (simp add: split_on_none show_radix_no_dash)
  ultimately show ?thesis
    by (simp add: tokenize_append tokenize_word_def parse_u16_show)
qed

lemma keyword_words [simp]:
  "is_word ''tcp''" "is_word ''port''" "is_word ''portrange''" "is_word ''host''"
  by (simp_all add: is_word_def plain_char_def)

text \<open>Only the first primitive of an expression counts: whatever follows \<open>tcp\<close> is dropped, so
  \<open>tcp port 80\<close>, the example of the module's documentation, compiles to plain \<open>tcp\<close>. A \<open>port\<close>
  filter is the program that accepts everything, and \<open>portrange A-B\<close>, the documented form, is always
  an error (the tokenizer makes the dash a token of its own), while \<open>portrange A B\<close> compiles.\<close>
theorem filter_language_departures:
  "filter_compile (''tcp '' @ rest) lt = filter_compile ''tcp'' lt
   \<and> filter_compile (''port '' @ show_radix 10 (unat (a :: u16))) lt = Inr [ret_insn BPF_ACCEPT, ret_insn BPF_ACCEPT]
   \<and> filter_compile (''portrange '' @ show_radix 10 (unat a) @ ''-'' @ show_radix 10 (unat (b :: u16))) lt
        = Inl (quoted ''bad port'' ''-'')
   \<and> filter_compile (''portrange '' @ show_radix 10 (unat a) @ '' '' @ show_radix 10 (unat b)) lt
        = Inr [ret_insn BPF_ACCEPT, ret_insn BPF_ACCEPT]"
proof -
  have tcp: "tokenize (''tcp'' @ CHR '' '' # rest) = ''tcp'' # tokenize rest" "tokenize ''tcp'' = [''tcp'']"
    by (simp_all only: tokenize_append keyword_words tokenize_word_plain) (simp_all add: tokenize_word_plain)
  have port: "tokenize (''port'' @ CHR '' '' # show_radix 10 (unat a)) = [''port'', show_radix 10 (unat a)]"
    by (simp only: tokenize_append keyword_words show_u16_word)
       (simp add: tokenize_word_plain show_radix_no_dash)
  have dash: "tokenize (''portrange'' @ CHR '' '' # show_radix 10 (unat a) @ ''-'' @ show_radix 10 (unat b))
      = [''portrange'', show_radix 10 (unat a), ''-'', show_radix 10 (unat b)]"
    by (simp only: tokenize_append keyword_words tokenize_range) (simp add: tokenize_word_plain)
  have blank: "tokenize (''portrange'' @ CHR '' '' # show_radix 10 (unat a) @ CHR '' '' # show_radix 10 (unat b))
      = [''portrange'', show_radix 10 (unat a), show_radix 10 (unat b)]"
    by (simp only: tokenize_append keyword_words show_u16_word)
       (simp add: tokenize_word_plain show_radix_no_dash)
  have no: "parse_u16 ''-'' = None" by (simp add: parse_u16_def from_str_radix_def to_digit_def)
  have parse: "fst (parse_primitive \<lparr>fb_tokens = ''tcp'' # ts, fb_pos = 0\<rparr>) = Inr (Proto 6)"
    "fst (parse_primitive \<lparr>fb_tokens = ''port'' # w # ts, fb_pos = 0\<rparr>) = map_sum id Port (parse_port ''invalid port'' w)"
    "fst (parse_primitive \<lparr>fb_tokens = ''portrange'' # w # w' # ts, fb_pos = 0\<rparr>)
      = (case parse_port ''bad port'' w of Inl e \<Rightarrow> Inl e
         | Inr pa \<Rightarrow> map_sum id (PortRange pa) (parse_port ''bad port'' w'))" for w w' ts
    by (simp_all add: parse_primitive_def next_token_def to_ascii_lowercase_def)
  have port_ok: "parse_port m (show_radix 10 (unat p)) = Inr p" "parse_port m ''-'' = Inl (quoted m ''-'')"
    for m and p :: u16
    by (simp_all add: parse_port_def parse_u16_show no)
  show ?thesis
    using tcp port dash blank by (simp add: filter_compile_def parse port_ok compile_primitive_def)
qed

text \<open>\<open>host A\<close>, which says that it matches the source or the destination, looks at the
  destination only: a packet whose IPv4 destination field is not \<open>A\<close> (or is cut off) is rejected,
  whatever its source. The code that would compare the source is emitted behind a return.\<close>
theorem host_filter_ignores_source:
  assumes "length pkt < 2 ^ 32" "field (link_header_len lt + 16) 4 pkt \<noteq> Some (v4_octets ip)"
  shows "\<exists>prog. filter_compile (''host '' @ show_ipv4 ip) lt = Inr prog \<and> bpf_filter prog pkt = Some False"
proof -
  have "tokenize (''host'' @ CHR '' '' # show_ipv4 ip) = [''host'', show_ipv4 ip]"
    by (simp only: tokenize_append keyword_words show_ipv4_word) (simp add: tokenize_word_plain show_ipv4_word)
  moreover have "fst (parse_primitive \<lparr>fb_tokens = [''host'', show_ipv4 ip], fb_pos = 0\<rparr>) = Inr (HostIpv4 ip)"
    by (simp add: parse_primitive_def next_token_def to_ascii_lowercase_def parse_ipv4_show)
  moreover obtain code where "compile_primitive (HostIpv4 ip) lt = Inr code"
      "bpf_run (code @ [ret_insn BPF_ACCEPT]) pkt = Some BPF_REJECT"
    using compile_primitive_runs [OF assms(1), of "HostIpv4 ip" lt] assms(2) by auto
  ultimately show ?thesis by (simp add: filter_compile_def bpf_filter_def BPF_REJECT_def)
qed

theorem host_filter_ignores_source_witness:
  "\<exists>prog. filter_compile (''host '' @ show_ipv4 (Ipv4Addr 1 2 3 4)) DLT_RAW = Inr prog
     \<and> bpf_filter prog (replicate 12 0 @ [1, 2, 3, 4, 9, 9, 9, 9]) = Some False"
proof (rule host_filter_ignores_source)
  show "length (replicate 12 0 @ [1, 2, 3, 4, 9, 9, 9, 9] :: bytes) < 2 ^ 32" by simp
  show "field (link_header_len DLT_RAW + 16) 4 (replicate 12 0 @ [1, 2, 3, 4, 9, 9, 9, 9])
      \<noteq> Some (v4_octets (Ipv4Addr 1 2 3 4))"
    by code_simp
qed

end
