(* ===== verification/Pcap_Capture.thy ===== *)
theory Pcap_Capture
  imports Pcap_Backends Pcap_Sendqueue Pcap_Filter
begin

text \<open>
  \<open>wnr-pcap/src/capture.rs\<close>: the capture handle over a savefile or a live socket (of Linux or of Windows), with its filter,
  error message and modes; reading, looping, writing to a file, injecting; and the device list. A
  call that would never return (a filter program that does not stop) is \<open>None\<close>. The interpreter kept
  in the handle is reset at the start of every run, so it is no part of the state.
\<close>

section \<open>Devices\<close>

record pcap_device =
  dev_name :: string
  dev_description :: string
  dev_addresses :: "addr list"
  dev_flags :: u16

definition findalldevs :: "intf_entry list \<Rightarrow> pcap_device list" where
  "findalldevs ifs =
     map (\<lambda>i. \<lparr>dev_name = intf_name i,
                dev_description =
                  (if intf_type i = INTF_TYPE_LOOPBACK then ''Loopback interface''
                   else if intf_type i = INTF_TYPE_ETH then ''Ethernet''
                   else if intf_type i = INTF_TYPE_PPP then ''Point-to-point''
                   else ''Network interface''),
                dev_addresses = intf_addr i # intf_alias_addrs i,
                dev_flags = intf_flags i\<rparr>) ifs"

definition lookupdev :: "intf_entry list \<Rightarrow> string option" where
  "lookupdev ifs =
     (case find (\<lambda>d. dev_flags d AND INTF_FLAG_LOOPBACK = 0) (findalldevs ifs) of
        Some d \<Rightarrow> Some (dev_name d)
      | None \<Rightarrow> (case findalldevs ifs of [] \<Rightarrow> None | d # _ \<Rightarrow> Some (dev_name d)))"

section \<open>The handle\<close>

record packet_header =
  hd_ts_sec :: u32
  hd_ts_frac :: u32
  hd_caplen :: u32
  hd_len :: u32

datatype loop_control = Continue | Break

text \<open>The \<open>RawCapture\<close> of a live capture is that of the platform: \<open>Live\<close> on Linux, \<open>LiveWin\<close> on Windows.\<close>

datatype capture_kind = Offline savefile_reader | Live raw_capture | LiveWin win_capture

record capture =
  cap_kind :: capture_kind
  cap_snaplen :: u32
  cap_linktype :: i32
  cap_filter :: "bpf_insn list option"
  cap_direction :: direction
  cap_nonblock :: bool
  cap_last_err :: string

fun io_error_text :: "io_error \<Rightarrow> string" where
  "io_error_text UnexpectedEof = ''failed to fill whole buffer''"
| "io_error_text (InvalidData m) = m"
| "io_error_text (OtherError m) = m"

definition err_text :: "io_error + 'a \<Rightarrow> string + 'a" where
  "err_text = map_sum io_error_text id"

definition open_offline :: "bytes \<Rightarrow> string + capture" where
  "open_offline file =
     (case savefile_open file of
        Inl e \<Rightarrow> Inl (io_error_text e)
      | Inr reader \<Rightarrow>
          Inr \<lparr>cap_kind = Offline reader, cap_snaplen = ph_snaplen (sr_header reader),
               cap_linktype = ph_linktype (sr_header reader), cap_filter = None,
               cap_direction = DirInOut, cap_nonblock = False, cap_last_err = []\<rparr>)"

text \<open>On Linux, given the outcome of \<open>RawCapture::open\<close>.\<close>

definition open_live :: "string + raw_capture \<Rightarrow> u32 \<Rightarrow> string + capture" where
  "open_live raw snaplen =
     (case raw of
        Inl e \<Rightarrow> Inl (''unable to open device: '' @ e)
      | Inr r \<Rightarrow> Inr \<lparr>cap_kind = Live r, cap_snaplen = snaplen, cap_linktype = DLT_EN10MB, cap_filter = None,
                     cap_direction = DirInOut, cap_nonblock = False, cap_last_err = []\<rparr>)"

definition open_live_windows :: "string + win_capture \<Rightarrow> u32 \<Rightarrow> string + capture" where
  "open_live_windows raw snaplen =
     (case raw of
        Inl e \<Rightarrow> Inl (''unable to open device ('' @ e @ ''), try `--interfaces` to list devices'')
      | Inr r \<Rightarrow> Inr \<lparr>cap_kind = LiveWin r, cap_snaplen = snaplen, cap_linktype = DLT_RAW, cap_filter = None,
                     cap_direction = DirInOut, cap_nonblock = False, cap_last_err = []\<rparr>)"

text \<open>On a platform that is neither Unix nor Windows.\<close>

definition open_live_other :: "string \<Rightarrow> string + capture" where
  "open_live_other device =
     Inl (''live capture on '' @ [CHR 0x27] @ device @ [CHR 0x27] @ '' is unsupported on this platform; ''
          @ ''use `wnr_pcap::open_offline` for savefile reading'')"

definition set_filter :: "string \<Rightarrow> capture \<Rightarrow> (string + unit) \<times> capture" where
  "set_filter expr c =
     (case filter_compile expr (cap_linktype c) of
        Inl e \<Rightarrow> (Inl e, c\<lparr>cap_last_err := ''syntax error: '' @ e\<rparr>)
      | Inr prog \<Rightarrow> (Inr (), c\<lparr>cap_filter := Some prog\<rparr>))"

fun kind_next :: "capture_kind \<Rightarrow> (string + pcap_packet option) \<times> capture_kind" where
  "kind_next (Offline r) = (let (out, r') = savefile_next r in (err_text out, Offline r'))"
| "kind_next (Live r) = (let (out, r') = raw_next r in (err_text out, Live r'))"
| "kind_next (LiveWin r) = (let (out, r') = win_next r in (err_text out, LiveWin r'))"

fun kind_left :: "capture_kind \<Rightarrow> nat" where
  "kind_left (Offline r) = length (sr_rest r)"
| "kind_left (Live r) = length (raw_recvs r)"
| "kind_left (LiveWin r) = length (win_recvs r)"

interpretation kind_src: packet_source kind_next kind_left
proof
  fix k p k'
  assume "kind_next k = (Inr (Some p), k')"
  then show "kind_left k' < kind_left k"
    by (cases k) (auto simp: err_text_def case_prod_beta map_sum_def split: sum.splits
        intro!: save_src.progress [of _ p] raw_src.progress [of _ p] win_src.progress [of _ p] prod_eqI)
qed

definition packet_view :: "pcap_packet \<Rightarrow> packet_header \<times> bytes" where
  "packet_view p =
     (\<lparr>hd_ts_sec = pk_ts_sec p, hd_ts_frac = pk_ts_frac p, hd_caplen = pk_caplen p, hd_len = pk_origlen p\<rparr>,
      pk_data p)"

function capture_next :: "capture \<Rightarrow> ((string + (packet_header \<times> bytes) option) \<times> capture) option" where
  "capture_next c =
     (case kind_next (cap_kind c) of
        (Inl e, k) \<Rightarrow> Some (Inl e, c\<lparr>cap_kind := k\<rparr>)
      | (Inr None, k) \<Rightarrow> Some (Inr None, c\<lparr>cap_kind := k\<rparr>)
      | (Inr (Some p), k) \<Rightarrow>
          (case cap_filter c of
             None \<Rightarrow> Some (Inr (Some (packet_view p)), c\<lparr>cap_kind := k\<rparr>)
           | Some prog \<Rightarrow>
               (case bpf_filter prog (pk_data p) of
                  None \<Rightarrow> None
                | Some ok \<Rightarrow>
                    if ok then Some (Inr (Some (packet_view p)), c\<lparr>cap_kind := k\<rparr>)
                    else capture_next (c\<lparr>cap_kind := k\<rparr>))))"
  by pat_completeness auto
termination
  by (relation "measure (\<lambda>c. kind_left (cap_kind c))") (auto, metis kind_src.progress)

declare capture_next.simps [simp del]

lemma capture_next_left:
  "capture_next c = Some (Inr (Some x), c') \<Longrightarrow> kind_left (cap_kind c') < kind_left (cap_kind c)"
proof (induction c rule: capture_next.induct)
  case (1 c)
  obtain out k where n: "kind_next (cap_kind c) = (out, k)" by (cases "kind_next (cap_kind c)")
  from "1.prems" n obtain p where p: "out = Inr (Some p)"
    by (subst (asm) capture_next.simps) (auto split: sum.splits option.splits)
  note l = kind_src.progress [OF n [unfolded p]]
  show ?case
  proof (cases "\<exists>prog. cap_filter c = Some prog \<and> bpf_filter prog (pk_data p) = Some False")
    case True
    then obtain prog where f: "cap_filter c = Some prog" "bpf_filter prog (pk_data p) = Some False" by blast
    have "capture_next (c\<lparr>cap_kind := k\<rparr>) = Some (Inr (Some x), c')"
      using "1.prems" n p f by (subst (asm) capture_next.simps) simp
    with "1.IH" [OF n [unfolded p, symmetric] refl refl f] l show ?thesis by simp
  next
    case False
    with "1.prems" n p l show ?thesis
      by (subst (asm) capture_next.simps) (auto split: option.splits if_splits)
  qed
qed

section \<open>Whole captures\<close>

text \<open>\<open>while let Ok(Some(x)) = self.next_packet()\<close>: the packets, the error that ended the loop if one
  did (the code drops it), and the handle.\<close>

function capture_collect ::
  "capture \<Rightarrow> ((packet_header \<times> bytes) list \<times> string option \<times> capture) option" where
  "capture_collect c =
     (case capture_next c of
        None \<Rightarrow> None
      | Some (Inr (Some x), c') \<Rightarrow> map_option (\<lambda>(xs, out). (x # xs, out)) (capture_collect c')
      | Some (Inr None, c') \<Rightarrow> Some ([], None, c')
      | Some (Inl e, c') \<Rightarrow> Some ([], Some e, c'))"
  by pat_completeness auto
termination
  by (relation "measure (\<lambda>c. kind_left (cap_kind c))") (auto dest: capture_next_left)

declare capture_collect.simps [simp del]

definition read_all :: "bytes \<Rightarrow> (string + (packet_header \<times> bytes) list) option" where
  "read_all file =
     (case open_offline file of
        Inl e \<Rightarrow> Some (Inl e)
      | Inr cap \<Rightarrow> map_option (\<lambda>(out, _). Inr out) (capture_collect cap))"

text \<open>\<open>capture_to_file\<close>. The outcomes of the calls on the file, an error text for one that fails: creating it
  (with its header), writing the \<open>i\<close>-th record, flushing. The result is an error or the count with the
  bytes of the file.\<close>

record disk =
  dk_create :: "string option"
  dk_write :: "nat \<Rightarrow> string option"
  dk_flush :: "string option"

function capture_export ::
  "disk \<Rightarrow> nat \<Rightarrow> savefile_writer \<Rightarrow> capture \<Rightarrow> ((string + nat \<times> savefile_writer) \<times> capture) option" where
  "capture_export dk n w c =
     (case capture_next c of
        None \<Rightarrow> None
      | Some (Inr (Some (hdr, d)), c') \<Rightarrow>
          (case dk_write dk n of
             Some e \<Rightarrow> Some (Inl e, c')
           | None \<Rightarrow> capture_export dk (n + 1) (write_packet (hd_ts_sec hdr) (hd_ts_frac hdr) d w) c')
      | Some (Inr None, c') \<Rightarrow> Some (Inr (n, w), c')
      | Some (Inl _, c') \<Rightarrow> Some (Inr (n, w), c'))"
  by pat_completeness auto
termination
  by (relation "measure (\<lambda>(dk, n, w, c). kind_left (cap_kind c))") (auto dest: capture_next_left)

declare capture_export.simps [simp del]

definition capture_to_file :: "disk \<Rightarrow> u32 \<Rightarrow> capture \<Rightarrow> ((string + u32 \<times> bytes) \<times> capture) option" where
  "capture_to_file dk linktype c =
     (case dk_create dk of
        Some e \<Rightarrow> Some (Inl e, c)
      | None \<Rightarrow>
          map_option
            (\<lambda>(out, c').
               (case out of
                  Inl e \<Rightarrow> Inl e
                | Inr (n, w) \<Rightarrow> (case dk_flush dk of Some e \<Rightarrow> Inl e | None \<Rightarrow> Inr (of_nat n, sw_out w)), c'))
            (capture_export dk 0 (savefile_create (cap_snaplen c) linktype) c))"

text \<open>\<open>loop_\<close>, with the state that the callback closes over.\<close>

function capture_loop ::
  "(packet_header \<Rightarrow> bytes \<Rightarrow> 'u \<Rightarrow> loop_control \<times> 'u) \<Rightarrow> u32 \<Rightarrow> u32 \<Rightarrow> 'u \<Rightarrow> capture
     \<Rightarrow> ((string + u32) \<times> 'u \<times> capture) option" where
  "capture_loop cb limit processed u c =
     (if processed \<ge> limit then Some (Inr processed, u, c)
      else (case capture_next c of
              None \<Rightarrow> None
            | Some (Inr (Some (hdr, d)), c') \<Rightarrow>
                (case cb hdr d u of
                   (Break, u') \<Rightarrow> Some (Inr (processed + 1), u', c')
                 | (Continue, u') \<Rightarrow> capture_loop cb limit (processed + 1) u' c')
            | Some (Inr None, c') \<Rightarrow> Some (Inr processed, u, c')
            | Some (Inl e, c') \<Rightarrow> Some (Inl e, u, c')))"
  by pat_completeness auto
termination
  by (relation "measure (\<lambda>(cb, limit, processed, u, c). kind_left (cap_kind c))") (auto dest: capture_next_left)

declare capture_loop.simps [simp del]

definition pcap_loop ::
  "i32 \<Rightarrow> (packet_header \<Rightarrow> bytes \<Rightarrow> 'u \<Rightarrow> loop_control \<times> 'u) \<Rightarrow> 'u \<Rightarrow> capture
     \<Rightarrow> ((string + u32) \<times> 'u \<times> capture) option" where
  "pcap_loop count cb u c = capture_loop cb (if sint count \<le> 0 then 0xffffffff else count) 0 u c"

section \<open>Modes and transmission\<close>

definition set_nonblock :: "string option \<Rightarrow> bool \<Rightarrow> capture \<Rightarrow> (string + unit) \<times> capture" where
  "set_nonblock fcntl nb c =
     (case cap_kind c of
        Offline r \<Rightarrow> (Inr (), c\<lparr>cap_nonblock := nb\<rparr>)
      | Live r \<Rightarrow>
          (case raw_set_nonblock fcntl nb r of
             (Inl e, r') \<Rightarrow> (Inl (''pcap_setnonblock: '' @ io_error_text e),
                             c\<lparr>cap_kind := Live r', cap_last_err := io_error_text e\<rparr>)
           | (Inr (), r') \<Rightarrow> (Inr (), c\<lparr>cap_kind := Live r', cap_nonblock := nb\<rparr>))
      | LiveWin r \<Rightarrow>
          (case win_set_nonblock fcntl nb r of
             (Inl e, r') \<Rightarrow> (Inl (''pcap_setnonblock: '' @ io_error_text e),
                             c\<lparr>cap_kind := LiveWin r', cap_last_err := io_error_text e\<rparr>)
           | (Inr (), r') \<Rightarrow> (Inr (), c\<lparr>cap_kind := LiveWin r', cap_nonblock := nb\<rparr>)))"

definition set_direction :: "direction \<Rightarrow> capture \<Rightarrow> (string + unit) \<times> capture" where
  "set_direction dir c =
     (case cap_kind c of
        Offline r \<Rightarrow> (let e = ''pcap_setdirection: cannot set direction on an offline capture''
                      in (Inl e, c\<lparr>cap_last_err := e\<rparr>))
      | Live r \<Rightarrow> (Inr (), c\<lparr>cap_kind := Live (raw_set_direction dir r), cap_direction := dir\<rparr>)
      | LiveWin r \<Rightarrow> (Inr (), c\<lparr>cap_kind := LiveWin (win_set_direction dir r), cap_direction := dir\<rparr>))"

definition inject :: "bytes \<Rightarrow> capture \<Rightarrow> (string + nat) \<times> capture" where
  "inject d c =
     (case cap_kind c of
        Offline r \<Rightarrow> (let e = ''cannot inject on an offline capture'' in (Inl e, c\<lparr>cap_last_err := e\<rparr>))
      | Live r \<Rightarrow>
          (case raw_send_frame d r of
             (Inl e, r') \<Rightarrow> (Inl (''pcap_inject: '' @ io_error_text e),
                             c\<lparr>cap_kind := Live r', cap_last_err := io_error_text e\<rparr>)
           | (Inr n, r') \<Rightarrow> (Inr n, c\<lparr>cap_kind := Live r'\<rparr>))
      | LiveWin r \<Rightarrow>
          (case win_send_frame d r of
             Inl e \<Rightarrow> (Inl (''pcap_inject: '' @ io_error_text e), c\<lparr>cap_last_err := io_error_text e\<rparr>)
           | Inr n \<Rightarrow> (Inr n, c)))"

fun transmit_loop :: "pcap_packet list \<Rightarrow> u32 \<Rightarrow> capture \<Rightarrow> (string + u32) \<times> capture" where
  "transmit_loop [] acc c = (Inr acc, c)"
| "transmit_loop (p # ps) acc c =
     (case inject (pk_data p) c of
        (Inl e, c') \<Rightarrow> (Inl e, c')
      | (Inr n, c') \<Rightarrow> transmit_loop ps (acc + of_nat n) c')"

definition transmit_sendqueue :: "sendqueue \<Rightarrow> capture \<Rightarrow> (string + u32) \<times> capture" where
  "transmit_sendqueue q c = transmit_loop (sq_pkts q) 0 c"

text \<open>\<open>answer\<close> is what the statistics call of a Linux socket returns (see \<open>raw_poll_stats\<close>).\<close>

definition capture_stats :: "bool \<Rightarrow> string + bytes \<Rightarrow> capture \<Rightarrow> u32 \<times> u32 \<times> u32" where
  "capture_stats little answer c =
     (let (recv, drop) = (case cap_kind c of
         Offline _ \<Rightarrow> (0, 0)
       | Live _ \<Rightarrow> (case raw_poll_stats little answer of Inr s \<Rightarrow> s | Inl _ \<Rightarrow> (0, 0))
       | LiveWin r \<Rightarrow> (case win_poll_stats r of Inr s \<Rightarrow> s | Inl _ \<Rightarrow> (0, 0)))
      in (ucast recv, ucast drop, 0))"

text \<open>\<open>pkg\<close> is \<open>CARGO_PKG_VERSION\<close>.\<close>

definition lib_version :: "string \<Rightarrow> string" where
  "lib_version pkg = ''wnr-pcap '' @ pkg"

definition datalink_val_to_name :: "capture \<Rightarrow> string" where
  "datalink_val_to_name c = datalink_ntop (cap_linktype c)"

definition strip_link_header :: "i32 \<Rightarrow> bytes \<Rightarrow> (nat \<times> nat \<times> bytes) option" where
  "strip_link_header dlt frame =
     (let off = link_header_len dlt in
      if length frame < off then None else Some (off, length frame - off, drop off frame))"

section \<open>Filtered reading\<close>

definition cap_accepts :: "bpf_insn list option \<Rightarrow> pcap_packet \<Rightarrow> bool" where
  "cap_accepts flt p = (case flt of None \<Rightarrow> True | Some prog \<Rightarrow> bpf_filter prog (pk_data p) = Some True)"

definition filter_decides :: "bpf_insn list option \<Rightarrow> pcap_packet \<Rightarrow> bool" where
  "filter_decides flt p = (case flt of None \<Rightarrow> True | Some prog \<Rightarrow> bpf_filter prog (pk_data p) \<noteq> None)"

abbreviation kind_packets :: "capture_kind \<Rightarrow> pcap_packet list \<times> string option \<times> capture_kind" where
  "kind_packets \<equiv> exhaust kind_next kind_left"

lemma capture_next_case:
  assumes "kind_next (cap_kind c) = (Inr (Some p), k)" "filter_decides (cap_filter c) p"
  shows "capture_next c =
    (if cap_accepts (cap_filter c) p then Some (Inr (Some (packet_view p)), c\<lparr>cap_kind := k\<rparr>)
     else capture_next (c\<lparr>cap_kind := k\<rparr>))"
  using assms
  by (subst capture_next.simps) (auto simp: cap_accepts_def filter_decides_def split: option.splits)

lemma capture_collect_skip: "capture_next c = capture_next c' \<Longrightarrow> capture_collect c = capture_collect c'"
  by (simp add: capture_collect.simps [of c] capture_collect.simps [of c'])

lemma capture_collect_filters:
  "kind_packets (cap_kind c) = (ps, e, k) \<Longrightarrow> \<forall>p\<in>set ps. filter_decides (cap_filter c) p \<Longrightarrow>
     capture_collect c = Some (map packet_view (filter (cap_accepts (cap_filter c)) ps), e, c\<lparr>cap_kind := k\<rparr>)"
proof (induction "kind_left (cap_kind c)" arbitrary: c ps rule: less_induct)
  case less
  obtain out k' where n: "kind_next (cap_kind c) = (out, k')" by (cases "kind_next (cap_kind c)")
  consider (err) m where "out = Inl m" | (fin) "out = Inr None" | (pkt) p where "out = Inr (Some p)"
    by (cases out) auto
  then show ?case
  proof cases
    case err
    with less.prems(1) kind_src.exhaust_error [OF n [unfolded err]] have "ps = []" "e = Some m" "k = k'" by auto
    moreover have "capture_next c = Some (Inl m, c\<lparr>cap_kind := k'\<rparr>)"
      using n err by (subst capture_next.simps) simp
    ultimately show ?thesis by (simp add: capture_collect.simps [of c])
  next
    case fin
    with less.prems(1) kind_src.exhaust_end [OF n [unfolded fin]] have "ps = []" "e = None" "k = k'" by auto
    moreover have "capture_next c = Some (Inr None, c\<lparr>cap_kind := k'\<rparr>)"
      using n fin by (subst capture_next.simps) simp
    ultimately show ?thesis by (simp add: capture_collect.simps [of c])
  next
    case pkt
    note nx = n [unfolded pkt]
    obtain qs e' k'' where q: "kind_packets k' = (qs, e', k'')" by (cases "kind_packets k'")
    with less.prems(1) kind_src.exhaust_packet [OF nx] have ps: "ps = p # qs" "e' = e" "k'' = k" by auto
    have ih: "capture_collect (c\<lparr>cap_kind := k'\<rparr>)
        = Some (map packet_view (filter (cap_accepts (cap_filter c)) qs), e, c\<lparr>cap_kind := k\<rparr>)"
      using less.hyps [of "c\<lparr>cap_kind := k'\<rparr>" qs] kind_src.progress [OF nx] q ps less.prems(2) by simp
    have "capture_next c = (if cap_accepts (cap_filter c) p
        then Some (Inr (Some (packet_view p)), c\<lparr>cap_kind := k'\<rparr>) else capture_next (c\<lparr>cap_kind := k'\<rparr>))"
      using capture_next_case [OF nx] less.prems(2) ps by simp
    with ih ps capture_collect_skip [of c "c\<lparr>cap_kind := k'\<rparr>"] show ?thesis
      by (cases "cap_accepts (cap_filter c) p") (simp_all add: capture_collect.simps [of c])
  qed
qed

text \<open>The handle yields what its back-end yields.\<close>

lemma kind_packets_backend:
  "kind_packets (Offline r) = map_prod id (map_prod (map_option io_error_text) Offline) (savefile_packets r)"
  "kind_packets (Live l) = map_prod id (map_prod (map_option io_error_text) Live) (raw_packets l)"
  "kind_packets (LiveWin w) = map_prod id (map_prod (map_option io_error_text) LiveWin) (win_packets w)"
  by (rule save_src.exhaust_wrap raw_src.exhaust_wrap win_src.exhaust_wrap;
      simp add: err_text_def case_prod_beta map_prod_def)+

lemma kind_packets_offline:
  "savefile_packets r = (ps, e, r') \<Longrightarrow> kind_packets (Offline r) = (ps, map_option io_error_text e, Offline r')"
  by (simp add: kind_packets_backend)

text \<open>Whatever the file, its packets fit in 32 bits.\<close>

lemma savefile_next_small:
  "savefile_next r = (Inr (Some p), r') \<Longrightarrow> length (pk_data p) < 2 ^ 32"
proof -
  have "unat (n :: u32) < 4294967296" for n using unsigned_less [of n] by simp
  then show "savefile_next r = (Inr (Some p), r') \<Longrightarrow> ?thesis"
    by (auto simp: savefile_next_parse rec_parse_def Let_def min_less_iff_disj split: if_splits)
qed

lemma opened_packets_small:
  assumes "open_offline file = Inr c" "kind_packets (cap_kind c) = (ps, e, k)"
  shows "\<forall>p \<in> set ps. length (pk_data p) < 2 ^ 32"
proof -
  obtain r where "cap_kind c = Offline r" using assms(1) by (auto simp: open_offline_def split: sum.splits)
  with assms(2) have "ps = fst (savefile_packets r)" by (auto simp: kind_packets_backend map_prod_def split_beta)
  with save_src.exhaust_all [where P = "\<lambda>p. length (pk_data p) < 2 ^ 32", OF savefile_next_small] show ?thesis by simp
qed

text \<open>A compiled filter decides every packet that fits in 32 bits.\<close>

lemma compiled_filter_decides:
  assumes "filter_compile expr lt = Inr prog" "length (pk_data p) < 2 ^ 32"
  shows "filter_decides (Some prog) p
    \<and> cap_accepts (Some prog) p = (tokenize expr = [] \<or>
        (\<exists>q. fst (parse_primitive \<lparr>fb_tokens = tokenize expr, fb_pos = 0\<rparr>) = Inr q \<and> prim_accepts lt q (pk_data p)))"
  using filter_compile_runs [OF assms(2), of expr lt] assms(1)
  by (simp add: filter_decides_def cap_accepts_def)

text \<open>Setting a filter on a capture, over any back-end, and reading it to its end.\<close>

lemma filtered_collect:
  assumes "kind_packets (cap_kind c) = (ps, e, k)" "\<forall>p\<in>set ps. length (pk_data p) < 2 ^ 32"
    and "tokenize expr \<noteq> []" "fst (parse_primitive \<lparr>fb_tokens = tokenize expr, fb_pos = 0\<rparr>) = Inr q"
  shows "\<exists>c'. set_filter expr c = (Inr (), c') \<and> capture_collect c' =
    Some (map packet_view (filter (\<lambda>p. prim_accepts (cap_linktype c) q (pk_data p)) ps), e, c'\<lparr>cap_kind := k\<rparr>)"
proof -
  obtain prog where prog: "filter_compile expr (cap_linktype c) = Inr prog"
    using filter_compile_runs [of "[]" expr "cap_linktype c"] assms(4)
    by (cases "filter_compile expr (cap_linktype c)") auto
  let ?c = "c\<lparr>cap_filter := Some prog\<rparr>"
  have d: "\<forall>p\<in>set ps. filter_decides (cap_filter ?c) p
      \<and> cap_accepts (cap_filter ?c) p = prim_accepts (cap_linktype c) q (pk_data p)"
    using compiled_filter_decides [OF prog] assms(2-4) by simp
  then have "filter (cap_accepts (cap_filter ?c)) ps = filter (\<lambda>p. prim_accepts (cap_linktype c) q (pk_data p)) ps"
    by (intro filter_cong) auto
  with capture_collect_filters [of ?c ps e k] assms(1) d have "capture_collect ?c =
      Some (map packet_view (filter (\<lambda>p. prim_accepts (cap_linktype c) q (pk_data p)) ps), e, ?c\<lparr>cap_kind := k\<rparr>)"
    by simp
  with prog show ?thesis by (simp add: set_filter_def)
qed

lemma stored_packet_length: "length (pk_data (stored_packet sn x)) < 2 ^ 32"
proof -
  have "length (pk_data (stored_packet sn x)) \<le> unat sn"
    by (simp add: stored_packet_def split: prod.splits)
  also have "\<dots> < 2 ^ LENGTH(32)" by (rule unsigned_less)
  finally show ?thesis by simp
qed

lemma open_offline_written:
  "open_offline (sw_out (write_all_packets sn lt ps)) =
     Inr \<lparr>cap_kind = Offline \<lparr>sr_header = pcap_file_header_new sn lt,
                             sr_rest = concat (map (record_image False) (map (stored_packet sn) ps))\<rparr>,
          cap_snaplen = sn, cap_linktype = lt, cap_filter = None, cap_direction = DirInOut,
          cap_nonblock = False, cap_last_err = []\<rparr>"
  by (simp add: open_offline_def written_reads(1)) (simp add: pcap_file_header_new_def)

text \<open>C7: End to end: write packets to a file with a link type, open it as an offline capture, set a
  filter whose parse is the primitive \<open>q\<close>, and read to the end. The reads return, without an error and
  in order, exactly the stored packets whose bytes \<open>q\<close> accepts for that link type.\<close>
theorem filtered_capture_of_file:
  assumes "open_offline (sw_out (write_all_packets sn lt ps)) = Inr c" "set_filter expr c = (Inr (), c')"
    and "tokenize expr \<noteq> []"
    and "fst (parse_primitive \<lparr>fb_tokens = tokenize expr, fb_pos = 0\<rparr>) = Inr q"
  shows "\<exists>c''. capture_collect c' =
    Some (map packet_view (filter (\<lambda>p. prim_accepts lt q (pk_data p)) (map (stored_packet sn) ps)), None, c'')"
proof -
  have c: "cap_kind c = Offline \<lparr>sr_header = pcap_file_header_new sn lt,
             sr_rest = concat (map (record_image False) (map (stored_packet sn) ps))\<rparr>" "cap_linktype c = lt"
    using assms(1) by (auto simp: open_offline_written)
  with kind_packets_offline [OF written_reads(2) [of sn lt ps]] have "kind_packets (cap_kind c)
      = (map (stored_packet sn) ps, None, Offline \<lparr>sr_header = pcap_file_header_new sn lt, sr_rest = []\<rparr>)"
    by simp
  moreover have "\<forall>p\<in>set (map (stored_packet sn) ps). length (pk_data p) < 2 ^ 32"
    unfolding set_map using stored_packet_length by blast
  ultimately show ?thesis using filtered_collect [OF _ _ assms(3,4)] assms(2) c(2) by fastforce
qed

theorem filtered_capture_of_file_witness:
  "\<exists>c'' p. capture_collect (snd (set_filter ''arp'' (case open_offline (sw_out (write_all_packets 64 1
        [(1, 0, replicate 12 0 @ [8, 6]), (2, 0, replicate 12 0 @ [8, 0])])) of Inr c \<Rightarrow> c)))
      = Some ([packet_view p], None, c'') \<and> pk_ts_sec p = 1"
proof -
  let ?ps = "[(1, 0, replicate 12 0 @ [8, 6]), (2, 0, replicate 12 0 @ [8, 0])] :: (u32 \<times> u32 \<times> bytes) list"
  obtain c where c: "open_offline (sw_out (write_all_packets 64 1 ?ps)) = Inr c" "cap_linktype c = 1"
    by (simp add: open_offline_written)
  have tok: "tokenize ''arp'' = [''arp'']"
    by (simp add: tokenize_def tokenize_word_def split_whitespace_word is_word_def plain_char_def)
  have parse: "fst (parse_primitive \<lparr>fb_tokens = [''arp''], fb_pos = 0\<rparr>) = Inr (Proto 0x0806)"
    by (simp add: parse_primitive_def next_token_def to_ascii_lowercase_def)
  obtain c' where s: "set_filter ''arp'' c = (Inr (), c')"
    by (simp add: set_filter_def filter_compile_def tok parse compile_primitive_def)
  have "prim_accepts 1 (Proto 0x0806) (replicate 12 0 @ [8, 6])"
    "\<not> prim_accepts 1 (Proto 0x0806) (replicate 12 0 @ [8, 0])" by code_simp+
  moreover have "take (unat (64 :: u32)) (replicate 12 0 @ [8, 6]) = (replicate 12 0 @ [8, 6] :: bytes)"
    "take (unat (64 :: u32)) (replicate 12 0 @ [8, 0]) = (replicate 12 0 @ [8, 0] :: bytes)" by simp_all
  ultimately have "filter (\<lambda>p. prim_accepts 1 (Proto 0x0806) (pk_data p)) (map (stored_packet 64) ?ps)
      = [stored_packet 64 (1, 0, replicate 12 0 @ [8, 6])]"
    by (simp add: stored_packet_def)
  then obtain c'' where "capture_collect c' =
      Some ([packet_view (stored_packet 64 (1, 0, replicate 12 0 @ [8, 6]))], None, c'')"
    using filtered_capture_of_file [OF c(1) s, of "Proto 0x0806"] tok parse by auto
  moreover have "pk_ts_sec (stored_packet 64 (1, 0, replicate 12 0 @ [8, 6])) = 1" by (simp add: stored_packet_def)
  ultimately show ?thesis unfolding c(1) by (metis s snd_conv sum.case(2))
qed

section \<open>The loops\<close>

text \<open>What \<open>loop_\<close> should do with the list of packets that a capture still yields.\<close>

fun list_loop ::
  "(packet_header \<Rightarrow> bytes \<Rightarrow> 'u \<Rightarrow> loop_control \<times> 'u) \<Rightarrow> nat \<Rightarrow> nat \<Rightarrow> 'u
     \<Rightarrow> (packet_header \<times> bytes) list \<Rightarrow> string option \<Rightarrow> (string + nat) \<times> 'u" where
  "list_loop cb limit done u [] err =
     (if limit \<le> done then (Inr done, u) else (case err of None \<Rightarrow> Inr done | Some e \<Rightarrow> Inl e, u))"
| "list_loop cb limit done u ((hdr, d) # xs) err =
     (if limit \<le> done then (Inr done, u)
      else (case cb hdr d u of
              (Break, u') \<Rightarrow> (Inr (done + 1), u')
            | (Continue, u') \<Rightarrow> list_loop cb limit (done + 1) u' xs err))"

lemma unat_Suc_less:
  assumes "processed < (limit :: u32)"
  shows "unat (processed + 1) = unat processed + 1"
proof -
  have "unat processed < unat limit" using assms by (simp add: word_less_nat_alt)
  moreover have "unat limit < 2 ^ LENGTH(32)" by (rule unsigned_less)
  ultimately have "unat processed + unat (1 :: u32) < 2 ^ LENGTH(32)" by simp
  then show ?thesis by (subst (asm) unat_add_lem) simp
qed

lemma capture_loop_list:
  assumes "capture_collect c = Some (xs, err, c')"
  shows "\<exists>out u' c''. capture_loop cb limit processed u c = Some (out, u', c'')
    \<and> (map_sum id unat out, u') = list_loop cb (unat limit) (unat processed) u xs err"
  using assms
proof (induction "kind_left (cap_kind c)" arbitrary: c xs processed u rule: less_induct)
  case less
  show ?case
  proof (cases "limit \<le> processed")
    case True
    then show ?thesis
      by (cases xs) (auto simp: capture_loop.simps [of cb limit processed u c] word_le_nat_alt)
  next
    case False
    then have lt: "\<not> unat limit \<le> unat processed" by (simp add: word_le_nat_alt)
    obtain out c1 where n: "capture_next c = Some (out, c1)"
      using less.prems by (subst (asm) capture_collect.simps) (auto split: option.splits)
    consider (err) m where "out = Inl m" | (fin) "out = Inr None" | (pkt) hdr d where "out = Inr (Some (hdr, d))"
      by (metis sum.exhaust option.exhaust surj_pair)
    then show ?thesis
    proof cases
      case (pkt hdr d)
      obtain ys where ys: "capture_collect c1 = Some (ys, err, c')" "xs = (hdr, d) # ys"
        using less.prems n pkt by (subst (asm) capture_collect.simps) (auto split: option.splits)
      obtain ctl u1 where cb: "cb hdr d u = (ctl, u1)" by (cases "cb hdr d u")
      have s: "unat (processed + 1) = unat processed + 1" using False unat_Suc_less [of processed limit] by simp
      show ?thesis
      proof (cases ctl)
        case Continue
        from less.hyps [OF _ ys(1), of "processed + 1" u1] capture_next_left [of c "(hdr, d)" c1] n pkt s
        show ?thesis
          using False lt cb Continue ys(2) n pkt by (simp add: capture_loop.simps [of cb limit processed u c])
      next
        case Break
        then show ?thesis
          using False lt cb ys(2) n pkt s by (simp add: capture_loop.simps [of cb limit processed u c])
      qed
    qed (use less.prems n False lt in \<open>auto simp: capture_collect.simps [of c] capture_loop.simps [of cb limit processed u c]\<close>)
  qed
qed

text \<open>A live capture with two frames waiting, for the examples.\<close>

definition two_frames :: capture where
  "two_frames = \<lparr>cap_kind = Live (raw_open 3 2 64 [RecvFrame [1, 2] 0, RecvFrame [3] 0] []), cap_snaplen = 64,
     cap_linktype = DLT_EN10MB, cap_filter = None, cap_direction = DirInOut, cap_nonblock = False, cap_last_err = []\<rparr>"

lemma two_frames_kind:
  "\<exists>k. kind_packets (cap_kind two_frames) = ([frame_packet 64 ([1, 2], 0), frame_packet 64 ([3], 0)], None, k)"
  by (simp add: two_frames_def raw_open_def exhaust_def raw_next_def Let_def pkttype_matches_dir_def err_text_def
      frame_packet_def)

lemma two_frames_collect:
  "\<exists>c'. capture_collect two_frames
     = Some (map packet_view [frame_packet 64 ([1, 2], 0), frame_packet 64 ([3], 0)], None, c')"
proof -
  obtain k where "kind_packets (cap_kind two_frames) = ([frame_packet 64 ([1, 2], 0), frame_packet 64 ([3], 0)], None, k)"
    using two_frames_kind by blast
  from capture_collect_filters [OF this] show ?thesis
    by (simp add: two_frames_def filter_decides_def cap_accepts_def)
qed

text \<open>C22: \<open>loop_\<close> runs the callback on the packets that the capture still yields, in order, until it
  says \<open>Break\<close> (that packet is counted), until \<open>count\<close> packets are processed (a count of zero or less is
  no limit but \<open>u32::MAX\<close>), or to the end of the capture; it returns the number processed, or the
  error that ended the capture, in which case the count is lost.\<close>
theorem pcap_loop_runs_callback:
  assumes "capture_collect c = Some (xs, err, c')"
  shows "\<exists>out u' c''. pcap_loop count cb u c = Some (out, u', c'')
    \<and> (map_sum id unat out, u')
        = list_loop cb (if sint count \<le> 0 then 2 ^ 32 - 1 else nat (sint count)) 0 u xs err"
proof -
  have "nat (sint count) = unat count" if "\<not> sint count \<le> 0"
  proof -
    have "sint count < 2 ^ 32" using sint_lt [of count] by simp
    then have "uint count = sint count" using that uint_sint [of count] by (simp add: take_bit_int_eq_self)
    then show ?thesis by (simp flip: nat_uint_eq)
  qed
  then show ?thesis
    using capture_loop_list [OF assms, of cb "if sint count \<le> 0 then 0xffffffff else count" 0 u]
    by (simp add: pcap_loop_def split: if_splits)
qed

theorem pcap_loop_runs_callback_witness:
  "\<exists>u' c''. pcap_loop 1 (\<lambda>hdr d u. (Continue, d # u)) [] two_frames = Some (Inr 1, u', c'') \<and> u' = [[1, 2]]"
proof -
  obtain c' where "capture_collect two_frames
     = Some (map packet_view [frame_packet 64 ([1, 2], 0), frame_packet 64 ([3], 0)], None, c')"
    using two_frames_collect by blast
  from pcap_loop_runs_callback [OF this, of 1 "\<lambda>hdr d u. (Continue, d # u)" "[]"]
  obtain out u' c'' where l: "pcap_loop 1 (\<lambda>hdr d u. (Continue, d # u)) [] two_frames = Some (out, u', c'')"
    "map_sum id unat out = Inr 1" "u' = [[1, 2]]"
    by (auto simp: packet_view_def frame_packet_def)
  from l(2) have "out = Inr 1" by (cases out) (auto simp: word_unat_eq_iff)
  with l show ?thesis by simp
qed

text \<open>The records written are the packets that reading the capture would collect.\<close>

lemma export_all:
  assumes "capture_collect c = Some (xs, err, c')" "\<forall>i < length xs. dk_write dk (n + i) = None"
  shows "capture_export dk n w c =
    Some (Inr (n + length xs, fold (\<lambda>(hdr, d). write_packet (hd_ts_sec hdr) (hd_ts_frac hdr) d) xs w), c')"
  using assms
proof (induction xs arbitrary: n w c)
  case Nil
  then show ?case
    by (subst (asm) capture_collect.simps, subst capture_export.simps) (auto split: option.splits sum.splits)
next
  case (Cons x xs)
  obtain hdr d where x: "x = (hdr, d)" by (cases x)
  from Cons.prems(1) obtain c1 where c1: "capture_next c = Some (Inr (Some x), c1)" "capture_collect c1 = Some (xs, err, c')"
    by (subst (asm) capture_collect.simps) (auto split: option.splits sum.splits)
  have "\<forall>i < length xs. dk_write dk (n + 1 + i) = None" using Cons.prems(2) by auto
  from Cons.IH [OF c1(2) this] c1(1) Cons.prems(2) x show ?case by (subst capture_export.simps) auto
qed

lemma export_fails:
  assumes "capture_collect c = Some (xs, err, c')" "i < length xs" "dk_write dk (n + i) = Some e"
    "\<forall>j < i. dk_write dk (n + j) = None"
  shows "\<exists>c''. capture_export dk n w c = Some (Inl e, c'') \<and> capture_collect c'' = Some (drop (Suc i) xs, err, c')"
  using assms
proof (induction xs arbitrary: n w c i)
  case (Cons x xs)
  obtain hdr d where x: "x = (hdr, d)" by (cases x)
  from Cons.prems(1) obtain c1 where c1: "capture_next c = Some (Inr (Some x), c1)" "capture_collect c1 = Some (xs, err, c')"
    by (subst (asm) capture_collect.simps) (auto split: option.splits sum.splits)
  show ?case
  proof (cases i)
    case 0
    with Cons.prems(3) c1 x show ?thesis by (subst capture_export.simps) auto
  next
    case (Suc j)
    have "dk_write dk n = None" using Cons.prems(4) Suc by force
    moreover have "\<exists>c''. capture_export dk (n + 1) (write_packet (hd_ts_sec hdr) (hd_ts_frac hdr) d w) c1 = Some (Inl e, c'')
        \<and> capture_collect c'' = Some (drop (Suc j) xs, err, c')"
      by (rule Cons.IH [OF c1(2)]) (use Cons.prems(2-4) Suc in auto)
    ultimately show ?thesis using c1(1) x Suc by (subst capture_export.simps) simp
  qed
qed simp

text \<open>C38: Exporting a capture, with or without a filter (a compiled filter decides every packet), to a file.
  When all calls on the file succeed, it reports the number of accepted packets, also when an error ended
  the capture, and what it writes is not a copy: it reads back as the same timestamps and data (cut to
  the snapshot length), but every original length is replaced by the captured length, and the header
  says microseconds even when the packets come from a nanosecond file. When a call fails, its error is the
  result: nothing has been read when the file could not be created, and when a record could not be
  written the packets behind it are still there to be read.\<close>
theorem capture_to_file_rewrites:
  fixes c ps defines "qs \<equiv> filter (cap_accepts (cap_filter c)) ps"
  assumes "kind_packets (cap_kind c) = (ps, err, k)" "\<forall>p \<in> set ps. filter_decides (cap_filter c) p"
  shows "(dk_create dk = None \<and> dk_flush dk = None \<and> (\<forall>i < length qs. dk_write dk i = None) \<longrightarrow>
      (\<exists>file r. capture_to_file dk lt c = Some (Inr (of_nat (length qs), file), c\<lparr>cap_kind := k\<rparr>)
        \<and> savefile_open file = Inr r \<and> \<not> is_nano (sr_header r)
        \<and> savefile_packets r = (map (\<lambda>p. stored_packet (cap_snaplen c) (pk_ts_sec p, pk_ts_frac p, pk_data p)) qs,
              None, r\<lparr>sr_rest := []\<rparr>)))
    \<and> (\<forall>e. dk_create dk = Some e \<longrightarrow> capture_to_file dk lt c = Some (Inl e, c))
    \<and> (\<forall>i e. dk_create dk = None \<and> i < length qs \<and> dk_write dk i = Some e \<and> (\<forall>j < i. dk_write dk j = None) \<longrightarrow>
        (\<exists>c'. capture_to_file dk lt c = Some (Inl e, c')
          \<and> capture_collect c' = Some (map packet_view (drop (Suc i) qs), err, c\<lparr>cap_kind := k\<rparr>)))
    \<and> (\<forall>e. dk_create dk = None \<and> (\<forall>i < length qs. dk_write dk i = None) \<and> dk_flush dk = Some e \<longrightarrow>
        capture_to_file dk lt c = Some (Inl e, c\<lparr>cap_kind := k\<rparr>))"
proof -
  let ?new = "savefile_create (cap_snaplen c) lt" and ?fin = "c\<lparr>cap_kind := k\<rparr>"
  let ?recs = "map (\<lambda>p. (pk_ts_sec p, pk_ts_frac p, pk_data p)) qs"
  have f: "fold (\<lambda>(hdr, d). write_packet (hd_ts_sec hdr) (hd_ts_frac hdr) d) (map packet_view qs) w
      = fold (\<lambda>(s, f, d). write_packet s f d) ?recs w" for w
    by (induction qs arbitrary: w) (simp_all add: packet_view_def)
  have coll: "capture_collect c = Some (map packet_view qs, err, ?fin)"
    unfolding qs_def by (rule capture_collect_filters [OF assms(2,3)])
  have written: "capture_export dk 0 ?new c = Some (Inr (length qs, write_all_packets (cap_snaplen c) lt ?recs), ?fin)"
    if "\<forall>i < length qs. dk_write dk i = None"
    using export_all [OF coll, of dk 0 ?new] that by (simp add: f write_all_packets_def)
  have "\<not> is_nano (pcap_file_header_new (cap_snaplen c) lt)"
    by (simp add: is_nano_def pcap_file_header_new_def magics)
  with written_reads [of "cap_snaplen c" lt ?recs] have readback: "\<exists>r. savefile_open (sw_out (write_all_packets (cap_snaplen c) lt ?recs)) = Inr r
      \<and> \<not> is_nano (sr_header r)
      \<and> savefile_packets r = (map (\<lambda>p. stored_packet (cap_snaplen c) (pk_ts_sec p, pk_ts_frac p, pk_data p)) qs,
            None, r\<lparr>sr_rest := []\<rparr>)"
    by (auto simp: o_def)
  show ?thesis
  proof (intro conjI allI impI; (elim conjE)?)
    assume "dk_create dk = None" "dk_flush dk = None" "\<forall>i < length qs. dk_write dk i = None"
    then have "capture_to_file dk lt c
        = Some (Inr (of_nat (length qs), sw_out (write_all_packets (cap_snaplen c) lt ?recs)), ?fin)"
      by (simp add: capture_to_file_def written)
    with readback show "\<exists>file r. capture_to_file dk lt c = Some (Inr (of_nat (length qs), file), ?fin)
        \<and> savefile_open file = Inr r \<and> \<not> is_nano (sr_header r)
        \<and> savefile_packets r = (map (\<lambda>p. stored_packet (cap_snaplen c) (pk_ts_sec p, pk_ts_frac p, pk_data p)) qs,
              None, r\<lparr>sr_rest := []\<rparr>)" by blast
  next
    fix i e assume "dk_create dk = None" "i < length qs" "dk_write dk i = Some e" "\<forall>j < i. dk_write dk j = None"
    then show "\<exists>c'. capture_to_file dk lt c = Some (Inl e, c')
        \<and> capture_collect c' = Some (map packet_view (drop (Suc i) qs), err, ?fin)"
      using export_fails [OF coll, of i dk 0 e ?new] by (auto simp: capture_to_file_def drop_map)
  qed (simp_all add: capture_to_file_def written)
qed

theorem capture_to_file_rewrites_witness:
  "\<exists>file r c' c''. savefile_open file = Inr r
     \<and> fst (savefile_packets r) = [stored_packet 64 (0, 0, [1, 2]), stored_packet 64 (0, 0, [3])]
     \<and> capture_to_file \<lparr>dk_create = None, dk_write = (\<lambda>_. None), dk_flush = None\<rparr> 1 two_frames = Some (Inr (2, file), c')
     \<and> capture_to_file \<lparr>dk_create = None, dk_write = (\<lambda>i. if i = 1 then Some ''full'' else None), dk_flush = None\<rparr> 1 two_frames
         = Some (Inl ''full'', c'')"
proof -
  obtain k where k: "kind_packets (cap_kind two_frames) = ([frame_packet 64 ([1, 2], 0), frame_packet 64 ([3], 0)], None, k)"
    using two_frames_kind by blast
  have t: "cap_filter two_frames = None" "cap_snaplen two_frames = 64" by (simp_all add: two_frames_def)
  then have "\<forall>p \<in> set [frame_packet 64 ([1, 2], 0), frame_packet 64 ([3], 0)]. filter_decides (cap_filter two_frames) p"
    by (simp add: filter_decides_def)
  note exported = capture_to_file_rewrites [OF k this, where lt = 1]
  show ?thesis
    using exported [where dk = "\<lparr>dk_create = None, dk_write = (\<lambda>_. None), dk_flush = None\<rparr>"]
      exported [where dk = "\<lparr>dk_create = None, dk_write = (\<lambda>i. if i = 1 then Some ''full'' else None), dk_flush = None\<rparr>",
        THEN conjunct2, THEN conjunct2, THEN conjunct1, rule_format, of 1 "''full''"]
    by (fastforce simp: t cap_accepts_def frame_packet_def)
qed

section \<open>Transmission and modes\<close>

lemma transmit_live:
  "raw_sends r = map Inr ns @ ss \<Longrightarrow> transmit_loop ps acc (c\<lparr>cap_kind := Live r\<rparr>) =
     (if length ns \<ge> length ps
      then (Inr (acc + of_nat (sum_list (take (length ps) ns))),
            c\<lparr>cap_kind := Live (r\<lparr>raw_sends := map Inr (drop (length ps) ns) @ ss,
                              raw_sent := raw_sent r @ map pk_data ps\<rparr>)\<rparr>)
      else transmit_loop (drop (length ns) ps) (acc + of_nat (sum_list ns))
             (c\<lparr>cap_kind := Live (r\<lparr>raw_sends := ss, raw_sent := raw_sent r @ map pk_data (take (length ns) ps)\<rparr>)\<rparr>))"
proof (induction ps arbitrary: acc ns r)
  case Nil
  have "r\<lparr>raw_sends := map Inr ns @ ss, raw_sent := raw_sent r\<rparr> = r"
    unfolding Nil [symmetric] by simp
  then show ?case by simp
next
  case (Cons p ps)
  show ?case
  proof (cases ns)
    case Nil
    have r: "r\<lparr>raw_sends := ss\<rparr> = r" using Cons.prems unfolding Nil by (simp flip: Cons.prems)
    show ?thesis by (simp add: Nil r del: transmit_loop.simps)
  next
    case (Cons n ns')
    let ?r = "r\<lparr>raw_sends := map Inr ns' @ ss, raw_sent := raw_sent r @ [pk_data p]\<rparr>"
    have "transmit_loop (p # ps) acc (c\<lparr>cap_kind := Live r\<rparr>) = transmit_loop ps (acc + of_nat n) (c\<lparr>cap_kind := Live ?r\<rparr>)"
      using Cons.prems Cons by (simp add: inject_def raw_send_frame_def)
    with Cons.IH [of ?r ns' "acc + of_nat n"] Cons show ?thesis by (simp add: add.assoc)
  qed
qed

text \<open>C33: Transmitting a queue sends its packets in order. When the sends succeed the result is the
  total of what they report (modulo \<open>2^32\<close>); when one fails, the packets before it have gone out, the
  rest are not tried, the error is the result and the message of \<open>geterr\<close>, and the count of what was
  sent is lost. On an offline capture it fails exactly when the queue has packets, and sends nothing.\<close>
theorem transmit_in_order:
  assumes "cap_kind c = Live r" "raw_sends r = map Inr ns @ Inl e # ss"
  shows "transmit_sendqueue q c =
    (if length (sq_pkts q) \<le> length ns
     then (Inr (of_nat (sum_list (take (length (sq_pkts q)) ns))),
           c\<lparr>cap_kind := Live (r\<lparr>raw_sends := map Inr (drop (length (sq_pkts q)) ns) @ Inl e # ss,
                             raw_sent := raw_sent r @ map pk_data (sq_pkts q)\<rparr>)\<rparr>)
     else (Inl (''pcap_inject: '' @ e),
           c\<lparr>cap_kind := Live (r\<lparr>raw_sends := ss, raw_sent := raw_sent r @ map pk_data (take (length ns) (sq_pkts q))\<rparr>),
             cap_last_err := e\<rparr>))
    \<and> fst (transmit_sendqueue q (c\<lparr>cap_kind := Offline s\<rparr>)) =
       (if sq_pkts q = [] then Inr 0 else Inl ''cannot inject on an offline capture'')"
proof
  have c: "c\<lparr>cap_kind := Live r\<rparr> = c" using assms by simp
  have stop: "raw_sends r' = Inl e # ss \<Longrightarrow> transmit_loop (p # ps) acc (c\<lparr>cap_kind := Live r'\<rparr>)
      = (Inl (''pcap_inject: '' @ e), c\<lparr>cap_kind := Live (r'\<lparr>raw_sends := ss\<rparr>), cap_last_err := e\<rparr>)" for p ps acc r'
    by (simp add: inject_def raw_send_frame_def)
  have l: "transmit_sendqueue q c = transmit_loop (sq_pkts q) 0 (c\<lparr>cap_kind := Live r\<rparr>)"
    using c by (simp add: transmit_sendqueue_def)
  show "transmit_sendqueue q c =
    (if length (sq_pkts q) \<le> length ns
     then (Inr (of_nat (sum_list (take (length (sq_pkts q)) ns))),
           c\<lparr>cap_kind := Live (r\<lparr>raw_sends := map Inr (drop (length (sq_pkts q)) ns) @ Inl e # ss,
                             raw_sent := raw_sent r @ map pk_data (sq_pkts q)\<rparr>)\<rparr>)
     else (Inl (''pcap_inject: '' @ e),
           c\<lparr>cap_kind := Live (r\<lparr>raw_sends := ss, raw_sent := raw_sent r @ map pk_data (take (length ns) (sq_pkts q))\<rparr>),
             cap_last_err := e\<rparr>))"
  proof (cases "length (sq_pkts q) \<le> length ns")
    case False
    then obtain p ps where d: "drop (length ns) (sq_pkts q) = p # ps"
      by (cases "drop (length ns) (sq_pkts q)") auto
    show ?thesis
      unfolding l transmit_live [OF assms(2)] d
      by (subst stop) (use False in simp_all)
  qed (simp add: l transmit_live [OF assms(2)])
  show "fst (transmit_sendqueue q (c\<lparr>cap_kind := Offline s\<rparr>)) =
       (if sq_pkts q = [] then Inr 0 else Inl ''cannot inject on an offline capture'')"
    by (cases "sq_pkts q") (simp_all add: transmit_sendqueue_def inject_def Let_def)
qed

theorem transmit_in_order_witness:
  "fst (transmit_sendqueue (snd (sendqueue_add (frame_packet 64 ([1, 2], 0)) (sendqueue_new 100)))
     (two_frames\<lparr>cap_kind := Live ((raw_open 3 2 64 [] [])\<lparr>raw_sends := [Inr 2, Inl ''down'']\<rparr>)\<rparr>)) = Inr 2"
proof -
  let ?c = "two_frames\<lparr>cap_kind := Live ((raw_open 3 2 64 [] [])\<lparr>raw_sends := [Inr 2, Inl ''down'']\<rparr>)\<rparr>"
  let ?q = "snd (sendqueue_add (frame_packet 64 ([1, 2], 0)) (sendqueue_new 100))"
  have "length (sq_pkts ?q) = 1"
    by (simp add: sendqueue_add_def sendqueue_new_def saturating_add_def frame_packet_def)
  moreover have "cap_kind ?c = Live ((raw_open 3 2 64 [] [])\<lparr>raw_sends := [Inr 2, Inl ''down'']\<rparr>)"
    "raw_sends ((raw_open 3 2 64 [] [])\<lparr>raw_sends := [Inr 2, Inl ''down'']\<rparr>) = map Inr [2] @ Inl ''down'' # []"
    by simp_all
  from transmit_in_order [OF this, THEN conjunct1, of ?q] calculation show ?thesis by simp
qed

text \<open>The handle's idea of its modes: on an offline capture \<open>set_direction\<close> and \<open>inject\<close> only set
  the error message and \<open>set_nonblock\<close> succeeds; a live capture starts with \<open>nonblock()\<close> false although
  its socket is non-blocking from the start, and a failed \<open>set_filter\<close> keeps the filter in force.\<close>
theorem capture_modes:
  "set_direction dir (c\<lparr>cap_kind := Offline s\<rparr>)
      = (Inl ''pcap_setdirection: cannot set direction on an offline capture'',
         c\<lparr>cap_kind := Offline s, cap_last_err := ''pcap_setdirection: cannot set direction on an offline capture''\<rparr>)
   \<and> set_nonblock fcntl nb (c\<lparr>cap_kind := Offline s\<rparr>) = (Inr (), c\<lparr>cap_kind := Offline s, cap_nonblock := nb\<rparr>)
   \<and> (\<exists>l. open_live (Inr (raw_open fd ifindex sn recvs sends)) sn = Inr l \<and> \<not> cap_nonblock l
        \<and> cap_kind l = Live (raw_open fd ifindex sn recvs sends) \<and> raw_nonblock (raw_open fd ifindex sn recvs sends))
   \<and> cap_filter (snd (set_filter expr c)) =
       (case filter_compile expr (cap_linktype c) of Inl _ \<Rightarrow> cap_filter c | Inr prog \<Rightarrow> Some prog)"
  by (simp add: set_direction_def set_nonblock_def open_live_def raw_open_def set_filter_def Let_def split: sum.split)

text \<open>The default device on Linux is the first interface without the kernel's broadcast bit, which
  the loopback interface lacks and Ethernet cards have: with \<open>lo\<close> and \<open>eth0\<close> in the usual order it is
  \<open>lo\<close>, and with \<open>eth0\<close> first it is still \<open>lo\<close>.\<close>
theorem lookupdev_prefers_loopback:
  "lookupdev (unix_interfaces little (Some ifas)) =
     (case find (\<lambda>i. \<not> bit (ifa_flags i) 1) ifas of
        Some i \<Rightarrow> Some (ansi_to_string (ifa_name i))
      | None \<Rightarrow> (case ifas of [] \<Rightarrow> None | i # _ \<Rightarrow> Some (ansi_to_string (ifa_name i))))
   \<and> lookupdev (unix_interfaces little (Some
       [\<lparr>ifa_name = Some (bytes_of ''eth0'' @ [0]), ifa_flags = 0x1043, ifa_addr = a\<rparr>,
        \<lparr>ifa_name = Some (bytes_of ''lo'' @ [0]), ifa_flags = 0x49, ifa_addr = b\<rparr>])) = Some ''lo''"
proof -
  have dev: "find P (map f xs) = map_option f (find (P \<circ> f) xs)" for P and f :: "'a \<Rightarrow> 'b" and xs
    by (induction xs) auto
  have flag: "(\<lambda>d. dev_flags d AND INTF_FLAG_LOOPBACK = 0) \<circ> (\<lambda>i. \<lparr>dev_name = intf_name i,
                dev_description =
                  (if intf_type i = INTF_TYPE_LOOPBACK then ''Loopback interface''
                   else if intf_type i = INTF_TYPE_ETH then ''Ethernet''
                   else if intf_type i = INTF_TYPE_PPP then ''Point-to-point''
                   else ''Network interface''),
                dev_addresses = intf_addr i # intf_alias_addrs i,
                dev_flags = intf_flags i\<rparr>) \<circ> unix_entry little = (\<lambda>i. \<not> bit (ifa_flags i) 1)" (is "?f = _")
  proof (rule ext)
    fix i :: ifaddrs
    have "(ucast (ifa_flags i) :: u16) AND 2 \<noteq> 0 \<longleftrightarrow> bit (ifa_flags i) 1" by (simp add: and_flag_iff bit_simps)
    then show "?f i = (\<not> bit (ifa_flags i) 1)" by (auto simp: INTF_FLAG_LOOPBACK_def)
  qed
  have name: "intf_name (unix_entry little i) = (ansi_to_string (ifa_name i))" for i
    by (simp add: unix_entry_def Let_def split: option.split)
  have main: "lookupdev (unix_interfaces little (Some xs)) =
     (case find (\<lambda>i. \<not> bit (ifa_flags i) 1) xs of
        Some i \<Rightarrow> Some (ansi_to_string (ifa_name i))
      | None \<Rightarrow> (case xs of [] \<Rightarrow> None | i # _ \<Rightarrow> Some (ansi_to_string (ifa_name i))))" for xs
    unfolding lookupdev_def findalldevs_def unix_interfaces_def option.case dev flag
    by (simp add: name split: option.split list.split)
  have "ansi_to_string (Some (bytes_of ''lo'' @ [0])) = ''lo''" by code_simp
  then show ?thesis
    using main [of ifas] main [of "[\<lparr>ifa_name = Some (bytes_of ''eth0'' @ [0]), ifa_flags = 0x1043, ifa_addr = a\<rparr>,
        \<lparr>ifa_name = Some (bytes_of ''lo'' @ [0]), ifa_flags = 0x49, ifa_addr = b\<rparr>]"] by simp
qed

end
