(* ===== verification/Pcap_Live.thy ===== *)
theory Pcap_Live
  imports Pcap_Capture
begin

text \<open>
  Live captures from end to end: opening a socket (\<open>wnr-pcap/src/raw.rs\<close>), wrapping it in a capture
  handle, choosing a direction, compiling and setting a filter, and reading (\<open>wnr-pcap/src/capture.rs\<close>
  and \<open>bpf.rs\<close>), on Linux and on Windows.
\<close>

lemma snaplen_bytes: "max (unat (sn :: u32)) 64 < 2 ^ 32"
proof -
  have "unat sn < 2 ^ LENGTH(32)" by (rule unsigned_less)
  then show ?thesis by simp
qed

section \<open>Linux\<close>

text \<open>C13: A live capture on Linux, from opening the device to the end of what the socket has to say: once the
  device is open, choosing a direction and a filter whose parse is \<open>q\<close> succeeds, and the reads
  return, in order, exactly the frames of that direction, cut to the buffer, whose bytes \<open>q\<close> accepts as an
  Ethernet frame; a receive error ends them and is reported by its text.\<close>
theorem live_capture_filtered:
  assumes "raw_open_device sys device sn fds = (Inr r, held)"
    and "tokenize expr \<noteq> []" "fst (parse_primitive \<lparr>fb_tokens = tokenize expr, fb_pos = 0\<rparr>) = Inr q"
  shows "\<exists>c c1 c2 c3. open_live (Inr r) sn = Inr c \<and> set_direction dir c = (Inr (), c1) \<and> set_filter expr c1 = (Inr (), c2)
    \<and> capture_collect c2 = Some
        (map packet_view (filter (\<lambda>p. prim_accepts DLT_EN10MB q (pk_data p))
           (map (frame_packet (max (unat sn) 64))
              (filter (\<lambda>(f, t). pkttype_matches_dir (ucast t) dir) (frames_ready (ls_recvs sys))))),
         map_option io_error_text (frames_error (ls_recvs sys)), c3)"
proof -
  have r: "raw_recvs r = ls_recvs sys" "raw_buf_len r = max (unat sn) 64"
    using assms(1) by (auto simp: raw_open_device_def Let_def raw_open_def split: if_splits)
  obtain c where c: "open_live (Inr r) sn = Inr c" "cap_kind c = Live r" "cap_linktype c = DLT_EN10MB"
    by (simp add: open_live_def)
  let ?c1 = "c\<lparr>cap_kind := Live (raw_set_direction dir r), cap_direction := dir\<rparr>"
  let ?ps = "map (frame_packet (max (unat sn) 64))
      (filter (\<lambda>(f, t). pkttype_matches_dir (ucast t) dir) (frames_ready (ls_recvs sys)))"
  have "kind_packets (cap_kind ?c1) = (?ps, map_option io_error_text (frames_error (ls_recvs sys)),
      Live (snd (snd (raw_packets (raw_set_direction dir r)))))"
    by (simp add: kind_packets_backend raw_packets_run [OF refl] raw_set_direction_def r)
  moreover have "\<forall>p\<in>set ?ps. length (pk_data p) < 2 ^ 32"
    using snaplen_bytes [of sn] by (auto simp: frame_packet_def)
  ultimately obtain c2 where "set_filter expr ?c1 = (Inr (), c2)" "capture_collect c2 = Some
      (map packet_view (filter (\<lambda>p. prim_accepts DLT_EN10MB q (pk_data p)) ?ps),
       map_option io_error_text (frames_error (ls_recvs sys)),
       c2\<lparr>cap_kind := Live (snd (snd (raw_packets (raw_set_direction dir r))))\<rparr>)"
    using filtered_collect [of ?c1 _ _ _ expr q] assms(2,3) c(3) by auto
  moreover have "set_direction dir c = (Inr (), ?c1)" by (simp add: set_direction_def c)
  ultimately show ?thesis using c(1) by blast
qed

text \<open>Of an incoming ARP frame, an outgoing one and an incoming IPv4 frame, a capture of incoming \<open>arp\<close>
  returns the first.\<close>

definition demo_linux :: linux_sys where
  "demo_linux = \<lparr>ls_socket = (\<lambda>p. 3), ls_ifindex = (\<lambda>d. if d = ''eth0'' then 2 else 0), ls_bind = (\<lambda>p i. 0),
     ls_socket_error = ''error'', ls_ifindex_error = ''error'', ls_bind_error = ''error'', ls_setfl = True,
     ls_recvs = [RecvFrame (replicate 12 0 @ [8, 6]) 0, RecvFrame (replicate 12 0 @ [8, 6]) 4,
                 RecvFrame (replicate 12 0 @ [8, 0]) 0], ls_sends = []\<rparr>"

lemma arp_parse:
  "tokenize ''arp'' = [''arp'']" "fst (parse_primitive \<lparr>fb_tokens = [''arp''], fb_pos = 0\<rparr>) = Inr (Proto 0x0806)"
  by (simp_all add: tokenize_def tokenize_word_def split_whitespace_word is_word_def plain_char_def
      parse_primitive_def next_token_def to_ascii_lowercase_def)

theorem live_capture_filtered_witness:
  "\<exists>r held c c1 c2 c3. raw_open_device demo_linux ''eth0'' 96 [] = (Inr r, held) \<and> open_live (Inr r) 96 = Inr c
     \<and> set_direction DirIn c = (Inr (), c1) \<and> set_filter ''arp'' c1 = (Inr (), c2)
     \<and> capture_collect c2 = Some ([packet_view (frame_packet 96 (replicate 12 0 @ [8, 6], 0))], None, c3)"
proof -
  obtain r held where o: "raw_open_device demo_linux ''eth0'' 96 [] = (Inr r, held)"
    by (simp add: raw_open_device_def demo_linux_def Let_def)
  have "take (unat (96 :: u32)) (replicate 12 0 @ [8, 6]) = (replicate 12 0 @ [8, 6] :: bytes)"
    "take (unat (96 :: u32)) (replicate 12 0 @ [8, 0]) = (replicate 12 0 @ [8, 0] :: bytes)" by simp_all
  moreover have "prim_accepts DLT_EN10MB (Proto 0x0806) (replicate 12 0 @ [8, 6])"
    "\<not> prim_accepts DLT_EN10MB (Proto 0x0806) (replicate 12 0 @ [8, 0])" by code_simp+
  ultimately have "filter (\<lambda>p. prim_accepts DLT_EN10MB (Proto 0x0806) (pk_data p))
           (map (frame_packet (max (unat (96 :: u32)) 64))
              (filter (\<lambda>(f, t). pkttype_matches_dir (ucast t) DirIn) (frames_ready (ls_recvs demo_linux))))
      = [frame_packet 96 (replicate 12 0 @ [8, 6], 0)]"
    "frames_error (ls_recvs demo_linux) = None"
    by (simp_all add: demo_linux_def pkttype_matches_dir_def PKT_OUTGOING_def frame_packet_def)
  with live_capture_filtered [OF o, of "''arp''" "Proto 0x0806" DirIn] arp_parse o show ?thesis by auto
qed

section \<open>Windows\<close>

text \<open>C26: The same on Windows, where the datagrams fit the buffer that \<open>recv\<close> is given: the direction is
  ignored, and the filter is compiled for raw IP. As the code looks for the EtherType at offset 12
  whatever the link type, and there a raw IPv4 datagram has its source address, the filter \<open>ip\<close> returns
  the datagrams from addresses 8.0.x.y and no others.\<close>
theorem windows_capture_filtered:
  assumes "win_open wsys ents device sn promisc wp = (Inr w, wp')"
    and "\<forall>x\<in>set (datagrams_ready (ws_recvs wsys)). length (fst x) \<le> max (unat sn) 64"
    and "tokenize expr \<noteq> []" "fst (parse_primitive \<lparr>fb_tokens = tokenize expr, fb_pos = 0\<rparr>) = Inr q"
  shows "\<exists>c c1 c2 c3. open_live_windows (Inr w) sn = Inr c \<and> set_direction dir c = (Inr (), c1)
    \<and> set_filter expr c1 = (Inr (), c2)
    \<and> capture_collect c2 = Some
        (map packet_view (filter (\<lambda>p. prim_accepts DLT_RAW q (pk_data p))
           (map datagram_packet (datagrams_ready (ws_recvs wsys)))),
         map_option io_error_text (receive_error (ws_recvs wsys)), c3)
    \<and> (\<forall>d. prim_accepts DLT_RAW (Proto 0x0800) d \<longleftrightarrow> 14 \<le> length d \<and> d ! 12 = 8 \<and> d ! 13 = 0)"
proof -
  have r: "win_recvs w = ws_recvs wsys"
    using assms(1) by (auto simp: win_open_def Let_def split: if_splits option.splits list.splits)
  obtain c where c: "open_live_windows (Inr w) sn = Inr c" "cap_kind c = LiveWin w" "cap_linktype c = DLT_RAW"
    by (simp add: open_live_windows_def)
  let ?c1 = "c\<lparr>cap_kind := LiveWin (win_set_direction dir w), cap_direction := dir\<rparr>"
  let ?ps = "map datagram_packet (datagrams_ready (ws_recvs wsys))"
  have "kind_packets (cap_kind ?c1) = (?ps, map_option io_error_text (receive_error (ws_recvs wsys)),
      LiveWin (snd (snd (win_packets w))))"
    by (simp add: kind_packets_backend win_packets_run [OF refl] win_set_direction_def r)
  moreover have "\<forall>p\<in>set ?ps. length (pk_data p) < 2 ^ 32"
    using snaplen_bytes [of sn] assms(2) by (force simp: datagram_packet_def)
  ultimately obtain c2 where "set_filter expr ?c1 = (Inr (), c2)" "capture_collect c2 = Some
      (map packet_view (filter (\<lambda>p. prim_accepts DLT_RAW q (pk_data p)) ?ps),
       map_option io_error_text (receive_error (ws_recvs wsys)), c2\<lparr>cap_kind := LiveWin (snd (snd (win_packets w)))\<rparr>)"
    using filtered_collect [of ?c1 _ _ _ expr q] assms(3,4) c(3) by auto
  moreover have "set_direction dir c = (Inr (), ?c1)" by (simp add: set_direction_def c)
  moreover have "prim_accepts DLT_RAW (Proto 0x0800) d \<longleftrightarrow> 14 \<le> length d \<and> d ! 12 = 8 \<and> d ! 13 = 0" for d
  proof -
    have "slice 12 14 d = [d ! 12, d ! 13]" if "14 \<le> length d"
      using that by (intro nth_equalityI) (auto simp: slice_def less_Suc_eq numeral_2_eq_2)
    moreover have "u16_to_be (ucast (0x0800 :: u32)) = [8, 0]" by code_simp
    ultimately show ?thesis by (auto simp: field_def)
  qed
  ultimately show ?thesis using c(1) by blast
qed

text \<open>Of a datagram from 10.0.0.1 and one from 8.0.0.1, a Windows capture of \<open>ip\<close> returns the second.\<close>

definition demo_datagram :: "u8 \<Rightarrow> bytes" where
  "demo_datagram a = [0x45, 0, 0, 20, 0, 0, 0, 0, 64, 6, 0, 0, a, 0, 0, 1, 10, 0, 0, 5]"

definition demo_windows :: win_sys where
  "demo_windows = \<lparr>ws_socket = Some 7, ws_bind = (\<lambda>a. None), ws_rcvall = True, ws_fionbio = True,
     ws_recvs = [WinDatagram (demo_datagram 10) (Some (1, 0)), WinDatagram (demo_datagram 8) (Some (2, 0))]\<rparr>"

theorem windows_capture_filtered_witness:
  "\<exists>w wp' c c1 c2 c3. win_open demo_windows [intf_default\<lparr>intf_name := ''net0'', intf_addr := addr_ipv4 (Ipv4Addr 10 0 0 5)\<rparr>]
        ''net0'' 96 True \<lparr>wp_started = False, wp_startups = 0, wp_socks = []\<rparr> = (Inr w, wp')
     \<and> open_live_windows (Inr w) 96 = Inr c \<and> set_direction DirOut c = (Inr (), c1) \<and> set_filter ''ip'' c1 = (Inr (), c2)
     \<and> capture_collect c2 = Some ([packet_view (datagram_packet (demo_datagram 8, Some (2, 0)))], None, c3)"
proof -
  let ?ents = "[intf_default\<lparr>intf_name := ''net0'', intf_addr := addr_ipv4 (Ipv4Addr 10 0 0 5)\<rparr>]"
  have "interface_ipv4 ?ents ''net0'' = Some [10, 0, 0, 5]" by code_simp
  then obtain w wp' where o: "win_open demo_windows ?ents ''net0'' 96 True
      \<lparr>wp_started = False, wp_startups = 0, wp_socks = []\<rparr> = (Inr w, wp')"
    by (simp add: win_open_def demo_windows_def Let_def)
  have ready: "datagrams_ready (ws_recvs demo_windows)
      = [(demo_datagram 10, Some (1, 0)), (demo_datagram 8, Some (2, 0))]" "receive_error (ws_recvs demo_windows) = None"
    by (simp_all add: demo_windows_def demo_datagram_def)
  have parse: "tokenize ''ip'' = [''ip'']" "fst (parse_primitive \<lparr>fb_tokens = [''ip''], fb_pos = 0\<rparr>) = Inr (Proto 0x0800)"
    by (simp_all add: tokenize_def tokenize_word_def split_whitespace_word is_word_def plain_char_def
      parse_primitive_def next_token_def to_ascii_lowercase_def)
  have acc: "prim_accepts DLT_RAW (Proto 0x0800) (demo_datagram 8)"
    "\<not> prim_accepts DLT_RAW (Proto 0x0800) (demo_datagram 10)" by code_simp+
  have fit: "\<forall>x\<in>set (datagrams_ready (ws_recvs demo_windows)). length (fst x) \<le> max (unat (96 :: u32)) 64"
    unfolding ready by (simp add: demo_datagram_def)
  have data: "pk_data (datagram_packet x) = fst x" for x by (simp add: datagram_packet_def case_prod_beta)
  from windows_capture_filtered [OF o fit, of "''ip''" "Proto 0x0800" DirOut, unfolded parse ready]
  obtain c c1 c2 c3 where "open_live_windows (Inr w) 96 = Inr c" "set_direction DirOut c = (Inr (), c1)"
    "set_filter ''ip'' c1 = (Inr (), c2)"
    "capture_collect c2 = Some ([packet_view (datagram_packet (demo_datagram 8, Some (2, 0)))], None, c3)"
    using acc by (auto simp: data simp del: prim_accepts.simps)
  with o show ?thesis by blast
qed

end
