(* ===== verification/Nsock_Iod.thy ===== *)
theory Nsock_Iod
  imports Dnet_Route "HOL-Library.AList"
begin

text \<open>
  \<open>wnr-nsock/src/event.rs\<close> and \<open>wnr-nsock/src/iod.rs\<close>: event kinds and statuses, and I/O descriptors.
  A socket is a script of what the operating system will answer to its coming reads and writes, with
  what it has accepted; when the script runs out, a read would block and a write is accepted.
\<close>

section \<open>Events\<close>

datatype event_type = EvConnect | EvRead | EvWrite | EvTimer

fun event_type_str :: "event_type \<Rightarrow> string" where
  "event_type_str EvConnect = ''CONNECT''"
| "event_type_str EvRead = ''READ''"
| "event_type_str EvWrite = ''WRITE''"
| "event_type_str EvTimer = ''TIMER''"

datatype event_status = StSuccess | StError | StTimeout | StCancelled | StKill | StEof

fun event_status_str :: "event_status \<Rightarrow> string" where
  "event_status_str StSuccess = ''SUCCESS''"
| "event_status_str StError = ''ERROR''"
| "event_status_str StTimeout = ''TIMEOUT''"
| "event_status_str StCancelled = ''CANCELLED''"
| "event_status_str StKill = ''KILL''"
| "event_status_str StEof = ''EOF''"

datatype loop_status = LoopNoEvents | LoopTimeout | LoopError | LoopQuit

section \<open>Sockets\<close>

datatype read_answer = RdChunk bytes | RdWouldBlock | RdError
datatype write_answer = WrTook nat | WrWouldBlock | WrError

record sock =
  sk_fd :: i32
  sk_local :: "socket_addr option"
  sk_peer :: "socket_addr option"
  sk_accepts :: "socket_addr \<Rightarrow> bool"
  sk_reads :: "read_answer list"
  sk_writes :: "write_answer list"
  sk_sent :: bytes
  sk_datagrams :: "(socket_addr \<times> bytes) list"
  sk_timeouts :: "nat option \<times> nat option"

text \<open>
  \<open>sk_local\<close> is the answer of \<open>local_addr\<close> and \<open>sk_peer\<close> the remote address the socket is connected to;
  \<open>sk_accepts\<close> says which addresses \<open>connect\<close> on a datagram socket succeeds for. A stream has sent
  bytes, a datagram socket datagrams, each to the address connected at the time.
\<close>

definition idle_sock :: sock where
  "idle_sock = \<lparr>sk_fd = 3, sk_local = None, sk_peer = None, sk_accepts = (\<lambda>a. True), sk_reads = [], sk_writes = [],
     sk_sent = [], sk_datagrams = [], sk_timeouts = (None, None)\<rparr>"

text \<open>A stream read into a buffer of \<open>n\<close> bytes leaves the rest of what has arrived; a datagram
  receive drops it.\<close>

definition stream_read :: "nat \<Rightarrow> sock \<Rightarrow> read_answer \<times> sock" where
  "stream_read n s =
     (case sk_reads s of
        [] \<Rightarrow> (RdWouldBlock, s)
      | RdChunk bs # rs \<Rightarrow>
          (RdChunk (take n bs), s\<lparr>sk_reads := (if length bs > n then RdChunk (drop n bs) # rs else rs)\<rparr>)
      | a # rs \<Rightarrow> (a, s\<lparr>sk_reads := rs\<rparr>))"

definition datagram_recv :: "nat \<Rightarrow> sock \<Rightarrow> read_answer \<times> sock" where
  "datagram_recv n s =
     (case sk_reads s of
        [] \<Rightarrow> (RdWouldBlock, s)
      | RdChunk bs # rs \<Rightarrow> (RdChunk (take n bs), s\<lparr>sk_reads := rs\<rparr>)
      | a # rs \<Rightarrow> (a, s\<lparr>sk_reads := rs\<rparr>))"

definition stream_write :: "bytes \<Rightarrow> sock \<Rightarrow> write_answer \<times> sock" where
  "stream_write d s =
     (case sk_writes s of
        [] \<Rightarrow> (WrTook (length d), s\<lparr>sk_sent := sk_sent s @ d\<rparr>)
      | WrTook k # ws \<Rightarrow>
          (WrTook (min k (length d)), s\<lparr>sk_writes := ws, sk_sent := sk_sent s @ take k d\<rparr>)
      | a # ws \<Rightarrow> (a, s\<lparr>sk_writes := ws\<rparr>))"

text \<open>A datagram goes out whole, to the connected address; without one \<open>send\<close> fails.\<close>

definition datagram_send :: "bytes \<Rightarrow> sock \<Rightarrow> write_answer \<times> sock" where
  "datagram_send d s =
     (case sk_peer s of
        None \<Rightarrow> (WrError, s)
      | Some a \<Rightarrow>
          (case sk_writes s of
             [] \<Rightarrow> (WrTook (length d), s\<lparr>sk_datagrams := sk_datagrams s @ [(a, d)]\<rparr>)
           | WrTook k # ws \<Rightarrow>
               (WrTook (length d), s\<lparr>sk_writes := ws, sk_datagrams := sk_datagrams s @ [(a, d)]\<rparr>)
           | w # ws \<Rightarrow> (w, s\<lparr>sk_writes := ws\<rparr>)))"

definition datagram_connect :: "socket_addr \<Rightarrow> sock \<Rightarrow> sock" where
  "datagram_connect a s = (if sk_accepts s a then s\<lparr>sk_peer := Some a\<rparr> else s)"

text \<open>Setting both timeouts, given the error of each of the two calls, if any.\<close>

definition sock_set_timeout :: "string option \<times> string option \<Rightarrow> nat \<Rightarrow> sock \<Rightarrow> (string + unit) \<times> sock" where
  "sock_set_timeout errs dur s =
     (case errs of
        (Some e, _) \<Rightarrow> (Inl e, s)
      | (None, Some e) \<Rightarrow> (Inl e, s\<lparr>sk_timeouts := (Some dur, snd (sk_timeouts s))\<rparr>)
      | (None, None) \<Rightarrow> (Inr (), s\<lparr>sk_timeouts := (Some dur, Some dur)\<rparr>))"

section \<open>Descriptors\<close>

datatype iod_kind = IodTcp | IodUdp

record iod =
  iod_id :: nat
  iod_tcp :: "sock option"
  iod_udp :: "sock option"
  iod_kind :: iod_kind
  iod_peer :: "socket_addr option"
  iod_hostname :: "string option"
  iod_read_count :: nat
  iod_write_count :: nat
  iod_connected :: bool
  iod_udata :: nat

definition iod_new_tcp :: iod where
  "iod_new_tcp = \<lparr>iod_id = 0, iod_tcp = None, iod_udp = None, iod_kind = IodTcp, iod_peer = None,
     iod_hostname = None, iod_read_count = 0, iod_write_count = 0, iod_connected = False, iod_udata = 0\<rparr>"

text \<open>\<open>bound\<close>: the socket that \<open>bind\<close> returned, or \<open>None\<close> for an error; whether broadcast is enabled
  on it is not observable here.\<close>

definition iod_new_udp :: "sock option \<Rightarrow> iod option" where
  "iod_new_udp bound = map_option (\<lambda>s. iod_new_tcp\<lparr>iod_udp := Some s, iod_kind := IodUdp\<rparr>) bound"

definition iod_from_tcp_stream :: "sock \<Rightarrow> nat \<Rightarrow> iod" where
  "iod_from_tcp_stream s i =
     iod_new_tcp\<lparr>iod_id := i, iod_tcp := Some s, iod_peer := sk_peer s, iod_connected := (sk_peer s \<noteq> None)\<rparr>"

definition iod_from_udp_socket :: "sock \<Rightarrow> nat \<Rightarrow> iod" where
  "iod_from_udp_socket s i = iod_new_tcp\<lparr>iod_id := i, iod_udp := Some s, iod_kind := IodUdp\<rparr>"

definition iod_fd :: "iod \<Rightarrow> i32" where
  "iod_fd d =
     (case iod_tcp d of
        Some s \<Rightarrow> sk_fd s
      | None \<Rightarrow> (case iod_udp d of Some u \<Rightarrow> sk_fd u | None \<Rightarrow> - 1))"

definition iod_set_timeout ::
  "string option \<times> string option \<Rightarrow> string option \<times> string option \<Rightarrow> nat \<Rightarrow> iod \<Rightarrow> (string + unit) \<times> iod" where
  "iod_set_timeout tcp_errs udp_errs dur d =
     (let (r1, d1) = (case iod_tcp d of
                        None \<Rightarrow> (Inr (), d)
                      | Some t \<Rightarrow> (let (r, t') = sock_set_timeout tcp_errs dur t in (r, d\<lparr>iod_tcp := Some t'\<rparr>)))
      in case r1 of
           Inl e \<Rightarrow> (Inl e, d1)
         | Inr () \<Rightarrow>
             (case iod_udp d1 of
                None \<Rightarrow> (Inr (), d1)
              | Some u \<Rightarrow> (let (r, u') = sock_set_timeout udp_errs dur u in (r, d1\<lparr>iod_udp := Some u'\<rparr>))))"

definition iod_local_addr :: "iod \<Rightarrow> socket_addr option" where
  "iod_local_addr d =
     (case iod_tcp d of
        Some t \<Rightarrow> sk_local t
      | None \<Rightarrow> (case iod_udp d of Some u \<Rightarrow> sk_local u | None \<Rightarrow> None))"

fun socket_ip :: "socket_addr \<Rightarrow> ipv4_addr + ipv6_addr" where
  "socket_ip (SockV4 ip _) = Inl ip"
| "socket_ip (SockV6 ip _ _ _) = Inr ip"

definition iod_remote_ip :: "iod \<Rightarrow> (ipv4_addr + ipv6_addr) option" where
  "iod_remote_ip d = map_option socket_ip (iod_peer d)"

section \<open>Hash maps\<close>

text \<open>
  A \<open>HashMap\<close> is an association list with one entry per key. The order in which Rust iterates over it
  is unspecified; the operations that iterate take it as an argument (see \<open>is_order\<close>).
\<close>

definition is_order :: "(nat list \<Rightarrow> nat list) \<Rightarrow> bool" where
  "is_order ord \<longleftrightarrow> (\<forall>ks. set (ord ks) = set ks \<and> distinct (ord ks) = distinct ks)"

end
