(* ===== verification/Nsock_Pool.thy ===== *)
theory Nsock_Pool
  imports Nsock_Iod Rust_Unicode
begin

text \<open>
  \<open>wnr-nsock/src/pool.rs\<close>, first part: the pool's state and the operations a caller runs on it
  (descriptors, requests, cancellation, deletion). The event loop is in theory Nsock\_Loop.
  Time is counted in milliseconds. Handlers are closures of the caller; what the model keeps of them
  is \<open>pool_log\<close>, the calls they have received, in order. \<open>pe_armed\<close> tells whether an event's handler
  is still in place or has been replaced by the no-op closure. The helper thread of a connect is the
  environment: its result arrives through the command channel.
\<close>

section \<open>State\<close>

record pending =
  pe_iod :: "nat option"
  pe_kind :: event_type
  pe_deadline :: "nat option"
  pe_buf :: bytes
  pe_wbuf :: "bytes option"
  pe_target :: nat
  pe_line :: bool
  pe_cancelled :: bool
  pe_done :: bool
  pe_armed :: bool

datatype cmd = ConnectResult nat "sock option" | CmdQuit

record pool =
  pool_iods_made :: nat
  pool_issued :: nat
  pool_iods :: "(nat \<times> iod) list"
  pool_pending :: "(nat \<times> pending) list"
  pool_read_bufs :: "(nat \<times> bytes) list"
  pool_rx :: "cmd list"
  pool_quit :: bool
  pool_broadcast :: bool
  pool_udata :: nat
  pool_log :: "(nat \<times> event_status) list"

definition pool_new :: "nat \<Rightarrow> pool" where
  "pool_new udata = \<lparr>pool_iods_made = 0, pool_issued = 0, pool_iods = [], pool_pending = [],
     pool_read_bufs = [], pool_rx = [], pool_quit = False, pool_broadcast = False, pool_udata = udata,
     pool_log = []\<rparr>"

abbreviation event_of :: "pool \<Rightarrow> nat \<Rightarrow> pending option" where
  "event_of p \<equiv> map_of (pool_pending p)"

abbreviation iod_of :: "pool \<Rightarrow> nat \<Rightarrow> iod option" where
  "iod_of p \<equiv> map_of (pool_iods p)"

definition put_event :: "nat \<Rightarrow> pending \<Rightarrow> pool \<Rightarrow> pool" where
  "put_event ev e p = p\<lparr>pool_pending := AList.update ev e (pool_pending p)\<rparr>"

definition put_iod :: "nat \<Rightarrow> iod \<Rightarrow> pool \<Rightarrow> pool" where
  "put_iod i d p = p\<lparr>pool_iods := AList.update i d (pool_iods p)\<rparr>"

definition drop_event :: "nat \<Rightarrow> pool \<Rightarrow> pool" where
  "drop_event ev p = p\<lparr>pool_pending := AList.delete ev (pool_pending p)\<rparr>"

text \<open>Calling the handler of an event taken out of its entry.\<close>

definition fire :: "nat \<Rightarrow> event_status \<Rightarrow> pending \<Rightarrow> pool \<Rightarrow> pool" where
  "fire ev st e p = (if pe_armed e then p\<lparr>pool_log := pool_log p @ [(ev, st)]\<rparr> else p)"

lemma put_event_simps [simp]:
  "event_of (put_event k e p) = (event_of p)(k \<mapsto> e)"
  "pool_log (put_event k e p) = pool_log p" "pool_issued (put_event k e p) = pool_issued p"
  "pool_iods (put_event k e p) = pool_iods p" "pool_read_bufs (put_event k e p) = pool_read_bufs p"
  "pool_quit (put_event k e p) = pool_quit p" "pool_rx (put_event k e p) = pool_rx p"
  by (simp_all add: put_event_def update_conv')

lemma put_iod_simps [simp]:
  "iod_of (put_iod i d p) = (iod_of p)(i \<mapsto> d)"
  "pool_log (put_iod i d p) = pool_log p" "pool_issued (put_iod i d p) = pool_issued p"
  "pool_pending (put_iod i d p) = pool_pending p" "pool_read_bufs (put_iod i d p) = pool_read_bufs p"
  "pool_quit (put_iod i d p) = pool_quit p" "pool_rx (put_iod i d p) = pool_rx p"
  by (simp_all add: put_iod_def update_conv')

lemma drop_event_simps [simp]:
  "event_of (drop_event k p) = (event_of p)(k := None)"
  "pool_log (drop_event k p) = pool_log p" "pool_issued (drop_event k p) = pool_issued p"
  "pool_iods (drop_event k p) = pool_iods p" "pool_read_bufs (drop_event k p) = pool_read_bufs p"
  "pool_quit (drop_event k p) = pool_quit p" "pool_rx (drop_event k p) = pool_rx p"
  by (simp_all add: drop_event_def delete_conv')

lemma fire_simps [simp]:
  "pool_pending (fire k st e p) = pool_pending p"
  "pool_log (fire k st e p) = pool_log p @ (if pe_armed e then [(k, st)] else [])"
  "pool_issued (fire k st e p) = pool_issued p"
  "pool_iods (fire k st e p) = pool_iods p" "pool_read_bufs (fire k st e p) = pool_read_bufs p"
  "pool_quit (fire k st e p) = pool_quit p" "pool_rx (fire k st e p) = pool_rx p"
  by (simp_all add: fire_def)

lemma drop_event_fire: "drop_event k (fire j st e p) = fire j st e (drop_event k p)"
  by (simp add: drop_event_def fire_def)

definition pool_default :: pool where
  "pool_default = pool_new 0"

definition set_udata :: "nat \<Rightarrow> pool \<Rightarrow> pool" where
  "set_udata u p = p\<lparr>pool_udata := u\<rparr>"

section \<open>Descriptors\<close>

definition create_iod_tcp :: "pool \<Rightarrow> nat \<times> pool" where
  "create_iod_tcp p =
     (let i = pool_iods_made p + 1
      in (i, put_iod i (iod_new_tcp\<lparr>iod_id := i\<rparr>) (p\<lparr>pool_iods_made := i\<rparr>)))"

definition create_iod_udp :: "sock option \<Rightarrow> pool \<Rightarrow> nat \<times> pool" where
  "create_iod_udp bound p =
     (let i = pool_iods_made p + 1;
          d = (case iod_new_udp bound of
                 Some d \<Rightarrow> d\<lparr>iod_id := i\<rparr>
               | None \<Rightarrow> iod_new_tcp\<lparr>iod_id := i, iod_kind := IodUdp\<rparr>)
      in (i, put_iod i d (p\<lparr>pool_iods_made := i\<rparr>)))"

definition create_iod_tcp_from :: "sock \<Rightarrow> pool \<Rightarrow> nat \<times> pool" where
  "create_iod_tcp_from s p =
     (let i = pool_iods_made p + 1
      in (i, put_iod i (iod_from_tcp_stream s i) (p\<lparr>pool_iods_made := i\<rparr>)))"

definition create_iod_udp_from :: "sock \<Rightarrow> pool \<Rightarrow> nat \<times> pool" where
  "create_iod_udp_from s p =
     (let i = pool_iods_made p + 1
      in (i, put_iod i (iod_from_udp_socket s i) (p\<lparr>pool_iods_made := i\<rparr>)))"

text \<open>The outcome of connecting the operating-system socket is ignored.\<close>

definition connect_udp :: "nat \<Rightarrow> socket_addr \<Rightarrow> pool \<Rightarrow> pool" where
  "connect_udp i a p =
     (case iod_of p i of
        Some d \<Rightarrow> put_iod i (d\<lparr>iod_udp := map_option (datagram_connect a) (iod_udp d), iod_peer := Some a,
                             iod_connected := True, iod_kind := IodUdp\<rparr>) p
      | None \<Rightarrow> p)"

definition set_broadcast :: "bool \<Rightarrow> pool \<Rightarrow> pool" where
  "set_broadcast on p = p\<lparr>pool_broadcast := on\<rparr>"

section \<open>Requests\<close>

definition deadline_after :: "nat \<Rightarrow> i32 \<Rightarrow> nat option" where
  "deadline_after now timeout = (if sint timeout < 0 then None else Some (now + unat timeout))"

definition connect_timeout :: "i32 \<Rightarrow> nat" where
  "connect_timeout timeout = (if sint timeout < 0 then 3600 * 1000 else unat timeout)"

text \<open>The entry that all requests insert, up to the fields they differ in.\<close>

definition new_pending :: "nat option \<Rightarrow> event_type \<Rightarrow> nat option \<Rightarrow> bytes option \<Rightarrow> nat \<Rightarrow> bool \<Rightarrow> pending" where
  "new_pending i k d w target line =
     \<lparr>pe_iod = i, pe_kind = k, pe_deadline = d, pe_buf = [], pe_wbuf = w, pe_target = target,
      pe_line = line, pe_cancelled = False, pe_done = False, pe_armed = True\<rparr>"

definition enqueue :: "pending \<Rightarrow> pool \<Rightarrow> nat \<times> pool" where
  "enqueue e p = (let ev = pool_issued p + 1 in (ev, put_event ev e (p\<lparr>pool_issued := ev\<rparr>)))"

definition connect_tcp :: "nat \<Rightarrow> nat \<Rightarrow> i32 \<Rightarrow> pool \<Rightarrow> nat \<times> pool" where
  "connect_tcp now i timeout =
     enqueue (new_pending (Some i) EvConnect (Some (now + connect_timeout timeout)) None 0 False)"

definition read_event :: "nat \<Rightarrow> nat \<Rightarrow> i32 \<Rightarrow> pool \<Rightarrow> nat \<times> pool" where
  "read_event now i timeout =
     enqueue (new_pending (Some i) EvRead (deadline_after now timeout) None 1 False)"

definition read_bytes :: "nat \<Rightarrow> nat \<Rightarrow> i32 \<Rightarrow> nat \<Rightarrow> pool \<Rightarrow> nat \<times> pool" where
  "read_bytes now i timeout n =
     enqueue (new_pending (Some i) EvRead (deadline_after now timeout) None (max n 1) False)"

definition readlines :: "nat \<Rightarrow> nat \<Rightarrow> i32 \<Rightarrow> nat \<Rightarrow> pool \<Rightarrow> nat \<times> pool" where
  "readlines now i timeout maxline =
     enqueue (new_pending (Some i) EvRead (deadline_after now timeout) None (max maxline 1) True)"

definition write_event :: "nat \<Rightarrow> nat \<Rightarrow> bytes \<Rightarrow> i32 \<Rightarrow> pool \<Rightarrow> nat \<times> pool" where
  "write_event now i data timeout =
     enqueue (new_pending (Some i) EvWrite (deadline_after now timeout) (Some data) (length data) False)"

text \<open>\<open>write_fmt\<close> gets the pieces that its arguments format to; a string is its UTF-8 bytes.\<close>

definition printf :: "nat \<Rightarrow> nat \<Rightarrow> string \<Rightarrow> i32 \<Rightarrow> pool \<Rightarrow> nat \<times> pool" where
  "printf now i txt timeout = write_event now i (bytes_of txt) timeout"

definition write_fmt :: "nat \<Rightarrow> nat \<Rightarrow> string list \<Rightarrow> i32 \<Rightarrow> pool \<Rightarrow> nat \<times> pool" where
  "write_fmt now i args timeout = (let s = concat args in write_event now i (bytes_of s) timeout)"

definition send_udp :: "nat \<Rightarrow> nat \<Rightarrow> socket_addr \<Rightarrow> bytes \<Rightarrow> i32 \<Rightarrow> pool \<Rightarrow> nat \<times> pool" where
  "send_udp now i a data timeout p = write_event now i data timeout (connect_udp i a p)"

definition timer_create :: "nat \<Rightarrow> u32 \<Rightarrow> pool \<Rightarrow> nat \<times> pool" where
  "timer_create now timeout = enqueue (new_pending None EvTimer (Some (now + unat timeout)) None 0 False)"

section \<open>Cancelling and deleting\<close>

definition cancel :: "nat \<Rightarrow> bool \<Rightarrow> pool \<Rightarrow> bool \<times> pool" where
  "cancel ev notify p =
     (case event_of p ev of
        None \<Rightarrow> (False, p)
      | Some e \<Rightarrow>
          (True,
           (if notify
            then (if \<not> pe_done e then fire ev StCancelled e else (\<lambda>p. p))
                   (put_event ev (e\<lparr>pe_cancelled := True, pe_armed := False, pe_done := True\<rparr>) p)
            else put_event ev (e\<lparr>pe_cancelled := True, pe_done := True\<rparr>) p)))"

definition loop_quit :: "pool \<Rightarrow> pool" where
  "loop_quit p = p\<lparr>pool_quit := True, pool_rx := pool_rx p @ [CmdQuit]\<rparr>"

definition take_read_buf :: "nat \<Rightarrow> pool \<Rightarrow> bytes \<times> pool" where
  "take_read_buf ev p =
     (case map_of (pool_read_bufs p) ev of
        Some b \<Rightarrow> (b, p\<lparr>pool_read_bufs := AList.delete ev (pool_read_bufs p)\<rparr>)
      | None \<Rightarrow> (case event_of p ev of Some e \<Rightarrow> pe_buf e | None \<Rightarrow> [], p))"

text \<open>One turn of the loops of \<open>delete_iod\<close> and \<open>delete\<close>.\<close>

definition kill_event :: "nat \<Rightarrow> pool \<Rightarrow> pool" where
  "kill_event ev p =
     (let p1 = (case event_of p ev of
                  Some e \<Rightarrow>
                    (if \<not> pe_done e \<and> \<not> pe_cancelled e
                     then fire ev StKill e (put_event ev (e\<lparr>pe_armed := False, pe_done := True\<rparr>) p)
                     else p)
                | None \<Rightarrow> p);
          p2 = p1\<lparr>pool_read_bufs := AList.delete ev (pool_read_bufs p1)\<rparr>
      in drop_event ev p2)"

definition events_of_iod :: "(nat list \<Rightarrow> nat list) \<Rightarrow> nat \<Rightarrow> pool \<Rightarrow> nat list" where
  "events_of_iod ord i p =
     filter (\<lambda>k. case event_of p k of Some e \<Rightarrow> pe_iod e = Some i | None \<Rightarrow> False)
       (ord (map fst (pool_pending p)))"

definition delete_iod :: "(nat list \<Rightarrow> nat list) \<Rightarrow> nat \<Rightarrow> pool \<Rightarrow> bool \<times> pool" where
  "delete_iod ord i p =
     (let p1 = fold kill_event (events_of_iod ord i p) p
      in (iod_of p1 i \<noteq> None, p1\<lparr>pool_iods := AList.delete i (pool_iods p1)\<rparr>))"

definition delete_pool :: "(nat list \<Rightarrow> nat list) \<Rightarrow> pool \<Rightarrow> pool" where
  "delete_pool ord p =
     (let p1 = fold (\<lambda>i p. snd (delete_iod ord i p)) (ord (map fst (pool_iods p))) p;
          p2 = fold kill_event (ord (map fst (pool_pending p1))) p1
      in p2\<lparr>pool_quit := True\<rparr>)"

section \<open>Queries\<close>

definition has_pending :: "pool \<Rightarrow> bool" where
  "has_pending p \<longleftrightarrow> (\<exists>(ev, e) \<in> set (pool_pending p). \<not> pe_done e)"

definition pending_count :: "pool \<Rightarrow> nat" where
  "pending_count p = length (filter (\<lambda>(ev, e). \<not> pe_done e) (pool_pending p))"

definition nearest_deadline :: "pool \<Rightarrow> nat option" where
  "nearest_deadline p =
     (case List.map_filter (\<lambda>(ev, e). if pe_done e then None else pe_deadline e) (pool_pending p) of
        [] \<Rightarrow> None
      | d # ds \<Rightarrow> Some (fold min ds d))"

end
