(* ===== verification/Nsock_Loop.thy ===== *)
theory Nsock_Loop
  imports Nsock_Pool
begin

text \<open>
  \<open>wnr-nsock/src/pool.rs\<close>, second part: the event loop. One turn of the loop of \<open>Pool::run\<close> is a tick:
  the commands that have arrived on the channel, the order in which the hash map is iterated, the time
  read at the start of the turn and at its end. \<open>pool_run\<close> runs over a list of ticks; when the
  list runs out the loop has not returned yet, and the status is \<open>None\<close>.
\<close>

section \<open>Connecting\<close>

text \<open>
  The helper thread of a connect. Each attempt comes with the time read before it and what the system
  call returned (\<open>None\<close> for an error, which carries the reason); the thread returns the time of
  its last look at the clock with its result, or is still trying when the attempts run out.
\<close>

fun connect_bounded :: "nat \<Rightarrow> (nat \<times> sock option) list \<Rightarrow> (nat \<times> sock option) option" where
  "connect_bounded deadline [] = None"
| "connect_bounded deadline ((now, res) # more_tries) =
     (if now < deadline
      then (case res of Some s \<Rightarrow> Some (now, Some s) | None \<Rightarrow> connect_bounded deadline more_tries)
      else Some (now, None))"

section \<open>Commands\<close>

definition connect_target :: "(nat list \<Rightarrow> nat list) \<Rightarrow> nat \<Rightarrow> pool \<Rightarrow> nat option" where
  "connect_target ord i p =
     find (\<lambda>k. case event_of p k of
                 Some e \<Rightarrow> pe_kind e = EvConnect \<and> \<not> pe_done e \<and> pe_iod e = Some i
               | None \<Rightarrow> False)
       (ord (map fst (pool_pending p)))"

definition attach_stream :: "nat \<Rightarrow> sock \<Rightarrow> pool \<Rightarrow> pool" where
  "attach_stream i s p =
     (case iod_of p i of
        Some d \<Rightarrow> put_iod i (d\<lparr>iod_tcp := Some s, iod_kind := IodTcp, iod_peer := sk_peer s, iod_connected := True\<rparr>) p
      | None \<Rightarrow> p)"

fun drain_cmd :: "(nat list \<Rightarrow> nat list) \<Rightarrow> cmd \<Rightarrow> pool \<Rightarrow> pool" where
  "drain_cmd ord (ConnectResult i res) p =
     (case connect_target ord i p of
        None \<Rightarrow> p
      | Some ev \<Rightarrow>
          (let (p1, st) = (case res of
                             Some s \<Rightarrow> (attach_stream i s p, StSuccess)
                           | None \<Rightarrow> (p, StError))
           in case event_of p1 ev of
                None \<Rightarrow> p1
              | Some e \<Rightarrow>
                  (if pe_cancelled e then drop_event ev p1 else fire ev st e (drop_event ev p1))))"
| "drain_cmd ord CmdQuit p = p\<lparr>pool_quit := True\<rparr>"

definition drain_commands :: "(nat list \<Rightarrow> nat list) \<Rightarrow> cmd list \<Rightarrow> pool \<Rightarrow> pool" where
  "drain_commands ord arrived p = fold (drain_cmd ord) (pool_rx p @ arrived) (p\<lparr>pool_rx := []\<rparr>)"

section \<open>Reading and writing\<close>

definition read_complete :: "pending \<Rightarrow> bool" where
  "read_complete e =
     (if pe_line e then 10 \<in> set (pe_buf e) \<or> pe_target e \<le> length (pe_buf e)
      else pe_target e \<le> length (pe_buf e))"

definition try_read_tcp :: "nat \<Rightarrow> pending \<Rightarrow> nat \<Rightarrow> iod \<Rightarrow> sock \<Rightarrow> pool \<Rightarrow> event_status option \<times> pool" where
  "try_read_tcp ev e i d s p =
     (case stream_read 4096 s of
        (RdChunk bs, s') \<Rightarrow>
          (if bs = [] then (Some StEof, put_iod i (d\<lparr>iod_tcp := Some s'\<rparr>) p)
           else (let e' = e\<lparr>pe_buf := pe_buf e @ bs\<rparr>;
                     p' = put_iod i (d\<lparr>iod_tcp := Some s', iod_read_count := iod_read_count d + length bs\<rparr>)
                            (put_event ev e' p)
                 in (if read_complete e' then Some StSuccess else None, p')))
      | (RdWouldBlock, s') \<Rightarrow> (None, put_iod i (d\<lparr>iod_tcp := Some s'\<rparr>) p)
      | (RdError, s') \<Rightarrow> (Some StError, put_iod i (d\<lparr>iod_tcp := Some s'\<rparr>) p))"

definition try_read_udp :: "nat \<Rightarrow> pending \<Rightarrow> nat \<Rightarrow> iod \<Rightarrow> sock \<Rightarrow> pool \<Rightarrow> event_status option \<times> pool" where
  "try_read_udp ev e i d s p =
     (case datagram_recv 65535 s of
        (RdChunk bs, s') \<Rightarrow>
          (Some StSuccess,
           put_iod i (d\<lparr>iod_udp := Some s', iod_read_count := iod_read_count d + length bs\<rparr>)
             (put_event ev (e\<lparr>pe_buf := bs\<rparr>) p))
      | (RdWouldBlock, s') \<Rightarrow> (None, put_iod i (d\<lparr>iod_udp := Some s'\<rparr>) p)
      | (RdError, s') \<Rightarrow> (Some StError, put_iod i (d\<lparr>iod_udp := Some s'\<rparr>) p))"

text \<open>The entry, its descriptor and the descriptor's socket, as the early returns of \<open>try_read\<close> and
  \<open>try_write\<close> look them up.\<close>

definition event_iod :: "nat \<Rightarrow> pool \<Rightarrow> (pending \<times> nat \<times> iod) option" where
  "event_iod ev p =
     (case event_of p ev of
        None \<Rightarrow> None
      | Some e \<Rightarrow>
          (case pe_iod e of
             None \<Rightarrow> None
           | Some i \<Rightarrow> (case iod_of p i of None \<Rightarrow> None | Some d \<Rightarrow> Some (e, i, d))))"

definition try_read :: "nat \<Rightarrow> pool \<Rightarrow> event_status option \<times> pool" where
  "try_read ev p =
     (case event_iod ev p of
        None \<Rightarrow> (None, p)
      | Some (e, i, d) \<Rightarrow>
          (case iod_kind d of
             IodTcp \<Rightarrow> (case iod_tcp d of None \<Rightarrow> (None, p) | Some s \<Rightarrow> try_read_tcp ev e i d s p)
           | IodUdp \<Rightarrow> (case iod_udp d of None \<Rightarrow> (None, p) | Some s \<Rightarrow> try_read_udp ev e i d s p)))"

definition try_write_tcp :: "nat \<Rightarrow> pending \<Rightarrow> nat \<Rightarrow> iod \<Rightarrow> sock \<Rightarrow> bytes \<Rightarrow> pool \<Rightarrow> event_status option \<times> pool" where
  "try_write_tcp ev e i d s data p =
     (case stream_write data s of
        (WrTook n, s') \<Rightarrow>
          (if n = 0 then (Some StEof, put_iod i (d\<lparr>iod_tcp := Some s'\<rparr>) p)
           else (let rest = drop n data;
                     e' = e\<lparr>pe_wbuf := (if rest = [] then None else Some rest)\<rparr>;
                     p' = put_iod i (d\<lparr>iod_tcp := Some s', iod_write_count := iod_write_count d + n\<rparr>)
                            (put_event ev e' p)
                 in (if pe_wbuf e' = None then Some StSuccess else None, p')))
      | (WrWouldBlock, s') \<Rightarrow> (None, put_iod i (d\<lparr>iod_tcp := Some s'\<rparr>) p)
      | (WrError, s') \<Rightarrow> (Some StError, put_iod i (d\<lparr>iod_tcp := Some s'\<rparr>) p))"

definition try_write_udp :: "nat \<Rightarrow> pending \<Rightarrow> nat \<Rightarrow> iod \<Rightarrow> sock \<Rightarrow> bytes \<Rightarrow> pool \<Rightarrow> event_status option \<times> pool" where
  "try_write_udp ev e i d s data p =
     (case datagram_send data s of
        (WrTook n, s') \<Rightarrow>
          (Some StSuccess,
           put_event ev (e\<lparr>pe_wbuf := None\<rparr>)
             (put_iod i (d\<lparr>iod_udp := Some s', iod_write_count := iod_write_count d + length data\<rparr>) p))
      | (WrWouldBlock, s') \<Rightarrow> (None, put_iod i (d\<lparr>iod_udp := Some s'\<rparr>) p)
      | (WrError, s') \<Rightarrow> (Some StError, put_iod i (d\<lparr>iod_udp := Some s'\<rparr>) p))"

definition try_write :: "nat \<Rightarrow> pool \<Rightarrow> event_status option \<times> pool" where
  "try_write ev p =
     (case event_iod ev p of
        None \<Rightarrow> (None, p)
      | Some (e, i, d) \<Rightarrow>
          (case pe_wbuf e of
             None \<Rightarrow> (None, p)
           | Some data \<Rightarrow>
               (case iod_kind d of
                  IodTcp \<Rightarrow> (case iod_tcp d of None \<Rightarrow> (None, p) | Some s \<Rightarrow> try_write_tcp ev e i d s data p)
                | IodUdp \<Rightarrow> (case iod_udp d of None \<Rightarrow> (None, p) | Some s \<Rightarrow> try_write_udp ev e i d s data p))))"

section \<open>One turn of the loop\<close>

definition deadline_verdict :: "nat \<Rightarrow> pending \<Rightarrow> event_status option" where
  "deadline_verdict now e =
     (case pe_deadline e of
        None \<Rightarrow> None
      | Some t \<Rightarrow> (if t \<le> now then Some (if pe_kind e = EvTimer then StSuccess else StTimeout) else None))"

definition expired :: "nat \<Rightarrow> nat list \<Rightarrow> pool \<Rightarrow> (nat \<times> event_status) list" where
  "expired now evs p =
     List.map_filter (\<lambda>ev. Option.bind (event_of p ev) (\<lambda>e. map_option (Pair ev) (deadline_verdict now e))) evs"

definition try_io :: "nat \<Rightarrow> pool \<Rightarrow> event_status option \<times> pool" where
  "try_io ev p =
     (case map_option pe_kind (event_of p ev) of
        Some EvRead \<Rightarrow> try_read ev p
      | Some EvWrite \<Rightarrow> try_write ev p
      | _ \<Rightarrow> (None, p))"

fun attempt_io :: "nat list \<Rightarrow> (nat \<times> event_status) list \<Rightarrow> pool \<Rightarrow> (nat \<times> event_status) list \<times> pool" where
  "attempt_io [] out p = (out, p)"
| "attempt_io (ev # evs) out p =
     (if ev \<in> fst ` set out then attempt_io evs out p
      else (case try_io ev p of
              (Some st, p') \<Rightarrow> attempt_io evs (out @ [(ev, st)]) p'
            | (None, p') \<Rightarrow> attempt_io evs out p'))"

definition deliver :: "nat \<times> event_status \<Rightarrow> pool \<Rightarrow> pool" where
  "deliver r p =
     (case r of (ev, st) \<Rightarrow>
        (case event_of p ev of
           None \<Rightarrow> p
         | Some e \<Rightarrow>
             (if pe_done e \<or> pe_cancelled e then p
              else (let p1 = (if pe_kind e = EvRead
                              then p\<lparr>pool_read_bufs := AList.update ev (pe_buf e) (pool_read_bufs p)\<rparr> else p)
                    in drop_event ev (fire ev st e p1)))))"

definition open_list :: "(nat list \<Rightarrow> nat list) \<Rightarrow> pool \<Rightarrow> nat list" where
  "open_list ord p =
     filter (\<lambda>k. case event_of p k of Some e \<Rightarrow> \<not> pe_done e | None \<Rightarrow> False) (ord (map fst (pool_pending p)))"

definition loop_pass :: "(nat list \<Rightarrow> nat list) \<Rightarrow> nat \<Rightarrow> pool \<Rightarrow> pool" where
  "loop_pass ord now p =
     (let evs = open_list ord p;
          (out, p1) = attempt_io evs (expired now evs p) p
      in fold deliver out p1)"

section \<open>The loop\<close>

record tick =
  tk_arrived :: "cmd list"
  tk_order :: "nat list \<Rightarrow> nat list"
  tk_now :: nat
  tk_end :: nat

definition loop_turn :: "tick \<Rightarrow> pool \<Rightarrow> pool" where
  "loop_turn t p = loop_pass (tk_order t) (tk_now t) (drain_commands (tk_order t) (tk_arrived t) p)"

fun run_loop :: "nat \<Rightarrow> nat option \<Rightarrow> tick list \<Rightarrow> pool \<Rightarrow> loop_status option \<times> pool" where
  "run_loop start limit [] p = (None, p)"
| "run_loop start limit (t # ts) p =
     (let p' = loop_turn t p
      in if \<not> has_pending p' then (Some LoopNoEvents, p')
         else if pool_quit p' then (Some LoopQuit, p'\<lparr>pool_quit := False\<rparr>)
         else if (case limit of Some m \<Rightarrow> m \<le> tk_end t - start | None \<Rightarrow> False) then (Some LoopTimeout, p')
         else run_loop start limit ts p')"

definition pool_run :: "nat \<Rightarrow> i32 \<Rightarrow> tick list \<Rightarrow> pool \<Rightarrow> loop_status option \<times> pool" where
  "pool_run start timeout ts p =
     run_loop start (if sint timeout < 0 then None else Some (unat timeout)) ts (p\<lparr>pool_quit := False\<rparr>)"

text \<open>The sleep between two turns, in milliseconds.\<close>

definition nap :: "nat \<Rightarrow> pool \<Rightarrow> nat" where
  "nap now p = (case nearest_deadline p of Some t \<Rightarrow> min (t - now) 5 | None \<Rightarrow> 5)"

end
