(* ===== verification/Nsock_Ledger.thy ===== *)
theory Nsock_Ledger
  imports Nsock_Loop Interfaces
begin

text \<open>
  The pool as a ledger of requests: every operation of the pool, the event loop included, keeps the
  invariant and accounts for the events it opens, answers and drops, so the pool with its operations
  is an instance of \<open>delivery_ledger\<close>.
\<close>

section \<open>Invariant and view\<close>

definition pool_wf :: "pool \<Rightarrow> bool" where
  "pool_wf p \<longleftrightarrow> distinct (map fst (pool_pending p)) \<and>
     (\<forall>k e. event_of p k = Some e \<longrightarrow>
        0 < k \<and> k \<le> pool_issued p \<and> (pe_cancelled e \<longrightarrow> pe_done e) \<and> (\<not> pe_done e \<longrightarrow> pe_armed e))"

definition open_events :: "pool \<Rightarrow> nat set" where
  "open_events p = {k. \<exists>e. event_of p k = Some e \<and> \<not> pe_done e}"

definition pool_view :: "pool \<Rightarrow> ledger" where
  "pool_view p = \<lparr>led_issued = pool_issued p, led_open = open_events p, led_log = map fst (pool_log p)\<rparr>"

lemma pool_view_simps [simp]:
  "led_issued (pool_view p) = pool_issued p" "led_open (pool_view p) = open_events p"
  "led_log (pool_view p) = map fst (pool_log p)"
  by (simp_all add: pool_view_def)

lemma open_events_update [simp]:
  "open_events (put_event k e p) = (if pe_done e then open_events p - {k} else insert k (open_events p))"
  "open_events (drop_event k p) = open_events p - {k}"
  "open_events (put_iod i d p) = open_events p" "open_events (fire k st e p) = open_events p"
  by (auto simp: open_events_def)

lemma pool_wf_view: "pool_wf p \<Longrightarrow> ledger_ok (pool_view p)"
  by (auto simp: pool_wf_def ledger_ok_def open_events_def)

lemma pool_wf_put:
  "pool_wf p \<Longrightarrow> 0 < k \<Longrightarrow> k \<le> pool_issued p \<Longrightarrow> (pe_cancelled e \<Longrightarrow> pe_done e) \<Longrightarrow> (\<not> pe_done e \<Longrightarrow> pe_armed e)
     \<Longrightarrow> pool_wf (put_event k e p)"
  by (auto simp: pool_wf_def put_event_def update_conv' distinct_update)

lemma pool_wf_drop: "pool_wf p \<Longrightarrow> pool_wf (drop_event k p)"
  by (auto simp: pool_wf_def drop_event_def delete_conv' distinct_delete)

lemma pool_wf_fire: "pool_wf (fire k st e p) = pool_wf p"
  by (simp add: pool_wf_def)

section \<open>Steps\<close>

definition pool_step :: "nat set \<Rightarrow> pool \<Rightarrow> pool \<Rightarrow> bool" where
  "pool_step W p p' \<longleftrightarrow> (pool_wf p \<longrightarrow> pool_wf p' \<and> ledger_step W (pool_view p) (pool_view p'))"

lemma pool_step_refl: "pool_step W p p"
  by (simp add: pool_step_def ledger_step_refl)

lemma pool_step_trans: "pool_step W p q \<Longrightarrow> pool_step V q r \<Longrightarrow> pool_step (W \<union> V) p r"
  unfolding pool_step_def using ledger_step_trans [OF pool_wf_view] by blast

lemma pool_step_then: "pool_step {} p q \<Longrightarrow> pool_step {} q r \<Longrightarrow> pool_step {} p r"
  using pool_step_trans [of "{}" p q "{}" r] by simp

lemma pool_step_mono: "pool_step {} p q \<Longrightarrow> pool_step W p q"
  unfolding pool_step_def using ledger_step_mono [of "{}" _ _ W] by blast

lemma pool_step_fold: "(\<And>x q. pool_step {} q (f x q)) \<Longrightarrow> pool_step {} p (fold f xs p)"
proof (induction xs arbitrary: p)
  case (Cons x xs)
  show ?case using pool_step_then [OF Cons.prems Cons.IH [OF Cons.prems]] by simp
qed (simp add: pool_step_refl)

text \<open>Changes to fields outside the view.\<close>

lemma pool_step_same:
  "pool_pending p' = pool_pending p \<Longrightarrow> pool_issued p' = pool_issued p \<Longrightarrow> pool_log p' = pool_log p
     \<Longrightarrow> pool_step W p p'"
proof -
  assume s: "pool_pending p' = pool_pending p" "pool_issued p' = pool_issued p" "pool_log p' = pool_log p"
  then have "pool_view p' = pool_view p" by (simp add: pool_view_def open_events_def)
  with s show ?thesis by (simp add: pool_step_def pool_wf_def ledger_step_refl)
qed

lemma pool_step_put:
  assumes "event_of p k = Some e"
    "pe_done e' = pe_done e" "pe_cancelled e' = pe_cancelled e" "pe_armed e' = pe_armed e"
  shows "pool_step W p (put_event k e' p)"
  unfolding pool_step_def
proof (intro impI conjI)
  assume wf: "pool_wf p"
  with assms show "pool_wf (put_event k e' p)" by (intro pool_wf_put) (auto simp: pool_wf_def)
  have "open_events (put_event k e' p) = open_events p"
    using assms by (auto simp: open_events_def)
  then have "pool_view (put_event k e' p) = pool_view p" by (simp add: pool_view_def)
  then show "ledger_step W (pool_view p) (pool_view (put_event k e' p))" by (simp add: ledger_step_refl)
qed

text \<open>An open event answered, its entry kept or removed.\<close>

lemma answer_ledger:
  assumes "pool_wf p" "event_of p k = Some e" "\<not> pe_done e"
    "pool_issued q = pool_issued p" "pool_log q = pool_log p @ [(k, st)]" "open_events q = open_events p - {k}"
  shows "ledger_step W (pool_view p) (pool_view q)"
  unfolding ledger_step_def pool_view_simps
proof (intro conjI exI [of _ "[k]"] exI [of _ "{}"])
  have "k \<in> open_events p" using assms(2,3) by (auto simp: open_events_def)
  then show "set [k] \<subseteq> open_events p \<union> {pool_issued p<..pool_issued q}" by simp
qed (use assms in auto)

lemma pool_step_answer_put:
  assumes "event_of p k = Some e" "\<not> pe_done e" "pe_done e'"
  shows "pool_step W p (fire k st e (put_event k e' p))"
  unfolding pool_step_def
proof (intro impI conjI)
  assume wf: "pool_wf p"
  with assms show "pool_wf (fire k st e (put_event k e' p))"
    unfolding pool_wf_fire by (intro pool_wf_put) (auto simp: pool_wf_def)
  from wf assms show "ledger_step W (pool_view p) (pool_view (fire k st e (put_event k e' p)))"
    by (intro answer_ledger) (auto simp: pool_wf_def)
qed

lemma pool_step_answer_drop:
  assumes "event_of p k = Some e" "\<not> pe_done e"
  shows "pool_step W p (fire k st e (drop_event k p))"
  unfolding pool_step_def
proof (intro impI conjI)
  assume wf: "pool_wf p"
  then show "pool_wf (fire k st e (drop_event k p))" unfolding pool_wf_fire by (rule pool_wf_drop)
  from wf assms show "ledger_step W (pool_view p) (pool_view (fire k st e (drop_event k p)))"
    by (intro answer_ledger) (auto simp: pool_wf_def)
qed

lemma pool_step_drop:
  assumes "\<And>e. event_of p k = Some e \<Longrightarrow> pe_done e"
  shows "pool_step W p (drop_event k p)"
proof -
  have "k \<notin> open_events p" using assms by (auto simp: open_events_def)
  then have "pool_view (drop_event k p) = pool_view p" by (simp add: pool_view_def)
  then show ?thesis by (simp add: pool_step_def pool_wf_drop ledger_step_refl)
qed

text \<open>An entry marked done without a call.\<close>

lemma pool_step_silence:
  assumes "event_of p k = Some e" "pe_done e'"
  shows "pool_step {k} p (put_event k e' p)"
  unfolding pool_step_def
proof (intro impI conjI)
  assume wf: "pool_wf p"
  with assms show "pool_wf (put_event k e' p)" by (intro pool_wf_put) (auto simp: pool_wf_def)
  show "ledger_step {k} (pool_view p) (pool_view (put_event k e' p))"
    unfolding ledger_step_def pool_view_simps
    by (intro conjI exI [of _ "[]"] exI [of _ "{k} \<inter> open_events p"]) (use assms in auto)
qed

lemma pool_step_enqueue:
  assumes "\<not> pe_done e" "\<not> pe_cancelled e" "pe_armed e"
  shows "pool_step W p (snd (enqueue e p))"
  unfolding pool_step_def
proof (intro impI conjI)
  assume wf: "pool_wf p"
  let ?q = "p\<lparr>pool_issued := pool_issued p + 1\<rparr>"
  have q: "snd (enqueue e p) = put_event (pool_issued p + 1) e ?q" by (simp add: enqueue_def Let_def)
  have bump: "pool_wf ?q"
    unfolding pool_wf_def by (intro conjI allI impI) (use wf in \<open>auto simp: pool_wf_def le_SucI\<close>)
  show "pool_wf (snd (enqueue e p))"
    unfolding q by (rule pool_wf_put [OF bump]) (use assms in simp_all)
  have one: "{pool_issued p<..pool_issued p + 1} = {pool_issued p + 1}" by auto
  have "open_events ?q = open_events p" by (simp add: open_events_def)
  then have "open_events (snd (enqueue e p)) = open_events p \<union> {pool_issued p<..pool_issued p + 1}"
    unfolding q one using assms by simp
  moreover have "pool_issued (snd (enqueue e p)) = pool_issued p + 1" "pool_log (snd (enqueue e p)) = pool_log p"
    unfolding q by simp_all
  ultimately show "ledger_step W (pool_view p) (pool_view (snd (enqueue e p)))"
    unfolding ledger_step_def pool_view_simps by (intro conjI exI [of _ "[]"] exI [of _ "{}"]) simp_all
qed

lemma pool_step_put_done:
  assumes "event_of p k = Some e" "pe_done e" "pe_done e'"
  shows "pool_step W p (put_event k e' p)"
proof -
  have "k \<notin> open_events p" using assms(1,2) by (auto simp: open_events_def)
  then have "pool_view (put_event k e' p) = pool_view p" using assms(3) by (simp add: pool_view_def)
  moreover have "pool_wf p \<Longrightarrow> pool_wf (put_event k e' p)" using assms by (intro pool_wf_put) (auto simp: pool_wf_def)
  ultimately show ?thesis by (simp add: pool_step_def ledger_step_refl)
qed

lemma pool_step_wf: "(pool_wf p \<Longrightarrow> pool_step W p q) \<Longrightarrow> pool_step W p q"
  by (simp add: pool_step_def)

section \<open>The operations\<close>

lemma step_requests:
  "pool_step W p (snd (connect_tcp now i t p))" "pool_step W p (snd (read_event now i t p))"
  "pool_step W p (snd (read_bytes now i t n p))" "pool_step W p (snd (readlines now i t n p))"
  "pool_step W p (snd (write_event now i d t p))" "pool_step W p (snd (timer_create now u p))"
  unfolding connect_tcp_def read_event_def read_bytes_def readlines_def write_event_def timer_create_def
  by (rule pool_step_enqueue; simp add: new_pending_def)+

lemma step_connect_udp: "pool_step W p (connect_udp i a p)"
  by (rule pool_step_same) (simp_all add: connect_udp_def split: option.splits)

lemma step_send_udp: "pool_step {} p (snd (send_udp now i a d t p))"
  unfolding send_udp_def by (rule pool_step_then [OF step_connect_udp step_requests(5)])

lemma step_descriptors:
  "pool_step W p (snd (create_iod_tcp p))" "pool_step W p (snd (create_iod_udp s p))"
  "pool_step W p (snd (create_iod_tcp_from t p))" "pool_step W p (snd (create_iod_udp_from t p))"
  by (rule pool_step_same;
      simp add: create_iod_tcp_def create_iod_udp_def create_iod_tcp_from_def create_iod_udp_from_def Let_def)+

lemma step_cancel: "pool_step (if notify then {} else {k}) p (snd (cancel k notify p))"
proof (cases "event_of p k")
  case (Some e)
  show ?thesis
  proof (cases "notify \<and> \<not> pe_done e")
    case True
    with Some show ?thesis by (simp add: cancel_def pool_step_answer_put)
  next
    case False
    with Some show ?thesis
      by (cases "notify") (simp_all add: cancel_def pool_step_put_done pool_step_silence)
  qed
qed (simp add: cancel_def pool_step_refl)

lemma step_take_read_buf: "pool_step W p (snd (take_read_buf k p))"
  by (rule pool_step_same) (simp_all add: take_read_buf_def split: option.splits)

lemma step_kill_event: "pool_step {} p (kill_event k p)"
proof (rule pool_step_wf)
  assume wf: "pool_wf p"
  define p1 where "p1 = (case event_of p k of
       Some e \<Rightarrow> (if \<not> pe_done e \<and> \<not> pe_cancelled e
                   then fire k StKill e (put_event k (e\<lparr>pe_armed := False, pe_done := True\<rparr>) p) else p)
     | None \<Rightarrow> p)"
  define p2 where "p2 = p1\<lparr>pool_read_bufs := AList.delete k (pool_read_bufs p1)\<rparr>"
  have k: "kill_event k p = drop_event k p2" by (simp add: kill_event_def p1_def p2_def Let_def)
  have 1: "pool_step {} p p1"
    unfolding p1_def by (auto simp: pool_step_refl pool_step_answer_put split: option.splits)
  have "\<And>e. event_of p1 k = Some e \<Longrightarrow> pe_done e"
    using wf unfolding p1_def by (auto simp: pool_wf_def split: option.splits if_splits)
  then have 2: "pool_step {} p2 (drop_event k p2)" by (intro pool_step_drop) (simp add: p2_def)
  have "pool_step {} p1 p2" by (rule pool_step_same) (simp_all add: p2_def)
  with 1 2 show "pool_step {} p (kill_event k p)" unfolding k by (blast intro: pool_step_then)
qed

lemma step_delete_iod: "pool_step {} p (snd (delete_iod ord i p))"
  unfolding delete_iod_def Let_def snd_conv
  by (rule pool_step_then [OF pool_step_fold [OF step_kill_event] pool_step_same]) simp_all

lemma step_delete_pool: "pool_step {} p (delete_pool ord p)"
proof -
  define p1 where "p1 = fold (\<lambda>i p. snd (delete_iod ord i p)) (ord (map fst (pool_iods p))) p"
  define p2 where "p2 = fold kill_event (ord (map fst (pool_pending p1))) p1"
  have 1: "pool_step {} p p1" unfolding p1_def by (rule pool_step_fold) (rule step_delete_iod)
  have 2: "pool_step {} p1 p2" unfolding p2_def by (rule pool_step_fold) (rule step_kill_event)
  have "pool_step {} p2 (p2\<lparr>pool_quit := True\<rparr>)" by (rule pool_step_same) simp_all
  moreover have "delete_pool ord p = p2\<lparr>pool_quit := True\<rparr>"
    by (simp add: delete_pool_def p1_def p2_def Let_def)
  ultimately show ?thesis using 1 2 by (metis pool_step_then)
qed

section \<open>The loop\<close>

lemma connect_target_some:
  assumes "connect_target ord i p = Some ev"
  obtains e where "event_of p ev = Some e" "pe_kind e = EvConnect" "\<not> pe_done e" "pe_iod e = Some i"
proof -
  have "case event_of p ev of Some e \<Rightarrow> pe_kind e = EvConnect \<and> \<not> pe_done e \<and> pe_iod e = Some i | None \<Rightarrow> False"
    using assms unfolding connect_target_def find_Some_iff by blast
  then show thesis using that by (auto split: option.splits)
qed

lemma attach_stream_simps [simp]:
  "pool_pending (attach_stream i s p) = pool_pending p" "pool_issued (attach_stream i s p) = pool_issued p"
  "pool_log (attach_stream i s p) = pool_log p"
  by (simp_all add: attach_stream_def split: option.splits)

lemma step_drain_cmd: "pool_step {} p (drain_cmd ord c p)"
proof (cases c)
  case (ConnectResult i res)
  show ?thesis
  proof (cases "connect_target ord i p")
    case None
    with ConnectResult show ?thesis by (simp add: pool_step_refl)
  next
    case (Some ev)
    obtain e where e: "event_of p ev = Some e" "\<not> pe_done e" using connect_target_some [OF Some] by metis
    define p1 where "p1 = (case res of Some s \<Rightarrow> attach_stream i s p | None \<Rightarrow> p)"
    have same: "pool_pending p1 = pool_pending p" "pool_issued p1 = pool_issued p" "pool_log p1 = pool_log p"
      by (simp_all add: p1_def split: option.splits)
    show ?thesis
    proof (rule pool_step_wf)
      assume "pool_wf p"
      then have nc: "\<not> pe_cancelled e" using e by (auto simp: pool_wf_def)
      have d: "drain_cmd ord c p = fire ev (if res = None then StError else StSuccess) e (drop_event ev p1)"
        using ConnectResult Some e nc same by (cases res) (simp_all add: p1_def)
      have "pool_step {} p1 (drain_cmd ord c p)"
        unfolding d using e same by (intro pool_step_answer_drop) simp_all
      then show "pool_step {} p (drain_cmd ord c p)"
        using pool_step_then [OF pool_step_same] same by blast
    qed
  qed
next
  case CmdQuit
  then show ?thesis by (simp add: pool_step_same)
qed

lemma step_drain: "pool_step {} p (drain_commands ord cs p)"
  unfolding drain_commands_def
  by (rule pool_step_then [OF pool_step_same pool_step_fold [OF step_drain_cmd]]) simp_all

text \<open>What an attempt at I/O does to the pool: a descriptor changes, and the entry of the event keeps
  its flags.\<close>

lemma event_iod_some: "event_iod ev p = Some (e, i, d) \<longleftrightarrow> event_of p ev = Some e \<and> pe_iod e = Some i \<and> iod_of p i = Some d"
  by (auto simp: event_iod_def split: option.splits)

lemma put_iod_view: "pool_wf (put_iod i d q) = pool_wf q" "pool_view (put_iod i d q) = pool_view q"
  by (simp_all only: pool_wf_def pool_view_def put_iod_simps open_events_update)

lemma step_put_iod: "pool_step W p q \<Longrightarrow> pool_step W p (put_iod i d q)"
  by (simp only: pool_step_def put_iod_view)

lemma step_put_event_iod:
  assumes "event_of p k = Some e" "pe_done e' = pe_done e" "pe_cancelled e' = pe_cancelled e" "pe_armed e' = pe_armed e"
  shows "pool_step W p (put_event k e' (put_iod i d p))"
proof -
  have "pool_step W (put_iod i d p) (put_event k e' (put_iod i d p))"
    by (rule pool_step_put) (simp_all only: assms put_iod_simps)
  then show ?thesis by (simp only: pool_step_def put_iod_view)
qed

lemma step_try_read_tcp: "event_of p ev = Some e \<Longrightarrow> pool_step W p (snd (try_read_tcp ev e i d s p))"
  unfolding try_read_tcp_def Let_def
  by (cases "stream_read 4096 s"; cases "fst (stream_read 4096 s)")
    (simp_all add: step_put_iod pool_step_refl pool_step_put)

lemma step_try_read_udp: "event_of p ev = Some e \<Longrightarrow> pool_step W p (snd (try_read_udp ev e i d s p))"
  unfolding try_read_udp_def
  by (cases "datagram_recv 65535 s"; cases "fst (datagram_recv 65535 s)")
    (simp_all add: step_put_iod pool_step_refl pool_step_put)

lemma step_try_write_tcp: "event_of p ev = Some e \<Longrightarrow> pool_step W p (snd (try_write_tcp ev e i d s w p))"
  unfolding try_write_tcp_def Let_def
  by (cases "stream_write w s"; cases "fst (stream_write w s)")
    (simp_all add: step_put_iod pool_step_refl pool_step_put)

lemma step_try_write_udp: "event_of p ev = Some e \<Longrightarrow> pool_step W p (snd (try_write_udp ev e i d s w p))"
  unfolding try_write_udp_def
  by (cases "datagram_send w s"; cases "fst (datagram_send w s)")
    (simp_all add: step_put_iod pool_step_refl step_put_event_iod)

lemma step_try_read: "pool_step {} p (snd (try_read ev p))"
  unfolding try_read_def
  by (cases "event_iod ev p")
    (auto simp: pool_step_refl event_iod_some split: iod_kind.split option.split
       intro: step_try_read_tcp step_try_read_udp)

lemma step_try_write: "pool_step {} p (snd (try_write ev p))"
  unfolding try_write_def
  by (cases "event_iod ev p")
    (auto simp: pool_step_refl event_iod_some split: iod_kind.split option.split
       intro: step_try_write_tcp step_try_write_udp)

lemma step_try_io: "pool_step {} p (snd (try_io ev p))"
  by (simp add: try_io_def pool_step_refl step_try_read step_try_write split: option.split event_type.split)

lemma step_attempt_io: "pool_step {} p (snd (attempt_io evs out p))"
proof (induction evs arbitrary: out p)
  case (Cons ev evs)
  obtain st p' where t: "try_io ev p = (st, p')" by (cases "try_io ev p")
  have "pool_step {} p p'" using step_try_io [of p ev] t by simp
  with t Cons.IH show ?case by (cases st) (auto intro: pool_step_then)
qed (simp add: pool_step_refl)

lemma step_deliver: "pool_step {} p (deliver r p)"
proof (cases r)
  case (Pair ev st)
  show ?thesis
  proof (cases "event_of p ev")
    case None
    with Pair show ?thesis by (simp add: deliver_def pool_step_refl)
  next
    case (Some e)
    define p1 where "p1 = (if pe_kind e = EvRead
        then p\<lparr>pool_read_bufs := AList.update ev (pe_buf e) (pool_read_bufs p)\<rparr> else p)"
    have same: "pool_pending p1 = pool_pending p" "pool_issued p1 = pool_issued p" "pool_log p1 = pool_log p"
      by (simp_all add: p1_def)
    show ?thesis
    proof (cases "pe_done e \<or> pe_cancelled e")
      case False
      then have d: "deliver r p = fire ev st e (drop_event ev p1)"
        using Pair Some by (simp add: deliver_def p1_def drop_event_fire)
      have "pool_step {} p1 (deliver r p)"
        unfolding d using Some False same by (intro pool_step_answer_drop) simp_all
      with pool_step_then [OF pool_step_same] same show ?thesis by blast
    qed (use Pair Some in \<open>simp add: deliver_def pool_step_refl\<close>)
  qed
qed

lemma step_loop_pass: "pool_step {} p (loop_pass ord now p)"
  unfolding loop_pass_def Let_def split_beta
  by (rule pool_step_then [OF step_attempt_io pool_step_fold [OF step_deliver]])

lemma step_loop_turn: "pool_step {} p (loop_turn t p)"
  unfolding loop_turn_def by (rule pool_step_then [OF step_drain step_loop_pass])

lemma step_run_loop: "pool_step {} p (snd (run_loop start limit ts p))"
proof (induction ts arbitrary: p)
  case (Cons t ts)
  have q: "pool_step {} p (loop_turn t p\<lparr>pool_quit := False\<rparr>)"
    by (rule pool_step_then [OF step_loop_turn pool_step_same]) simp_all
  show ?case
    using q Cons.IH step_loop_turn [of p t] pool_step_then by (auto simp: Let_def split: option.split)
qed (simp add: pool_step_refl)

lemma step_pool_run: "pool_step {} p (snd (pool_run start timeout ts p))"
  unfolding pool_run_def by (rule pool_step_then [OF pool_step_same step_run_loop]) simp_all

section \<open>Histories\<close>

datatype pool_op =
    OpCreateTcp | OpCreateUdp "sock option" | OpAdoptTcp sock | OpAdoptUdp sock | OpConnectUdp nat socket_addr
  | OpBroadcast bool | OpConnect nat nat i32 | OpRead nat nat i32 | OpReadBytes nat nat i32 nat
  | OpReadLines nat nat i32 nat | OpWrite nat nat bytes i32 | OpSendUdp nat nat socket_addr bytes i32
  | OpTimer nat u32 | OpCancel nat bool | OpQuit | OpTakeBuf nat
  | OpDeleteIod "nat list \<Rightarrow> nat list" nat | OpDelete "nat list \<Rightarrow> nat list" | OpRun nat i32 "tick list"

fun pool_do :: "pool_op \<Rightarrow> pool \<Rightarrow> pool" where
  "pool_do OpCreateTcp p = snd (create_iod_tcp p)"
| "pool_do (OpCreateUdp s) p = snd (create_iod_udp s p)"
| "pool_do (OpAdoptTcp s) p = snd (create_iod_tcp_from s p)"
| "pool_do (OpAdoptUdp s) p = snd (create_iod_udp_from s p)"
| "pool_do (OpConnectUdp i a) p = connect_udp i a p"
| "pool_do (OpBroadcast on) p = set_broadcast on p"
| "pool_do (OpConnect now i t) p = snd (connect_tcp now i t p)"
| "pool_do (OpRead now i t) p = snd (read_event now i t p)"
| "pool_do (OpReadBytes now i t n) p = snd (read_bytes now i t n p)"
| "pool_do (OpReadLines now i t n) p = snd (readlines now i t n p)"
| "pool_do (OpWrite now i d t) p = snd (write_event now i d t p)"
| "pool_do (OpSendUdp now i a d t) p = snd (send_udp now i a d t p)"
| "pool_do (OpTimer now t) p = snd (timer_create now t p)"
| "pool_do (OpCancel k notify) p = snd (cancel k notify p)"
| "pool_do OpQuit p = loop_quit p"
| "pool_do (OpTakeBuf k) p = snd (take_read_buf k p)"
| "pool_do (OpDeleteIod ord i) p = snd (delete_iod ord i p)"
| "pool_do (OpDelete ord) p = delete_pool ord p"
| "pool_do (OpRun start t ts) p = snd (pool_run start t ts p)"

fun silenced :: "pool_op \<Rightarrow> nat set" where
  "silenced (OpCancel k False) = {k}"
| "silenced _ = {}"

lemma step_pool_do: "pool_step (silenced c) p (pool_do c p)"
proof (cases c)
  case (OpCancel k notify)
  then show ?thesis using step_cancel [of notify k p] by (cases notify) simp_all
qed (simp_all add: step_descriptors step_requests step_connect_udp step_send_udp step_take_read_buf
      step_delete_iod step_delete_pool step_pool_run pool_step_same set_broadcast_def loop_quit_def)

interpretation pool_ledger: delivery_ledger pool_view pool_do silenced pool_wf
  by unfold_locales (use step_pool_do in \<open>auto simp: pool_wf_view pool_step_def\<close>)

lemma pool_wf_new: "pool_wf (pool_new u)"
  by (simp add: pool_wf_def pool_new_def)

lemma has_pending_open: "pool_wf p \<Longrightarrow> has_pending p \<longleftrightarrow> open_events p \<noteq> {}"
  by (auto simp: has_pending_def open_events_def pool_wf_def)

lemma pool_run_no_events:
  assumes "pool_wf p" "fst (pool_run start timeout ts p) = Some LoopNoEvents"
  shows "open_events (snd (pool_run start timeout ts p)) = {}"
proof -
  have "\<not> has_pending (snd (run_loop start l ts q))" if "fst (run_loop start l ts q) = Some LoopNoEvents" for l q
    using that by (induction ts arbitrary: q) (auto simp: Let_def split: if_splits)
  then have "\<not> has_pending (snd (pool_run start timeout ts p))"
    using assms(2) by (simp add: pool_run_def)
  moreover have "pool_wf (snd (pool_run start timeout ts p))"
    using step_pool_run [of p start timeout ts] assms(1) by (simp add: pool_step_def)
  ultimately show ?thesis by (simp add: has_pending_open)
qed

section \<open>Each event is answered at most once\<close>

text \<open>C1: Whatever is done with a pool, in any order (requests, cancellations, deletions, runs of the
  loop with any arrivals and any iteration order of its hash maps), no event's handler is called twice,
  no event that has been answered is still open, and every event ever issued is open, has been
  answered, or was cancelled without notification.\<close>

theorem pool_answers_once:
  "let p = fold pool_do ops (pool_new u); answered = map fst (pool_log p) in
     distinct answered \<and> set answered \<inter> open_events p = {} \<and>
     set answered \<union> open_events p \<subseteq> {0<..pool_issued p} \<and>
     {0<..pool_issued p} \<subseteq> set answered \<union> open_events p \<union> \<Union>(silenced ` set ops)"
  using pool_ledger.history_accounts [OF pool_wf_new, of u ops] by (simp add: pool_new_def Let_def)

text \<open>C6: When the loop reports that no events are left, every event that was open when it
  started has been answered during the run, and none is open. The pool may have any history.\<close>

theorem run_answers_all:
  assumes "p = fold pool_do ops (pool_new u)" "pool_run start timeout ts p = (Some LoopNoEvents, p')"
  shows "open_events p' = {} \<and> open_events p \<subseteq> fst ` set (drop (length (pool_log p)) (pool_log p'))"
proof
  have wf: "pool_wf p" unfolding assms(1) by (rule pool_ledger.history_wf [OF pool_wf_new])
  show none: "open_events p' = {}" using pool_run_no_events [OF wf, of start timeout ts] assms(2) by simp
  show "open_events p \<subseteq> fst ` set (drop (length (pool_log p)) (pool_log p'))"
    using pool_ledger.history_answers [OF wf, of _ "[OpRun start timeout ts]"] none assms(2)
    by (auto simp: drop_map)
qed

definition demo_tick :: "nat \<Rightarrow> tick" where
  "demo_tick now = \<lparr>tk_arrived = [], tk_order = (\<lambda>ks. ks), tk_now = now, tk_end = now\<rparr>"

text \<open>A run with a timer of 3 ms, over turns at 0 and at 5 ms.\<close>

theorem run_answers_all_witness:
  "open_events (snd (pool_run 0 (-1) [demo_tick 0, demo_tick 5] (pool_do (OpTimer 0 3) (pool_new 0)))) = {} \<and>
   pool_log (snd (pool_run 0 (-1) [demo_tick 0, demo_tick 5] (pool_do (OpTimer 0 3) (pool_new 0)))) = [(1, StSuccess)]"
proof -
  have "fst (pool_run 0 (-1) [demo_tick 0, demo_tick 5] (pool_do (OpTimer 0 3) (pool_new 0))) = Some LoopNoEvents"
    and log: "pool_log (snd (pool_run 0 (-1) [demo_tick 0, demo_tick 5] (pool_do (OpTimer 0 3) (pool_new 0)))) = [(1, StSuccess)]"
    by code_simp+
  then have "pool_run 0 (-1) [demo_tick 0, demo_tick 5] (pool_do (OpTimer 0 3) (pool_new 0)) =
      (Some LoopNoEvents, snd (pool_run 0 (-1) [demo_tick 0, demo_tick 5] (pool_do (OpTimer 0 3) (pool_new 0))))"
    by (simp add: prod_eq_iff)
  then show ?thesis
    using conjunct1 [OF run_answers_all, of _ "[OpTimer 0 3]" 0 0 "-1"] log by simp
qed

end
