(* ===== verification/Nsock_Turn.thy ===== *)
theory Nsock_Turn
  imports Nsock_Ledger
begin

text \<open>
  What one turn of the event loop delivers: which events expire, what an attempt at I/O leaves alone,
  and the log and the entries after the turn; with these, when a run returns and what cancelling and
  deleting do.
\<close>

section \<open>Delivery\<close>

text \<open>Results for open events, each event once.\<close>

definition results_for :: "pool \<Rightarrow> (nat \<times> event_status) list \<Rightarrow> bool" where
  "results_for p out \<longleftrightarrow> distinct (map fst out) \<and> fst ` set out \<subseteq> open_events p"

lemma pool_wf_flags:
  "pool_wf p \<Longrightarrow> k \<in> open_events p \<Longrightarrow> \<exists>e. event_of p k = Some e \<and> \<not> pe_done e \<and> \<not> pe_cancelled e \<and> pe_armed e"
  unfolding pool_wf_def open_events_def by blast

lemma deliver_open:
  assumes "pool_wf p" "k \<in> open_events p"
  shows "pool_log (deliver (k, st) p) = pool_log p @ [(k, st)]"
    and "event_of (deliver (k, st) p) = (event_of p)(k := None)"
    and "open_events (deliver (k, st) p) = open_events p - {k}"
    and "pool_iods (deliver (k, st) p) = pool_iods p" "pool_quit (deliver (k, st) p) = pool_quit p"
    and "pool_wf (deliver (k, st) p)"
proof -
  obtain e where e: "event_of p k = Some e" "\<not> pe_done e" "\<not> pe_cancelled e" "pe_armed e"
    using pool_wf_flags [OF assms] by blast
  then show "pool_log (deliver (k, st) p) = pool_log p @ [(k, st)]"
    "pool_iods (deliver (k, st) p) = pool_iods p" "pool_quit (deliver (k, st) p) = pool_quit p"
    by (simp_all add: deliver_def Let_def)
  show ev: "event_of (deliver (k, st) p) = (event_of p)(k := None)"
    using e by (simp add: deliver_def Let_def)
  then show "open_events (deliver (k, st) p) = open_events p - {k}"
    unfolding open_events_def by auto
  show "pool_wf (deliver (k, st) p)"
    using step_deliver [of p "(k, st)"] assms(1) by (simp add: pool_step_def)
qed

lemma deliver_all:
  assumes "pool_wf p" "results_for p out"
  shows "pool_log (fold deliver out p) = pool_log p @ out \<and>
    event_of (fold deliver out p) = (\<lambda>k. if k \<in> fst ` set out then None else event_of p k) \<and>
    pool_iods (fold deliver out p) = pool_iods p \<and> pool_quit (fold deliver out p) = pool_quit p"
  using assms
proof (induction out arbitrary: p)
  case (Cons r out)
  obtain k st where r: "r = (k, st)" by (cases r)
  have k: "k \<in> open_events p" using Cons.prems(2) r by (simp add: results_for_def)
  note d = deliver_open [OF Cons.prems(1) k, of st]
  have rest: "results_for (deliver r p) out"
    using Cons.prems(2) r d(3) by (auto simp: results_for_def)
  have "pool_wf (deliver r p)" using d(6) r by simp
  from Cons.IH [OF this rest] show ?case using d(1,2,4,5) r by (auto simp: fun_eq_iff)
qed simp

section \<open>Attempts at I/O\<close>

lemma try_tcp_udp_keep:
  "pool_log (snd (try_read_tcp ev e i d s p)) = pool_log p" "pool_quit (snd (try_read_tcp ev e i d s p)) = pool_quit p"
  "pool_log (snd (try_read_udp ev e i d s p)) = pool_log p" "pool_quit (snd (try_read_udp ev e i d s p)) = pool_quit p"
  "pool_log (snd (try_write_tcp ev e i d s w p)) = pool_log p" "pool_quit (snd (try_write_tcp ev e i d s w p)) = pool_quit p"
  "pool_log (snd (try_write_udp ev e i d s w p)) = pool_log p" "pool_quit (snd (try_write_udp ev e i d s w p)) = pool_quit p"
  "k \<noteq> ev \<Longrightarrow> event_of (snd (try_read_tcp ev e i d s p)) k = event_of p k"
  "k \<noteq> ev \<Longrightarrow> event_of (snd (try_read_udp ev e i d s p)) k = event_of p k"
  "k \<noteq> ev \<Longrightarrow> event_of (snd (try_write_tcp ev e i d s w p)) k = event_of p k"
  "k \<noteq> ev \<Longrightarrow> event_of (snd (try_write_udp ev e i d s w p)) k = event_of p k"
  by (simp_all add: try_read_tcp_def try_read_udp_def try_write_tcp_def try_write_udp_def Let_def
      split: prod.split read_answer.split write_answer.split)

lemma try_io_keeps:
  "pool_log (snd (try_io ev p)) = pool_log p" "pool_quit (snd (try_io ev p)) = pool_quit p"
  "k \<noteq> ev \<Longrightarrow> event_of (snd (try_io ev p)) k = event_of p k"
  by (simp_all add: try_io_def try_read_def try_write_def try_tcp_udp_keep
      split: option.split event_type.split prod.split iod_kind.split)

text \<open>The entry of the event itself changes in its two buffers only.\<close>

definition same_request :: "pending \<Rightarrow> pending \<Rightarrow> bool" where
  "same_request e e' \<longleftrightarrow> (\<exists>b w. e' = e\<lparr>pe_buf := b, pe_wbuf := w\<rparr>)"

lemma same_request_refl: "same_request e e"
  unfolding same_request_def by (intro exI [of _ "pe_buf e"] exI [of _ "pe_wbuf e"]) simp

lemma same_request_intros:
  "same_request e (e\<lparr>pe_buf := b\<rparr>)" "same_request e (e\<lparr>pe_wbuf := w\<rparr>)"
proof -
  have "e\<lparr>pe_buf := b\<rparr> = e\<lparr>pe_buf := b, pe_wbuf := pe_wbuf e\<rparr>" "e\<lparr>pe_wbuf := w\<rparr> = e\<lparr>pe_buf := pe_buf e, pe_wbuf := w\<rparr>"
    by simp_all
  then show "same_request e (e\<lparr>pe_buf := b\<rparr>)" "same_request e (e\<lparr>pe_wbuf := w\<rparr>)"
    unfolding same_request_def by blast+
qed

lemma same_request_trans: "same_request a b \<Longrightarrow> same_request b c \<Longrightarrow> same_request a c"
proof -
  assume "same_request a b" "same_request b c"
  then obtain b1 w1 b2 w2 where "b = a\<lparr>pe_buf := b1, pe_wbuf := w1\<rparr>" "c = b\<lparr>pe_buf := b2, pe_wbuf := w2\<rparr>"
    unfolding same_request_def by blast
  then have "c = a\<lparr>pe_buf := b2, pe_wbuf := w2\<rparr>" by simp
  then show "same_request a c" unfolding same_request_def by blast
qed

lemma same_request_fields:
  "same_request e e' \<Longrightarrow> pe_done e' = pe_done e \<and> pe_deadline e' = pe_deadline e \<and> pe_kind e' = pe_kind e \<and>
     pe_iod e' = pe_iod e"
  unfolding same_request_def by auto

lemma try_tcp_udp_own:
  assumes "event_of p ev = Some e"
  shows "\<exists>e'. event_of (snd (try_read_tcp ev e i d s p)) ev = Some e' \<and> same_request e e'"
    and "\<exists>e'. event_of (snd (try_read_udp ev e i d s p)) ev = Some e' \<and> same_request e e'"
    and "\<exists>e'. event_of (snd (try_write_tcp ev e i d s w p)) ev = Some e' \<and> same_request e e'"
    and "\<exists>e'. event_of (snd (try_write_udp ev e i d s w p)) ev = Some e' \<and> same_request e e'"
proof -
  note put = same_request_refl same_request_intros assms
  show "\<exists>e'. event_of (snd (try_read_tcp ev e i d s p)) ev = Some e' \<and> same_request e e'"
    unfolding try_read_tcp_def Let_def
    by (cases "stream_read 4096 s"; cases "fst (stream_read 4096 s)") (auto simp: put)
  show "\<exists>e'. event_of (snd (try_read_udp ev e i d s p)) ev = Some e' \<and> same_request e e'"
    unfolding try_read_udp_def
    by (cases "datagram_recv 65535 s"; cases "fst (datagram_recv 65535 s)") (auto simp: put)
  show "\<exists>e'. event_of (snd (try_write_tcp ev e i d s w p)) ev = Some e' \<and> same_request e e'"
    unfolding try_write_tcp_def Let_def
    by (cases "stream_write w s"; cases "fst (stream_write w s)") (auto simp: put)
  show "\<exists>e'. event_of (snd (try_write_udp ev e i d s w p)) ev = Some e' \<and> same_request e e'"
    unfolding try_write_udp_def
    by (cases "datagram_send w s"; cases "fst (datagram_send w s)") (auto simp: put)
qed

lemma try_own_event:
  assumes "event_of p ev = Some e"
  shows "\<exists>e'. event_of (snd (try_io ev p)) ev = Some e' \<and> same_request e e'"
proof -
  have same: "\<exists>e'. event_of p ev = Some e' \<and> same_request e e'" using assms same_request_refl by blast
  have own: "e' = e" if "event_iod ev p = Some (e', i, d)" for e' i d using that assms by (simp add: event_iod_some)
  have r: "\<exists>e'. event_of (snd (try_read ev p)) ev = Some e' \<and> same_request e e'"
  proof (cases "event_iod ev p")
    case (Some x)
    obtain e' i d where x: "x = (e', i, d)" by (cases x)
    with Some own have "event_iod ev p = Some (e, i, d)" by blast
    then show ?thesis
      by (cases "iod_kind d"; cases "iod_tcp d"; cases "iod_udp d")
        (simp_all add: try_read_def same try_tcp_udp_own [OF assms])
  qed (simp add: try_read_def same)
  have w: "\<exists>e'. event_of (snd (try_write ev p)) ev = Some e' \<and> same_request e e'"
  proof (cases "event_iod ev p")
    case (Some x)
    obtain e' i d where x: "x = (e', i, d)" by (cases x)
    with Some own have "event_iod ev p = Some (e, i, d)" by blast
    then show ?thesis
      by (cases "pe_wbuf e"; cases "iod_kind d"; cases "iod_tcp d"; cases "iod_udp d")
        (simp_all add: try_write_def same try_tcp_udp_own [OF assms])
  qed (simp add: try_write_def same)
  show ?thesis using r w same by (cases "pe_kind e") (simp_all add: try_io_def assms)
qed

definition same_requests :: "pool \<Rightarrow> pool \<Rightarrow> bool" where
  "same_requests p q \<longleftrightarrow> (\<forall>k. rel_option same_request (event_of p k) (event_of q k))"

lemma same_requests_refl: "same_requests p p"
  by (simp add: same_requests_def option.rel_refl same_request_refl)

lemma same_requests_trans: "same_requests p q \<Longrightarrow> same_requests q r \<Longrightarrow> same_requests p r"
proof -
  assume pq: "same_requests p q" and qr: "same_requests q r"
  have "rel_option same_request (event_of p k) (event_of r k)" for k
  proof -
    have "rel_option same_request (event_of p k) (event_of q k)" "rel_option same_request (event_of q k) (event_of r k)"
      using pq qr by (simp_all add: same_requests_def)
    then show ?thesis
      by (cases "event_of p k"; cases "event_of q k"; cases "event_of r k") (auto intro: same_request_trans)
  qed
  then show "same_requests p r" by (simp add: same_requests_def)
qed

lemma same_requests_open: "same_requests p q \<Longrightarrow> open_events q = open_events p"
proof -
  assume pq: "same_requests p q"
  have "k \<in> open_events q \<longleftrightarrow> k \<in> open_events p" for k
    using pq same_request_fields unfolding same_requests_def open_events_def
    by (cases "event_of p k"; cases "event_of q k") (auto dest: spec [of _ k])
  then show ?thesis by blast
qed

lemma try_io_missing: "event_of p ev = None \<Longrightarrow> try_io ev p = (None, p)"
  by (simp add: try_io_def)

lemma try_io_requests: "same_requests p (snd (try_io ev p))"
  unfolding same_requests_def
proof
  fix k
  show "rel_option same_request (event_of p k) (event_of (snd (try_io ev p)) k)"
  proof (cases "k = ev")
    case True
    show ?thesis
    proof (cases "event_of p ev")
      case None
      with True show ?thesis by (simp add: try_io_missing)
    next
      case (Some e)
      with True try_own_event [OF this] show ?thesis by auto
    qed
  next
    case False
    then show ?thesis by (simp add: try_io_keeps(3) option.rel_refl same_request_refl)
  qed
qed

text \<open>The attempts of a turn: the log and the requests stay, and the results are those given, followed
  by one for each of some of the other events that have an entry.\<close>

lemma attempt_io_results:
  "\<exists>more_out. fst (attempt_io evs out p) = out @ more_out \<and> (distinct evs \<longrightarrow> distinct (map fst more_out)) \<and>
     fst ` set more_out \<subseteq> set evs - fst ` set out \<and>
     same_requests p (snd (attempt_io evs out p)) \<and>
     pool_log (snd (attempt_io evs out p)) = pool_log p \<and> pool_quit (snd (attempt_io evs out p)) = pool_quit p"
proof (induction evs arbitrary: out p)
  case Nil
  then show ?case by (simp add: same_requests_refl)
next
  case (Cons ev evs)
  show ?case
  proof (cases "ev \<in> fst ` set out")
    case True
    with Cons.IH [of out p] show ?thesis by auto
  next
    case False
    obtain r p' where t: "try_io ev p = (r, p')" by (cases "try_io ev p")
    have p': "same_requests p p'" "pool_log p' = pool_log p" "pool_quit p' = pool_quit p"
      using try_io_requests [of p ev] try_io_keeps(1,2) [of ev p] t by simp_all
    let ?out = "case r of Some st \<Rightarrow> out @ [(ev, st)] | None \<Rightarrow> out"
    have step: "attempt_io (ev # evs) out p = attempt_io evs ?out p'"
      using False t by (cases r) simp_all
    obtain rest where rest: "fst (attempt_io evs ?out p') = ?out @ rest" "distinct evs \<longrightarrow> distinct (map fst rest)"
      "fst ` set rest \<subseteq> set evs - fst ` set ?out" "same_requests p' (snd (attempt_io evs ?out p'))"
      "pool_log (snd (attempt_io evs ?out p')) = pool_log p'" "pool_quit (snd (attempt_io evs ?out p')) = pool_quit p'"
      using Cons.IH [of ?out p'] by blast
    have "\<exists>more_out. fst (attempt_io evs ?out p') = out @ more_out \<and>
        (distinct (ev # evs) \<longrightarrow> distinct (map fst more_out)) \<and> fst ` set more_out \<subseteq> set (ev # evs) - fst ` set out"
    proof (cases r)
      case None
      with rest(1-3) show ?thesis by auto
    next
      case (Some st)
      with rest(1-3) False show ?thesis by (intro exI [of _ "(ev, st) # rest"]) auto
    qed
    with rest(4-6) p' show ?thesis unfolding step using same_requests_trans by auto
  qed
qed

lemma try_io_status:
  assumes "try_io ev p = (Some st, q)"
  obtains e where "event_of p ev = Some e" "pe_kind e \<in> {EvRead, EvWrite}" "st \<in> {StSuccess, StError, StEof}"
proof -
  have tcp: "fst (try_read_tcp ev e i d s p) \<noteq> Some x" "fst (try_read_udp ev e i d s p) \<noteq> Some x"
    "fst (try_write_tcp ev e i d s w p) \<noteq> Some x" "fst (try_write_udp ev e i d s w p) \<noteq> Some x"
    if "x \<notin> {StSuccess, StError, StEof}" for e i d s w x
    using that by (auto simp: try_read_tcp_def try_read_udp_def try_write_tcp_def try_write_udp_def Let_def
        split: prod.split read_answer.split write_answer.split)
  have both: "fst (try_read ev p) \<noteq> Some x" "fst (try_write ev p) \<noteq> Some x" if "x \<notin> {StSuccess, StError, StEof}" for x
    using tcp [OF that] by (auto simp: try_read_def try_write_def split: option.split iod_kind.split)
  have fst_st: "fst (try_io ev p) = Some st" using assms by simp
  then obtain e where e: "event_of p ev = Some e" by (cases "event_of p ev") (auto simp: try_io_missing)
  have "pe_kind e \<in> {EvRead, EvWrite}" using fst_st e by (cases "pe_kind e") (simp_all add: try_io_def)
  moreover have "st \<in> {StSuccess, StError, StEof}"
    using fst_st e both by (cases "pe_kind e") (auto simp: try_io_def)
  ultimately show thesis using that e by blast
qed

lemma attempt_io_status:
  "(k, st) \<in> set (fst (attempt_io evs out p)) \<Longrightarrow>
     (k, st) \<in> set out \<or>
     (\<exists>e. event_of p k = Some e \<and> pe_kind e \<in> {EvRead, EvWrite} \<and> st \<in> {StSuccess, StError, StEof})"
proof (induction evs arbitrary: out p)
  case (Cons ev evs)
  obtain r p' where t: "try_io ev p = (r, p')" by (cases "try_io ev p")
  have earlier: "\<exists>e. event_of p k = Some e \<and> pe_kind e \<in> {EvRead, EvWrite}"
    if "event_of p' k = Some e'" "pe_kind e' \<in> {EvRead, EvWrite}" for e'
  proof -
    have "rel_option same_request (event_of p k) (event_of p' k)"
      using try_io_requests [of p ev] t by (simp add: same_requests_def)
    then show ?thesis using that same_request_fields by (cases "event_of p k") auto
  qed
  show ?case
  proof (cases "ev \<in> fst ` set out")
    case True
    with Cons show ?thesis by simp
  next
    case False
    show ?thesis
    proof (cases r)
      case None
      with Cons False t earlier show ?thesis by fastforce
    next
      case (Some x)
      have "(k, st) \<in> set (out @ [(ev, x)]) \<or>
          (\<exists>e. event_of p' k = Some e \<and> pe_kind e \<in> {EvRead, EvWrite} \<and> st \<in> {StSuccess, StError, StEof})"
        using Cons.IH [of "out @ [(ev, x)]" p'] Cons.prems False t Some by simp
      moreover obtain e where "event_of p ev = Some e" "pe_kind e \<in> {EvRead, EvWrite}" "x \<in> {StSuccess, StError, StEof}"
        using try_io_status t Some by metis
      ultimately show ?thesis using earlier by auto
    qed
  qed
qed simp

section \<open>A turn\<close>

lemma open_list_spec:
  assumes "pool_wf p" "is_order ord"
  shows "set (open_list ord p) = open_events p" "distinct (open_list ord p)"
proof -
  have keys: "k \<in> set (map fst (pool_pending p)) \<longleftrightarrow> event_of p k \<noteq> None" for k
    by (metis map_of_eq_None_iff set_map)
  show "set (open_list ord p) = open_events p"
    using keys assms(2) by (auto simp: open_list_def open_events_def is_order_def simp del: set_map split: option.splits)
  show "distinct (open_list ord p)"
    using assms by (simp add: open_list_def is_order_def pool_wf_def)
qed

lemma expired_simps:
  "expired now [] p = []"
  "expired now (ev # evs) p =
     (case event_of p ev of None \<Rightarrow> [] | Some e \<Rightarrow> (case deadline_verdict now e of None \<Rightarrow> [] | Some st \<Rightarrow> [(ev, st)]))
       @ expired now evs p"
  by (simp_all add: expired_def split: option.split)

lemma expired_iff:
  "(k, st) \<in> set (expired now evs p) \<longleftrightarrow> k \<in> set evs \<and> (\<exists>e. event_of p k = Some e \<and> deadline_verdict now e = Some st)"
  by (induction evs) (auto simp: expired_simps split: option.splits, metis+)

lemma expired_distinct: "distinct evs \<Longrightarrow> distinct (map fst (expired now evs p))"
proof (induction evs)
  case (Cons ev evs)
  have "ev \<notin> fst ` set (expired now evs p)" using Cons.prems expired_iff [of ev _ now evs p] by force
  with Cons show ?case by (auto simp: expired_simps split: option.splits)
qed (simp add: expired_simps)

text \<open>The results of a turn, its log, and the entries it leaves.\<close>

definition turn_results :: "(nat list \<Rightarrow> nat list) \<Rightarrow> nat \<Rightarrow> pool \<Rightarrow> (nat \<times> event_status) list" where
  "turn_results ord now p = fst (attempt_io (open_list ord p) (expired now (open_list ord p) p) p)"

lemma loop_pass_effect:
  assumes "pool_wf p" "is_order ord"
  shows "results_for p (turn_results ord now p)"
    and "pool_log (loop_pass ord now p) = pool_log p @ turn_results ord now p"
    and "k \<in> fst ` set (turn_results ord now p) \<Longrightarrow> event_of (loop_pass ord now p) k = None"
    and "k \<notin> fst ` set (turn_results ord now p)
           \<Longrightarrow> rel_option same_request (event_of p k) (event_of (loop_pass ord now p) k)"
    and "pool_quit (loop_pass ord now p) = pool_quit p"
proof -
  define evs where "evs = open_list ord p"
  define q where "q = snd (attempt_io evs (expired now evs p) p)"
  have l: "loop_pass ord now p = fold deliver (turn_results ord now p) q"
    by (simp add: loop_pass_def turn_results_def evs_def q_def Let_def split_beta)
  have evs: "set evs = open_events p" "distinct evs" unfolding evs_def by (rule open_list_spec [OF assms])+
  obtain io where io: "turn_results ord now p = expired now evs p @ io" "distinct (map fst io)"
    "fst ` set io \<subseteq> set evs - fst ` set (expired now evs p)" "same_requests p q"
    "pool_log q = pool_log p" "pool_quit q = pool_quit p"
    using attempt_io_results [of evs "expired now evs p" p] evs(2)
    unfolding turn_results_def q_def evs_def by blast
  have "fst ` set (expired now evs p) \<subseteq> set evs" using expired_iff by force
  then show r: "results_for p (turn_results ord now p)"
    using io(2,3) evs expired_distinct [OF evs(2), of now p] unfolding results_for_def io(1) by auto
  have wf: "pool_wf q" using step_attempt_io [of p evs "expired now evs p"] assms(1) by (simp add: pool_step_def q_def)
  have "results_for q (turn_results ord now p)"
    using r same_requests_open [OF io(4)] by (simp add: results_for_def)
  note d = deliver_all [OF wf this]
  show "pool_log (loop_pass ord now p) = pool_log p @ turn_results ord now p"
    "pool_quit (loop_pass ord now p) = pool_quit p"
    "k \<in> fst ` set (turn_results ord now p) \<Longrightarrow> event_of (loop_pass ord now p) k = None"
    unfolding l using d io(5,6) by simp_all
  show "rel_option same_request (event_of p k) (event_of (loop_pass ord now p) k)"
    if "k \<notin> fst ` set (turn_results ord now p)"
    unfolding l using d that io(4) by (simp add: same_requests_def)
qed

lemma turn_results_status:
  assumes "pool_wf p" "is_order ord" "(k, st) \<in> set (turn_results ord now p)"
  obtains e where "event_of p k = Some e" "\<not> pe_done e" "deadline_verdict now e = Some st"
  | e where "event_of p k = Some e" "\<not> pe_done e" "deadline_verdict now e = None"
      "pe_kind e \<in> {EvRead, EvWrite}" "st \<in> {StSuccess, StError, StEof}"
proof -
  let ?x = "expired now (open_list ord p) p"
  have "k \<in> open_events p" using loop_pass_effect(1) [OF assms(1,2), of now] assms(3)
    by (force simp: results_for_def)
  then obtain e where e: "event_of p k = Some e" "\<not> pe_done e" by (auto simp: open_events_def)
  show thesis
  proof (cases "deadline_verdict now e")
    case None
    then have "(k, st) \<notin> set ?x" using e expired_iff by auto
    then have "pe_kind e \<in> {EvRead, EvWrite}" "st \<in> {StSuccess, StError, StEof}"
      using attempt_io_status [OF assms(3) [unfolded turn_results_def]] e by auto
    with that(2) e None show thesis by blast
  next
    case (Some st')
    have mem: "(k, st') \<in> set ?x"
      using e Some \<open>k \<in> open_events p\<close> open_list_spec(1) [OF assms(1,2)] expired_iff by blast
    have "set ?x \<subseteq> set (turn_results ord now p)"
      using attempt_io_results [of "open_list ord p" ?x p] unfolding turn_results_def by auto
    then have "(k, st') \<in> set (turn_results ord now p)" using mem by blast
    then have "st' = st"
      using assms(3) loop_pass_effect(1) [OF assms(1,2), of now] unfolding results_for_def
      by (meson eq_key_imp_eq_value)
    with that(1) e Some show thesis by blast
  qed
qed

lemma expired_result:
  assumes "pool_wf p" "is_order ord" "event_of p k = Some e" "\<not> pe_done e" "deadline_verdict now e = Some st"
  shows "(k, st) \<in> set (turn_results ord now p)"
proof -
  have "k \<in> open_events p" using assms(3,4) by (auto simp: open_events_def)
  then have "(k, st) \<in> set (expired now (open_list ord p) p)"
    using open_list_spec(1) [OF assms(1,2)] expired_iff assms(3,5) by blast
  then show ?thesis
    using attempt_io_results [of "open_list ord p" "expired now (open_list ord p) p" p]
    unfolding turn_results_def by auto
qed

lemma fold_min_le: "fold min ds d \<le> (d :: nat) \<and> (\<forall>x \<in> set ds. fold min ds d \<le> x)"
proof (induction ds arbitrary: d)
  case (Cons a ds)
  from Cons [of "min a d"] show ?case by auto
qed simp

lemma nearest_deadline_le:
  assumes "(k, e) \<in> set (pool_pending p)" "\<not> pe_done e" "pe_deadline e = Some t"
  shows "\<exists>m. nearest_deadline p = Some m \<and> m \<le> t"
proof -
  let ?l = "List.map_filter (\<lambda>(id, e). if pe_done e then None else pe_deadline e) (pool_pending p)"
  have "t \<in> set ?l" using assms by (force simp: List.map_filter_def)
  then obtain d ds where l: "?l = d # ds" by (cases ?l) auto
  with \<open>t \<in> set ?l\<close> fold_min_le [of ds d] have "fold min ds d \<le> t" by auto
  then show ?thesis using l by (simp add: nearest_deadline_def)
qed

text \<open>C8: In a turn of the loop an open event whose deadline has come is answered, a timer with
  success and any other event with a timeout, whatever its socket has to offer. Nothing is answered
  ahead of its time: the log grows by one answer per event answered, a timer or a connect is answered
  only when its deadline has come, a timeout is reported only then, and an answered event's entry is
  gone. Between turns the loop sleeps at most 5 ms and never past the deadline of an open event.\<close>

theorem turn_respects_deadlines:
  assumes "pool_wf p" "is_order ord"
  shows "(\<forall>k e t. event_of p k = Some e \<and> \<not> pe_done e \<and> pe_deadline e = Some t \<and> t \<le> now
            \<longrightarrow> (k, if pe_kind e = EvTimer then StSuccess else StTimeout) \<in> set (turn_results ord now p)) \<and>
    pool_log (loop_pass ord now p) = pool_log p @ turn_results ord now p \<and>
    distinct (map fst (turn_results ord now p)) \<and>
    (\<forall>(k, st) \<in> set (turn_results ord now p).
       event_of (loop_pass ord now p) k = None \<and>
       (\<exists>e. event_of p k = Some e \<and> \<not> pe_done e \<and>
          (pe_kind e \<in> {EvTimer, EvConnect} \<or> st = StTimeout \<longrightarrow> (\<exists>t. pe_deadline e = Some t \<and> t \<le> now)))) \<and>
    nap now p \<le> 5 \<and>
    (\<forall>k e t. event_of p k = Some e \<and> \<not> pe_done e \<and> pe_deadline e = Some t \<and> now \<le> t \<longrightarrow> now + nap now p \<le> t)"
proof (intro conjI allI impI ballI; (elim conjE)?)
  show "pool_log (loop_pass ord now p) = pool_log p @ turn_results ord now p"
    by (rule loop_pass_effect(2) [OF assms])
  show "distinct (map fst (turn_results ord now p))"
    using loop_pass_effect(1) [OF assms] by (simp add: results_for_def)
  show "nap now p \<le> 5" by (simp add: nap_def split: option.split)
  show "(k, if pe_kind e = EvTimer then StSuccess else StTimeout) \<in> set (turn_results ord now p)"
    if "event_of p k = Some e" "\<not> pe_done e" "pe_deadline e = Some t" "t \<le> now" for k e t
    by (rule expired_result [OF assms that(1,2)]) (use that in \<open>simp add: deadline_verdict_def\<close>)
  show "now + nap now p \<le> t"
    if "event_of p k = Some e" "\<not> pe_done e" "pe_deadline e = Some t" "now \<le> t" for k e t
    using nearest_deadline_le [OF map_of_SomeD [OF that(1)] that(2,3)] that(4) by (auto simp: nap_def)
  fix r assume r: "r \<in> set (turn_results ord now p)"
  obtain k st where kst: "r = (k, st)" by (cases r)
  have "event_of (loop_pass ord now p) k = None" by (rule loop_pass_effect(3) [OF assms]) (use r kst in force)
  moreover have "\<exists>e. event_of p k = Some e \<and> \<not> pe_done e \<and>
      (pe_kind e \<in> {EvTimer, EvConnect} \<or> st = StTimeout \<longrightarrow> (\<exists>t. pe_deadline e = Some t \<and> t \<le> now))"
    using turn_results_status [OF assms r [unfolded kst]]
    by cases (auto simp: deadline_verdict_def split: option.splits if_splits)
  ultimately show "case r of (k, st) \<Rightarrow> event_of (loop_pass ord now p) k = None \<and>
      (\<exists>e. event_of p k = Some e \<and> \<not> pe_done e \<and>
         (pe_kind e \<in> {EvTimer, EvConnect} \<or> st = StTimeout \<longrightarrow> (\<exists>t. pe_deadline e = Some t \<and> t \<le> now)))"
    unfolding kst by simp
qed

lemma is_order_id: "is_order (\<lambda>ks. ks)"
  by (simp add: is_order_def)

text \<open>A timer of 3 ms, in a turn at 5 ms.\<close>

theorem turn_respects_deadlines_witness:
  "(1, StSuccess) \<in> set (turn_results (\<lambda>ks. ks) 5 (pool_do (OpTimer 0 3) (pool_new 0)))"
proof -
  let ?e = "new_pending None EvTimer (Some 3) None 0 False"
  have wf: "pool_wf (pool_do (OpTimer 0 3) (pool_new 0))" by (rule pool_ledger.step_wf [OF pool_wf_new])
  have "event_of (pool_do (OpTimer 0 3) (pool_new 0)) 1 = Some ?e"
    by (simp add: timer_create_def enqueue_def pool_new_def Let_def)
  moreover have "\<not> pe_done ?e" "pe_deadline ?e = Some 3" "pe_kind ?e = EvTimer" by (simp_all add: new_pending_def)
  ultimately show ?thesis
    using conjunct1 [OF turn_respects_deadlines [OF wf is_order_id, of 5]] by fastforce
qed

end
