(* ===== verification/Nsock_Run.thy ===== *)
theory Nsock_Run
  imports Nsock_Turn
begin

text \<open>
  Runs of the event loop as a whole: when they return, what they leave of cancelled entries, and what
  deleting a descriptor or the pool does.
\<close>

section \<open>Draining\<close>

lemma drain_cmd_entries:
  "event_of (drain_cmd ord c p) k = event_of p k \<or>
     event_of (drain_cmd ord c p) k = None \<and> (\<exists>e. event_of p k = Some e \<and> \<not> pe_done e)"
proof (cases c)
  case (ConnectResult i res)
  show ?thesis
  proof (cases "connect_target ord i p")
    case None
    with ConnectResult show ?thesis by simp
  next
    case (Some ev)
    obtain e where e: "event_of p ev = Some e" "\<not> pe_done e" using connect_target_some [OF Some] by metis
    have "event_of (drain_cmd ord c p) = (event_of p)(ev := None)"
      using ConnectResult Some e by (cases res) simp_all
    with e show ?thesis by auto
  qed
qed simp

lemma drain_cmds_entries:
  "event_of (fold (drain_cmd ord) cs p) k = event_of p k \<or>
     event_of (fold (drain_cmd ord) cs p) k = None \<and> (\<exists>e. event_of p k = Some e \<and> \<not> pe_done e)"
proof (induction cs arbitrary: p)
  case (Cons c cs)
  show ?case using drain_cmd_entries [of ord c p k] Cons.IH [of "drain_cmd ord c p"]
    unfolding fold_simps by (metis option.distinct(1))
qed simp

lemma drain_entries:
  "event_of (drain_commands ord cs p) k = event_of p k \<or>
     event_of (drain_commands ord cs p) k = None \<and> (\<exists>e. event_of p k = Some e \<and> \<not> pe_done e)"
  using drain_cmds_entries [of ord "pool_rx p @ cs" "p\<lparr>pool_rx := []\<rparr>" k] by (simp add: drain_commands_def)

lemma drain_cmd_quit: "pool_quit (drain_cmd ord c p) \<longleftrightarrow> pool_quit p \<or> c = CmdQuit"
proof (cases c)
  case (ConnectResult i res)
  have "pool_quit (attach_stream i s p) = pool_quit p" for s by (simp add: attach_stream_def split: option.split)
  with ConnectResult show ?thesis by (simp split: option.split)
qed simp

lemma drain_quit: "pool_quit (drain_commands ord cs p) \<longleftrightarrow> pool_quit p \<or> CmdQuit \<in> set (pool_rx p @ cs)"
proof -
  have "pool_quit (fold (drain_cmd ord) ds q) \<longleftrightarrow> pool_quit q \<or> CmdQuit \<in> set ds" for ds q
    by (induction ds arbitrary: q) (auto simp: drain_cmd_quit)
  then show ?thesis unfolding drain_commands_def by simp
qed

section \<open>Turns\<close>

text \<open>An entry after a turn is the same request as before it, and was there; a finished one stays.\<close>

lemma wf_drain: "pool_wf p \<Longrightarrow> pool_wf (drain_commands ord cs p)"
  using step_drain [of p ord cs] by (simp add: pool_step_def)

lemma wf_turn: "pool_wf p \<Longrightarrow> pool_wf (loop_turn t p)"
  using step_loop_turn [of p t] by (simp add: pool_step_def)

lemma turn_entries:
  assumes "pool_wf p" "is_order (tk_order t)" "event_of (loop_turn t p) k = Some e'"
  shows "\<exists>e. event_of p k = Some e \<and> same_request e e'"
proof -
  let ?q = "drain_commands (tk_order t) (tk_arrived t) p"
  note eff = loop_pass_effect [OF wf_drain [OF assms(1)] assms(2)]
  have "k \<notin> fst ` set (turn_results (tk_order t) (tk_now t) ?q)"
    using eff(3) assms(3) by (fastforce simp: loop_turn_def)
  from eff(4) [OF this] assms(3) obtain e where "event_of ?q k = Some e" "same_request e e'"
    by (auto simp: loop_turn_def option_rel_Some2)
  with drain_entries [of "tk_order t" "tk_arrived t" p k] show ?thesis by (metis option.distinct(1))
qed

lemma turn_finished:
  assumes "pool_wf p" "is_order (tk_order t)" "event_of p k = Some e" "pe_done e"
  shows "\<exists>e'. event_of (loop_turn t p) k = Some e' \<and> same_request e e'"
proof -
  let ?q = "drain_commands (tk_order t) (tk_arrived t) p"
  note eff = loop_pass_effect [OF wf_drain [OF assms(1)] assms(2)]
  have q: "event_of ?q k = Some e" using drain_entries [of "tk_order t" "tk_arrived t" p k] assms(3,4) by auto
  have "k \<notin> open_events ?q" using q assms(4) by (simp add: open_events_def)
  then have "k \<notin> fst ` set (turn_results (tk_order t) (tk_now t) ?q)"
    using eff(1) unfolding results_for_def by blast
  from eff(4) [OF this] q show ?thesis by (auto simp: loop_turn_def option_rel_Some1)
qed

text \<open>A turn after the last deadline leaves nothing open.\<close>

lemma turn_after_deadlines:
  assumes "pool_wf p" "is_order (tk_order t)"
    "\<And>k e. event_of p k = Some e \<Longrightarrow> \<not> pe_done e \<Longrightarrow> \<exists>d. pe_deadline e = Some d \<and> d \<le> tk_now t"
  shows "\<not> has_pending (loop_turn t p)"
proof -
  let ?q = "drain_commands (tk_order t) (tk_arrived t) p"
  note wf = wf_drain [OF assms(1), of "tk_order t" "tk_arrived t"]
  have "open_events (loop_turn t p) = {}"
  proof (rule ccontr)
    assume "open_events (loop_turn t p) \<noteq> {}"
    then obtain k e' where e': "event_of (loop_turn t p) k = Some e'" "\<not> pe_done e'" by (auto simp: open_events_def)
    have new: "k \<notin> fst ` set (turn_results (tk_order t) (tk_now t) ?q)"
      using loop_pass_effect(3) [OF wf assms(2)] e'(1) by (fastforce simp: loop_turn_def)
    from loop_pass_effect(4) [OF wf assms(2) this] e' obtain e where e: "event_of ?q k = Some e" "\<not> pe_done e"
      by (auto simp: loop_turn_def option_rel_Some2 dest: same_request_fields)
    then have "event_of p k = Some e" using drain_entries [of "tk_order t" "tk_arrived t" p k] by auto
    then obtain d where "pe_deadline e = Some d" "d \<le> tk_now t" using assms(3) e(2) by blast
    then have "deadline_verdict (tk_now t) e \<noteq> None" by (simp add: deadline_verdict_def)
    then obtain st where "deadline_verdict (tk_now t) e = Some st" by blast
    from expired_result [OF wf assms(2) e this] new show False by force
  qed
  then show ?thesis using has_pending_open [OF wf_turn [OF assms(1)]] by simp
qed

section \<open>A run returns\<close>

lemma run_loop_deadlines:
  assumes "pool_wf p" "\<forall>t \<in> set ts. is_order (tk_order t)" "t \<in> set ts"
    "\<And>k e. event_of p k = Some e \<Longrightarrow> \<not> pe_done e \<Longrightarrow> \<exists>d. pe_deadline e = Some d \<and> d \<le> tk_now t"
  shows "fst (run_loop start limit ts p) \<noteq> None"
  using assms
proof (induction ts arbitrary: p)
  case (Cons u ts)
  have o: "is_order (tk_order u)" using Cons.prems(2) by simp
  show ?case
  proof (cases "u = t")
    case True
    with turn_after_deadlines [OF Cons.prems(1) o] Cons.prems(4) have "\<not> has_pending (loop_turn u p)" by blast
    then show ?thesis by (simp add: Let_def)
  next
    case False
    then have "t \<in> set ts" using Cons.prems(3) by simp
    moreover have "\<exists>d. pe_deadline e' = Some d \<and> d \<le> tk_now t"
      if e': "event_of (loop_turn u p) k = Some e'" "\<not> pe_done e'" for k e'
    proof -
      obtain e where "event_of p k = Some e" "same_request e e'" using turn_entries [OF Cons.prems(1) o e'(1)] by blast
      with Cons.prems(4) e'(2) same_request_fields show ?thesis by metis
    qed
    ultimately have "fst (run_loop start limit ts (loop_turn u p)) \<noteq> None"
      using Cons.IH [OF wf_turn [OF Cons.prems(1)]] Cons.prems(2) by simp
    then show ?thesis by (simp add: Let_def split: option.split)
  qed
qed simp

lemma run_loop_limit:
  "t \<in> set ts \<Longrightarrow> start + m \<le> tk_end t \<Longrightarrow> fst (run_loop start (Some m) ts p) \<noteq> None"
  by (induction ts arbitrary: p) (auto simp: Let_def)

lemma run_deadlines_return:
  assumes "pool_wf p" "\<forall>t \<in> set ts. is_order (tk_order t)" "t \<in> set ts"
    "\<And>k e. event_of p k = Some e \<Longrightarrow> \<not> pe_done e \<Longrightarrow> \<exists>d. pe_deadline e = Some d \<and> d \<le> tk_now t"
  shows "fst (pool_run start timeout ts p) \<noteq> None"
proof -
  have wf: "pool_wf (p\<lparr>pool_quit := False\<rparr>)"
    using pool_step_same [of "p\<lparr>pool_quit := False\<rparr>" p] assms(1) by (simp add: pool_step_def)
  show ?thesis
    unfolding pool_run_def by (rule run_loop_deadlines [OF wf assms(2,3)]) (use assms(4) in simp)
qed

text \<open>C9: A run of the loop returns as soon as one of these has happened: its time is up; all
  deadlines of the events that were open at its start have passed and every one of them has a deadline;
  a stop had been requested before it started. (An event without a deadline whose socket never answers
  keeps a run without a time limit going for ever.)\<close>

theorem run_returns:
  assumes "pool_wf p" "\<forall>t \<in> set ts. is_order (tk_order t)"
    "0 \<le> sint timeout \<and> (\<exists>t \<in> set ts. start + unat timeout \<le> tk_end t) \<or>
     (\<exists>t \<in> set ts. \<forall>k e. event_of p k = Some e \<longrightarrow> \<not> pe_done e \<longrightarrow> (\<exists>d. pe_deadline e = Some d \<and> d \<le> tk_now t)) \<or>
     CmdQuit \<in> set (pool_rx p) \<and> ts \<noteq> []"
  shows "fst (pool_run start timeout ts p) \<noteq> None"
proof -
  let ?p = "p\<lparr>pool_quit := False\<rparr>" and ?limit = "if sint timeout < 0 then None else Some (unat timeout)"
  have run: "fst (pool_run start timeout ts p) = fst (run_loop start ?limit ts ?p)" by (simp add: pool_run_def)
  consider t where "0 \<le> sint timeout" "t \<in> set ts" "start + unat timeout \<le> tk_end t"
    | t where "t \<in> set ts" "\<And>k e. event_of p k = Some e \<Longrightarrow> \<not> pe_done e \<Longrightarrow> \<exists>d. pe_deadline e = Some d \<and> d \<le> tk_now t"
    | u us where "CmdQuit \<in> set (pool_rx p)" "ts = u # us"
    using assms(3) by (cases ts) blast+
  then show ?thesis
  proof cases
    case 1
    then show ?thesis unfolding run using run_loop_limit by simp
  next
    case 2
    show ?thesis by (rule run_deadlines_return [OF assms(1,2) 2(1)]) (use 2(2) in blast)
  next
    case 3
    have "pool_quit (drain_commands (tk_order u) (tk_arrived u) ?p)" using 3(1) by (simp add: drain_quit)
    moreover have "pool_wf ?p" using pool_step_same [of ?p p] assms(1) by (simp add: pool_step_def)
    ultimately have "pool_quit (loop_turn u ?p)"
      unfolding loop_turn_def using loop_pass_effect(5) [OF wf_drain] assms(2) 3(2) by simp
    then show ?thesis unfolding run unfolding 3(2) by (simp add: Let_def)
  qed
qed

text \<open>A read that never gets an answer, under a limit of 20 ms and without its own deadline.\<close>

theorem run_returns_witness:
  "fst (pool_run 0 20 [demo_tick 0, demo_tick 25]
          (fold pool_do [OpCreateTcp, OpRead 0 1 (-1)] (pool_new 0))) \<noteq> None"
proof (rule run_returns)
  show "pool_wf (fold pool_do [OpCreateTcp, OpRead 0 1 (-1)] (pool_new 0))"
    by (rule pool_ledger.history_wf [OF pool_wf_new])
  show "\<forall>t \<in> set [demo_tick 0, demo_tick 25]. is_order (tk_order t)"
    by (simp add: demo_tick_def is_order_id)
  have "0 \<le> sint (20 :: i32)" "(\<exists>t \<in> set [demo_tick 0, demo_tick 25]. 0 + unat (20 :: i32) \<le> tk_end t)"
    by (simp_all add: demo_tick_def)
  then show "0 \<le> sint (20 :: i32) \<and> (\<exists>t \<in> set [demo_tick 0, demo_tick 25]. 0 + unat (20 :: i32) \<le> tk_end t) \<or>
     (\<exists>t \<in> set [demo_tick 0, demo_tick 25].
        \<forall>k e. event_of (fold pool_do [OpCreateTcp, OpRead 0 1 (-1)] (pool_new 0)) k = Some e \<longrightarrow>
          \<not> pe_done e \<longrightarrow> (\<exists>d. pe_deadline e = Some d \<and> d \<le> tk_now t)) \<or>
     CmdQuit \<in> set (pool_rx (fold pool_do [OpCreateTcp, OpRead 0 1 (-1)] (pool_new 0))) \<and>
       [demo_tick 0, demo_tick 25] \<noteq> []"
    by blast
qed

section \<open>Finished entries\<close>

lemma run_loop_finished:
  assumes "pool_wf p" "\<forall>t \<in> set ts. is_order (tk_order t)" "event_of p k = Some e" "pe_done e"
  shows "\<exists>e'. event_of (snd (run_loop start limit ts p)) k = Some e' \<and> pe_done e'"
  using assms
proof (induction ts arbitrary: p e)
  case (Cons t ts)
  obtain e1 where e1: "event_of (loop_turn t p) k = Some e1" "pe_done e1"
    using turn_finished [OF Cons.prems(1) _ Cons.prems(3,4)] Cons.prems(2,4) same_request_fields by fastforce
  from Cons.IH [OF wf_turn [OF Cons.prems(1)] _ e1] Cons.prems(2) e1 show ?case
    by (auto simp: Let_def split: option.split)
qed auto

lemma run_new_answers:
  assumes "pool_wf p" "k \<notin> open_events p" "k \<le> pool_issued p"
  shows "filter ((=) k) (map fst (pool_log (snd (pool_run start timeout ts p)))) = filter ((=) k) (map fst (pool_log p))"
proof -
  let ?q = "snd (pool_run start timeout ts p)"
  have "ledger_step {} (pool_view p) (pool_view ?q)"
    using step_pool_run [of p start timeout ts] assms(1) by (simp add: pool_step_def)
  then obtain new where n: "map fst (pool_log ?q) = map fst (pool_log p) @ new"
      "set new \<subseteq> open_events p \<union> {pool_issued p<..pool_issued ?q}"
    unfolding ledger_step_def by auto
  then have "k \<notin> set new" using assms(2,3) by auto
  then have "filter ((=) k) new = []" by (auto simp: filter_empty_conv)
  with n(1) show ?thesis by simp
qed

text \<open>C29: Cancelling an event that has an entry calls its handler with the cancelled status when that
  is asked for and the event is still open, and never otherwise; from then on it is closed and no run of
  the loop, of any length, calls its handler again. But no run removes its entry either: a cancelled
  event stays in the table of pending events until its descriptor or the pool is deleted.\<close>

theorem cancel_closes_and_stays:
  assumes "pool_wf p" "event_of p k = Some e" "\<forall>t \<in> set ts. is_order (tk_order t)"
  shows "let q = snd (cancel k notify p); q' = snd (pool_run start timeout ts q) in
    fst (cancel k notify p) \<and>
    pool_log q = pool_log p @ (if notify \<and> \<not> pe_done e then [(k, StCancelled)] else []) \<and>
    open_events q = open_events p - {k} \<and>
    filter ((=) k) (map fst (pool_log q')) = filter ((=) k) (map fst (pool_log q)) \<and>
    (\<exists>e'. event_of q' k = Some e' \<and> pe_done e')"
proof -
  let ?q = "snd (cancel k notify p)"
  have wf: "pool_wf ?q" using step_cancel [of notify k p] assms(1) by (simp add: pool_step_def)
  have bounds: "k \<le> pool_issued p" and armed: "\<not> pe_done e \<Longrightarrow> pe_armed e"
    using assms(1,2) unfolding pool_wf_def by blast+
  have log: "pool_log ?q = pool_log p @ (if notify \<and> \<not> pe_done e then [(k, StCancelled)] else [])"
    using assms(2) armed by (simp add: cancel_def)
  have open_q: "open_events ?q = open_events p - {k}" using assms(2) by (simp add: cancel_def)
  have "\<exists>e'. event_of ?q k = Some e' \<and> pe_done e'" using assms(2) by (simp add: cancel_def)
  then obtain e1 where e1: "event_of ?q k = Some e1" "pe_done e1" by blast
  have "pool_issued ?q = pool_issued p" using assms(2) by (simp add: cancel_def)
  then have "filter ((=) k) (map fst (pool_log (snd (pool_run start timeout ts ?q))))
      = filter ((=) k) (map fst (pool_log ?q))"
    using run_new_answers [OF wf] open_q bounds by simp
  moreover have "\<exists>e'. event_of (snd (pool_run start timeout ts ?q)) k = Some e' \<and> pe_done e'"
    unfolding pool_run_def
  proof (rule run_loop_finished [OF _ assms(3)])
    show "pool_wf (?q\<lparr>pool_quit := False\<rparr>)"
      using pool_step_same [of "?q\<lparr>pool_quit := False\<rparr>" ?q] wf by (simp add: pool_step_def)
  qed (use e1 in simp_all)
  moreover have "fst (cancel k notify p)" using assms(2) by (simp add: cancel_def)
  ultimately show ?thesis using log open_q by (simp add: Let_def)
qed

theorem cancel_closes_and_stays_witness:
  "\<exists>e. event_of (snd (pool_run 0 (-1) [demo_tick 9] (snd (cancel 1 True (pool_do (OpTimer 0 3) (pool_new 0)))))) 1 = Some e
     \<and> pe_done e"
proof -
  have wf: "pool_wf (pool_do (OpTimer 0 3) (pool_new 0))" by (rule pool_ledger.step_wf [OF pool_wf_new])
  have ev: "event_of (pool_do (OpTimer 0 3) (pool_new 0)) 1 = Some (new_pending None EvTimer (Some 3) None 0 False)"
    by (simp add: timer_create_def enqueue_def pool_new_def Let_def)
  have "\<forall>t \<in> set [demo_tick 9]. is_order (tk_order t)" by (simp add: demo_tick_def is_order_id)
  from cancel_closes_and_stays [OF wf ev this, of True 0 "-1"] show ?thesis unfolding Let_def by blast
qed

section \<open>Deletion\<close>

text \<open>What killing the events \<open>ks\<close> does.\<close>

definition kills :: "nat list \<Rightarrow> pool \<Rightarrow> pool \<Rightarrow> bool" where
  "kills ks p q \<longleftrightarrow> distinct ks \<and> set ks \<subseteq> open_events p \<and>
     pool_log q = pool_log p @ map (\<lambda>k. (k, StKill)) ks \<and> open_events q = open_events p - set ks \<and> pool_wf q"

lemma kills_none: "pool_wf p \<Longrightarrow> kills [] p p"
  by (simp add: kills_def)

lemma kills_append: "kills ks p q \<Longrightarrow> kills js q r \<Longrightarrow> kills (ks @ js) p r"
  unfolding kills_def by auto

lemma kill_event_kills:
  assumes "pool_wf p"
  shows "kills (if k \<in> open_events p then [k] else []) p (kill_event k p)"
    and "event_of (kill_event k p) = (event_of p)(k := None)"
    and "pool_iods (kill_event k p) = pool_iods p"
    and "map_of (pool_read_bufs (kill_event k p)) = (map_of (pool_read_bufs p))(k := None)"
proof -
  have wf: "pool_wf (kill_event k p)" using step_kill_event [of p k] assms by (simp add: pool_step_def)
  show ev: "event_of (kill_event k p) = (event_of p)(k := None)"
    by (auto simp: kill_event_def Let_def fun_eq_iff split: option.split)
  have "open_events (kill_event k p) = open_events p - {k}" unfolding open_events_def ev by auto
  moreover have "pool_log (kill_event k p) = pool_log p @ (if k \<in> open_events p then [(k, StKill)] else [])"
  proof (cases "k \<in> open_events p")
    case True
    then obtain e where "event_of p k = Some e" "\<not> pe_done e" "\<not> pe_cancelled e" "pe_armed e"
      using pool_wf_flags [OF assms] by blast
    with True show ?thesis by (simp add: kill_event_def Let_def)
  next
    case False
    then have "\<And>e. event_of p k = Some e \<Longrightarrow> pe_done e" by (auto simp: open_events_def)
    with False show ?thesis by (auto simp: kill_event_def Let_def split: option.split)
  qed
  ultimately show "kills (if k \<in> open_events p then [k] else []) p (kill_event k p)"
    using wf by (auto simp: kills_def)
  show "pool_iods (kill_event k p) = pool_iods p"
    "map_of (pool_read_bufs (kill_event k p)) = (map_of (pool_read_bufs p))(k := None)"
    by (simp_all add: kill_event_def Let_def delete_conv' split: option.split)
qed

lemma kill_events_kill:
  "pool_wf p \<Longrightarrow> \<exists>js. kills js p (fold kill_event ks p) \<and> set js = open_events p \<inter> set ks \<and>
     event_of (fold kill_event ks p) = (\<lambda>k. if k \<in> set ks then None else event_of p k) \<and>
     pool_iods (fold kill_event ks p) = pool_iods p \<and>
     map_of (pool_read_bufs (fold kill_event ks p)) = (\<lambda>k. if k \<in> set ks then None else map_of (pool_read_bufs p) k)"
proof (induction ks arbitrary: p)
  case Nil
  then show ?case by (intro exI [of _ "[]"]) (simp add: kills_none)
next
  case (Cons k ks)
  note one = kill_event_kills [OF Cons.prems, of k]
  have "pool_wf (kill_event k p)" using one(1) by (simp add: kills_def)
  from Cons.IH [OF this] obtain js where js: "kills js (kill_event k p) (fold kill_event ks (kill_event k p))"
      "set js = open_events (kill_event k p) \<inter> set ks"
      "event_of (fold kill_event ks (kill_event k p)) = (\<lambda>j. if j \<in> set ks then None else event_of (kill_event k p) j)"
      "pool_iods (fold kill_event ks (kill_event k p)) = pool_iods (kill_event k p)"
      "map_of (pool_read_bufs (fold kill_event ks (kill_event k p)))
         = (\<lambda>j. if j \<in> set ks then None else map_of (pool_read_bufs (kill_event k p)) j)" by blast
  have op: "open_events (kill_event k p) = open_events p - {k}" using one(1) by (auto simp: kills_def split: if_splits)
  show ?case
    using kills_append [OF one(1) js(1)] js(2-5) one(2-4) op
    by (intro exI [of _ "(if k \<in> open_events p then [k] else []) @ js"]) (auto simp: fun_eq_iff)
qed

lemma events_of_iod_iff:
  "is_order ord \<Longrightarrow> k \<in> set (events_of_iod ord i p) \<longleftrightarrow> (\<exists>e. event_of p k = Some e \<and> pe_iod e = Some i)"
proof -
  assume "is_order ord"
  then have "k \<in> set (ord (map fst (pool_pending p))) \<longleftrightarrow> event_of p k \<noteq> None"
    unfolding is_order_def by (metis map_of_eq_None_iff set_map)
  then show ?thesis by (auto simp: events_of_iod_def split: option.split)
qed

lemma delete_iod_kills:
  fixes i :: nat
  assumes "pool_wf p" "is_order ord"
  defines "mine \<equiv> {k. \<exists>e. event_of p k = Some e \<and> pe_iod e = Some i}"
  shows "\<exists>js. kills js p (snd (delete_iod ord i p)) \<and> set js = open_events p \<inter> mine"
    and "event_of (snd (delete_iod ord i p)) = (\<lambda>k. if k \<in> mine then None else event_of p k)"
    and "iod_of (snd (delete_iod ord i p)) = (iod_of p)(i := None)"
    and "fst (delete_iod ord i p) \<longleftrightarrow> iod_of p i \<noteq> None"
    and "map_of (pool_read_bufs (snd (delete_iod ord i p)))
           = (\<lambda>k. if k \<in> mine then None else map_of (pool_read_bufs p) k)"
proof -
  let ?q = "fold kill_event (events_of_iod ord i p) p"
  have mine: "set (events_of_iod ord i p) = mine"
    using events_of_iod_iff [OF assms(2)] by (auto simp: mine_def)
  obtain js where js: "kills js p ?q" "set js = open_events p \<inter> mine"
      "event_of ?q = (\<lambda>k. if k \<in> mine then None else event_of p k)" "pool_iods ?q = pool_iods p"
      "map_of (pool_read_bufs ?q) = (\<lambda>k. if k \<in> mine then None else map_of (pool_read_bufs p) k)"
    using kill_events_kill [OF assms(1), of "events_of_iod ord i p"] unfolding mine by blast
  have d: "snd (delete_iod ord i p) = ?q\<lparr>pool_iods := AList.delete i (pool_iods ?q)\<rparr>"
    by (simp add: delete_iod_def Let_def)
  have "open_events (snd (delete_iod ord i p)) = open_events ?q" by (simp add: d open_events_def)
  moreover have "pool_wf (snd (delete_iod ord i p))"
    using step_delete_iod [of p ord i] assms(1) by (simp add: pool_step_def)
  ultimately have "kills js p (snd (delete_iod ord i p))" using js(1) by (simp add: kills_def d)
  with js(2) show "\<exists>js. kills js p (snd (delete_iod ord i p)) \<and> set js = open_events p \<inter> mine" by blast
  show "event_of (snd (delete_iod ord i p)) = (\<lambda>k. if k \<in> mine then None else event_of p k)"
    "iod_of (snd (delete_iod ord i p)) = (iod_of p)(i := None)"
    "map_of (pool_read_bufs (snd (delete_iod ord i p))) = (\<lambda>k. if k \<in> mine then None else map_of (pool_read_bufs p) k)"
    using js(3-5) by (simp_all add: d delete_conv')
  show "fst (delete_iod ord i p) \<longleftrightarrow> iod_of p i \<noteq> None"
    using js(4) by (simp add: delete_iod_def Let_def)
qed

lemma delete_iods_kill:
  assumes "is_order ord"
  shows "pool_wf p \<Longrightarrow> \<exists>js. kills js p (fold (\<lambda>i p. snd (delete_iod ord i p)) is p) \<and>
     iod_of (fold (\<lambda>i p. snd (delete_iod ord i p)) is p) = (\<lambda>i. if i \<in> set is then None else iod_of p i)"
proof (induction "is" arbitrary: p)
  case Nil
  then show ?case by (intro exI [of _ "[]"]) (simp add: kills_none)
next
  case (Cons i "is")
  let ?q = "snd (delete_iod ord i p)"
  obtain js where js: "kills js p ?q" using delete_iod_kills(1) [OF Cons.prems assms, of i] by blast
  then have "pool_wf ?q" by (simp add: kills_def)
  from Cons.IH [OF this] obtain ks where "kills ks ?q (fold (\<lambda>i p. snd (delete_iod ord i p)) is ?q)"
    "iod_of (fold (\<lambda>i p. snd (delete_iod ord i p)) is ?q) = (\<lambda>j. if j \<in> set is then None else iod_of ?q j)" by blast
  with kills_append [OF js] delete_iod_kills(3) [OF Cons.prems assms, of i] show ?case by (auto simp: fun_eq_iff)
qed

text \<open>C18: Deleting a descriptor kills its events and nothing else: each of its open events is
  answered once, with the kill status; the entries and the kept read buffers of its events are gone (those
  of cancelled events with them) and all others are as before; it says whether the descriptor existed.
  Deleting the pool answers every open event once with the kill status and leaves no event and no
  descriptor, whatever the iteration order.\<close>

theorem deletion_kills_exactly:
  assumes "pool_wf p" "is_order ord"
  shows "(let q = snd (delete_iod ord i p); mine = {k. \<exists>e. event_of p k = Some e \<and> pe_iod e = Some i} in
       (fst (delete_iod ord i p) \<longleftrightarrow> iod_of p i \<noteq> None) \<and> iod_of q = (iod_of p)(i := None) \<and>
       event_of q = (\<lambda>k. if k \<in> mine then None else event_of p k) \<and>
       map_of (pool_read_bufs q) = (\<lambda>k. if k \<in> mine then None else map_of (pool_read_bufs p) k) \<and>
       (\<exists>ks. distinct ks \<and> set ks = open_events p \<inter> mine \<and> pool_log q = pool_log p @ map (\<lambda>k. (k, StKill)) ks)) \<and>
    (let q = delete_pool ord p in
       pool_pending q = [] \<and> pool_iods q = [] \<and>
       (\<exists>ks. distinct ks \<and> set ks = open_events p \<and> pool_log q = pool_log p @ map (\<lambda>k. (k, StKill)) ks))"
    (is "?iod \<and> ?pool")
proof
  show ?iod using delete_iod_kills [OF assms, of i] unfolding Let_def kills_def by blast
  let ?q1 = "fold (\<lambda>i p. snd (delete_iod ord i p)) (ord (map fst (pool_iods p))) p"
  let ?q2 = "fold kill_event (ord (map fst (pool_pending ?q1))) ?q1"
  have keys: "set (ord ks) = set ks" for ks using assms(2) by (simp add: is_order_def)
  obtain js where js: "kills js p ?q1" "iod_of ?q1 = (\<lambda>i. if i \<in> set (ord (map fst (pool_iods p))) then None else iod_of p i)"
    using delete_iods_kill [OF assms(2,1)] by blast
  have "iod_of ?q1 = Map.empty"
    unfolding js(2) keys by (auto simp: fun_eq_iff map_of_eq_None_iff)
  then have iods: "pool_iods ?q1 = []" by simp
  obtain ks where ks: "kills ks ?q1 ?q2" "pool_iods ?q2 = pool_iods ?q1"
      "event_of ?q2 = (\<lambda>k. if k \<in> set (ord (map fst (pool_pending ?q1))) then None else event_of ?q1 k)"
    using kill_events_kill js(1) unfolding kills_def by blast
  have "event_of ?q2 = Map.empty"
    unfolding ks(3) keys by (auto simp: fun_eq_iff map_of_eq_None_iff)
  then have pend: "pool_pending ?q2 = []" by simp
  have both: "kills (js @ ks) p ?q2" by (rule kills_append [OF js(1) ks(1)])
  have "open_events ?q2 = {}" using pend by (simp add: open_events_def)
  with both have "set (js @ ks) = open_events p" unfolding kills_def by blast
  with both have "\<exists>ks. distinct ks \<and> set ks = open_events p \<and> pool_log ?q2 = pool_log p @ map (\<lambda>k. (k, StKill)) ks"
    unfolding kills_def by blast
  moreover have "delete_pool ord p = ?q2\<lparr>pool_quit := True\<rparr>" by (simp add: delete_pool_def Let_def)
  ultimately show ?pool using pend iods ks(2) by (simp add: Let_def)
qed

text \<open>A pool with one descriptor, a read on it and a timer.\<close>

theorem deletion_kills_exactly_witness:
  "pool_pending (delete_pool (\<lambda>ks. ks)
     (fold pool_do [OpCreateTcp, OpRead 0 1 (-1), OpTimer 0 3] (pool_new 0))) = []"
proof -
  have "pool_wf (fold pool_do [OpCreateTcp, OpRead 0 1 (-1), OpTimer 0 3] (pool_new 0))"
    by (rule pool_ledger.history_wf [OF pool_wf_new])
  from deletion_kills_exactly [OF this is_order_id, of 1] show ?thesis unfolding Let_def by blast
qed

section \<open>What a run leaves alone\<close>

text \<open>A run issues no events, and its first turn empties the command channel.\<close>

lemma try_io_frame: "pool_issued (snd (try_io ev p)) = pool_issued p \<and> pool_rx (snd (try_io ev p)) = pool_rx p"
proof -
  have tcp: "pool_issued (snd (try_read_tcp ev e i d s p)) = pool_issued p \<and> pool_rx (snd (try_read_tcp ev e i d s p)) = pool_rx p"
    "pool_issued (snd (try_read_udp ev e i d s p)) = pool_issued p \<and> pool_rx (snd (try_read_udp ev e i d s p)) = pool_rx p"
    "pool_issued (snd (try_write_tcp ev e i d s w p)) = pool_issued p \<and> pool_rx (snd (try_write_tcp ev e i d s w p)) = pool_rx p"
    "pool_issued (snd (try_write_udp ev e i d s w p)) = pool_issued p \<and> pool_rx (snd (try_write_udp ev e i d s w p)) = pool_rx p"
    for e i d s w
    by (simp_all add: try_read_tcp_def try_read_udp_def try_write_tcp_def try_write_udp_def Let_def
        split: prod.split read_answer.split write_answer.split)
  then show ?thesis
    by (simp add: try_io_def try_read_def try_write_def split: option.split event_type.split iod_kind.split prod.split)
qed

lemma attempt_io_frame:
  "pool_issued (snd (attempt_io evs out p)) = pool_issued p \<and> pool_rx (snd (attempt_io evs out p)) = pool_rx p"
proof (induction evs arbitrary: out p)
  case (Cons ev evs)
  obtain r q where t: "try_io ev p = (r, q)" by (cases "try_io ev p")
  with try_io_frame [of ev p] Cons show ?case by (cases r) simp_all
qed simp

lemma deliver_frame: "pool_issued (fold deliver out p) = pool_issued p \<and> pool_rx (fold deliver out p) = pool_rx p"
proof (induction out arbitrary: p)
  case (Cons r out)
  have "pool_issued (deliver r p) = pool_issued p \<and> pool_rx (deliver r p) = pool_rx p"
    by (simp add: deliver_def Let_def split: prod.split option.split)
  with Cons show ?case by simp
qed simp

lemma drain_frame: "pool_issued (drain_commands ord cs p) = pool_issued p \<and> pool_rx (drain_commands ord cs p) = []"
proof -
  have at: "pool_rx (attach_stream i s q) = pool_rx q" for i s q by (simp add: attach_stream_def split: option.split)
  have "pool_issued (fold (drain_cmd ord) ds q) = pool_issued q \<and> pool_rx (fold (drain_cmd ord) ds q) = pool_rx q" for ds q
  proof (induction ds arbitrary: q)
    case (Cons c ds)
    have "pool_issued (drain_cmd ord c q) = pool_issued q \<and> pool_rx (drain_cmd ord c q) = pool_rx q"
      by (cases c) (auto simp: at split: option.split)
    with Cons show ?case by simp
  qed simp
  then show ?thesis by (simp add: drain_commands_def)
qed

lemma turn_frame: "pool_issued (loop_turn t p) = pool_issued p \<and> pool_rx (loop_turn t p) = []"
  by (simp add: loop_turn_def loop_pass_def Let_def split_beta deliver_frame attempt_io_frame drain_frame)

lemma run_loop_issued: "pool_issued (snd (run_loop start limit ts p)) = pool_issued p"
  by (induction ts arbitrary: p) (auto simp: Let_def turn_frame split: option.split)

lemma run_issued: "pool_issued (snd (pool_run start timeout ts p)) = pool_issued p"
  by (simp add: pool_run_def run_loop_issued)

text \<open>Without a request to stop and without a time limit a run ends only when no events are left.\<close>

lemma run_loop_no_events:
  assumes "pool_wf p" "\<forall>t \<in> set ts. is_order (tk_order t) \<and> CmdQuit \<notin> set (tk_arrived t)"
    "CmdQuit \<notin> set (pool_rx p)" "\<not> pool_quit p" "fst (run_loop start None ts p) = Some st"
  shows "st = LoopNoEvents"
  using assms
proof (induction ts arbitrary: p)
  case (Cons t ts)
  have o: "is_order (tk_order t)" using Cons.prems(2) by simp
  have "\<not> pool_quit (drain_commands (tk_order t) (tk_arrived t) p)"
    using Cons.prems(2-4) by (simp add: drain_quit)
  then have q: "\<not> pool_quit (loop_turn t p)"
    unfolding loop_turn_def using loop_pass_effect(5) [OF wf_drain [OF Cons.prems(1)] o] by simp
  show ?case
  proof (cases "has_pending (loop_turn t p)")
    case True
    with Cons.prems(5) q have "fst (run_loop start None ts (loop_turn t p)) = Some st" by (simp add: Let_def)
    then show ?thesis
      using Cons.IH [OF wf_turn [OF Cons.prems(1)]] Cons.prems(2) q turn_frame by simp
  next
    case False
    with Cons.prems(5) show ?thesis by (simp add: Let_def)
  qed
qed simp

end
