(* ===== verification/Nsock_Io.thy ===== *)
theory Nsock_Io
  imports Nsock_Turn
begin

text \<open>
  What reads and writes move between the pool's events and the sockets: the bytes of a write over all
  its attempts, the bytes of a read, lines, and which event a connect result completes.
\<close>

section \<open>Writing\<close>

text \<open>The attempts of the loop at one event, turn after turn, until it has a result.\<close>

fun attempts :: "nat \<Rightarrow> nat \<Rightarrow> pool \<Rightarrow> event_status option \<times> pool" where
  "attempts 0 ev p = (None, p)"
| "attempts (Suc n) ev p =
     (case try_io ev p of (Some st, q) \<Rightarrow> (Some st, q) | (None, q) \<Rightarrow> attempts n ev q)"

text \<open>A TCP write in progress: the entry, its descriptor and its stream, with what is left to send.\<close>

definition tcp_write :: "nat \<Rightarrow> nat \<Rightarrow> bytes \<Rightarrow> sock \<Rightarrow> nat \<Rightarrow> pool \<Rightarrow> bool" where
  "tcp_write ev i data s n p \<longleftrightarrow>
     (\<exists>e d. event_of p ev = Some e \<and> pe_kind e = EvWrite \<and> pe_iod e = Some i \<and> pe_wbuf e = Some data \<and>
        iod_of p i = Some d \<and> iod_kind d = IodTcp \<and> iod_tcp d = Some s \<and> iod_write_count d = n)"

lemma stream_write_cases:
  obtains (took) k s' where "stream_write d s = (WrTook (min k (length d)), s')" "sk_sent s' = sk_sent s @ take k d"
  | (other) a s' where "stream_write d s = (a, s')" "a \<in> {WrWouldBlock, WrError}" "sk_sent s' = sk_sent s"
proof (cases "sk_writes s")
  case Nil
  with took [of "length d"] show thesis by (simp add: stream_write_def)
next
  case (Cons a ws)
  with took other show thesis by (cases a) (auto simp: stream_write_def)
qed

lemma tcp_write_step:
  assumes "tcp_write ev i data s n p"
  obtains (blocked) s' q where "try_io ev p = (None, q)" "tcp_write ev i data s' n q" "sk_sent s' = sk_sent s"
  | (part) s' k q where "try_io ev p = (None, q)" "tcp_write ev i (drop k data) s' (n + k) q"
      "drop k data \<noteq> []" "sk_sent s' = sk_sent s @ take k data"
  | (finished) s' d' q where "try_io ev p = (Some StSuccess, q)" "data \<noteq> []"
      "iod_of q i = Some d'" "iod_tcp d' = Some s'" "iod_write_count d' = n + length data"
      "sk_sent s' = sk_sent s @ data"
  | (failed) st s' d' q where "try_io ev p = (Some st, q)" "st \<in> {StEof, StError}"
      "iod_of q i = Some d'" "iod_tcp d' = Some s'" "iod_write_count d' = n" "sk_sent s' = sk_sent s"
proof -
  obtain e d where e: "event_of p ev = Some e" "pe_kind e = EvWrite" "pe_iod e = Some i" "pe_wbuf e = Some data"
    and d: "iod_of p i = Some d" "iod_kind d = IodTcp" "iod_tcp d = Some s" "iod_write_count d = n"
    using assms unfolding tcp_write_def by blast
  have io: "try_io ev p = try_write_tcp ev e i d s data p"
    using e d by (simp add: try_io_def try_write_def event_iod_def)
  show thesis
  proof (cases rule: stream_write_cases [of data s])
    case (took k s')
    define m where "m = min k (length data)"
    have m: "take k data = take m data" "m \<le> length data"
      by (cases "k \<le> length data") (simp_all add: m_def)
    note took = took [folded m_def, unfolded m(1)]
    show thesis
    proof (cases "m = 0")
      case True
      then have "try_io ev p = (Some StEof, put_iod i (d\<lparr>iod_tcp := Some s'\<rparr>) p)"
        using took(1) unfolding io try_write_tcp_def by simp
      then show thesis
        by (rule failed [of _ _ "d\<lparr>iod_tcp := Some s'\<rparr>" s']) (use True took(2) d(4) in simp_all)
    next
      case False
      let ?d' = "d\<lparr>iod_tcp := Some s', iod_write_count := iod_write_count d + m\<rparr>"
      show thesis
      proof (cases "drop m data = []")
        case True
        then have all: "m = length data" using m(2) by simp
        from True False have "try_io ev p = (Some StSuccess, put_iod i ?d' (put_event ev (e\<lparr>pe_wbuf := None\<rparr>) p))"
          using took(1) unfolding io try_write_tcp_def Let_def by simp
        then show thesis
          by (rule finished [of _ ?d' s']) (use False all took(2) d(4) in simp_all)
      next
        case rest: False
        let ?e' = "e\<lparr>pe_wbuf := Some (drop m data)\<rparr>"
        from rest False have io': "try_io ev p = (None, put_iod i ?d' (put_event ev ?e' p))"
          using took(1) unfolding io try_write_tcp_def Let_def by simp
        have "tcp_write ev i (drop m data) s' (n + m) (put_iod i ?d' (put_event ev ?e' p))"
          unfolding tcp_write_def using e d by (intro exI [of _ ?e'] exI [of _ ?d']) simp
        then show thesis by (rule part [OF io' _ rest took(2)])
      qed
    qed
  next
    case (other a s')
    show thesis
    proof (cases "a = WrError")
      case True
      then have "try_io ev p = (Some StError, put_iod i (d\<lparr>iod_tcp := Some s'\<rparr>) p)"
        using other(1) unfolding io try_write_tcp_def by simp
      then show thesis
        by (rule failed [of _ _ "d\<lparr>iod_tcp := Some s'\<rparr>" s']) (use other d in simp_all)
    next
      case False
      then have "try_io ev p = (None, put_iod i (d\<lparr>iod_tcp := Some s'\<rparr>) p)"
        using other(1,2) unfolding io try_write_tcp_def by simp
      then show thesis
        by (rule blocked [of _ s']) (use other e d in \<open>simp_all add: tcp_write_def\<close>)
    qed
  qed
qed

text \<open>C11: Over any number of turns, a TCP write that nothing else interferes with has handed a
  prefix of its data to the stream, in order and without gaps or repeats, and counts exactly those bytes;
  it succeeds only when that prefix is all of the data, and before it has a result the rest is kept for
  the next attempt. Empty data never succeeds: the stream accepts nothing, which is taken for the end
  of the stream.\<close>

theorem write_sends_prefix:
  assumes "tcp_write ev i data s n p"
  shows "\<exists>s' d' sent rest. iod_of (snd (attempts m ev p)) i = Some d' \<and> iod_tcp d' = Some s' \<and>
    data = sent @ rest \<and> sk_sent s' = sk_sent s @ sent \<and> iod_write_count d' = n + length sent \<and>
    (fst (attempts m ev p) = Some StSuccess \<longrightarrow> rest = [] \<and> data \<noteq> []) \<and>
    (fst (attempts m ev p) = None \<longrightarrow> tcp_write ev i rest s' (n + length sent) (snd (attempts m ev p)))"
  using assms
proof (induction m arbitrary: data s n p)
  case 0
  then obtain d where "iod_of p i = Some d" "iod_tcp d = Some s" "iod_write_count d = n"
    unfolding tcp_write_def by blast
  with 0 show ?case by (intro exI [of _ s] exI [of _ d] exI [of _ "[]"] exI [of _ data]) simp
next
  case (Suc m)
  show ?case
  proof (cases rule: tcp_write_step [OF Suc.prems])
    case (1 s' q)
    have a: "attempts (Suc m) ev p = attempts m ev q" using 1(1) by simp
    show ?thesis unfolding a using Suc.IH [OF 1(2)] unfolding 1(3) .
  next
    case (2 s' k q)
    have a: "attempts (Suc m) ev p = attempts m ev q" using 2(1) by simp
    obtain s2 d2 sent rest where r: "iod_of (snd (attempts m ev q)) i = Some d2" "iod_tcp d2 = Some s2"
        "drop k data = sent @ rest" "sk_sent s2 = sk_sent s' @ sent" "iod_write_count d2 = n + k + length sent"
        "fst (attempts m ev q) = Some StSuccess \<longrightarrow> rest = [] \<and> drop k data \<noteq> []"
        "fst (attempts m ev q) = None \<longrightarrow> tcp_write ev i rest s2 (n + k + length sent) (snd (attempts m ev q))"
      using Suc.IH [OF 2(2)] by (elim exE conjE) (rule that)
    have k: "k < length data" using 2(3) by simp
    show ?thesis unfolding a
    proof (intro exI conjI)
      show "data = (take k data @ sent) @ rest" using r(3) by (metis append.assoc append_take_drop_id)
      show "sk_sent s2 = sk_sent s @ (take k data @ sent)" using r(4) 2(4) by simp
      show "iod_write_count d2 = n + length (take k data @ sent)" using r(5) k by simp
      show "fst (attempts m ev q) = Some StSuccess \<longrightarrow> rest = [] \<and> data \<noteq> []" using r(6) k by auto
      show "fst (attempts m ev q) = None \<longrightarrow>
          tcp_write ev i rest s2 (n + length (take k data @ sent)) (snd (attempts m ev q))"
        using r(7) k by (simp add: add.assoc min_def)
    qed (use r(1,2) in simp_all)
  next
    case (3 s' d' q)
    have a: "attempts (Suc m) ev p = (Some StSuccess, q)" using 3(1) by simp
    show ?thesis unfolding a
      by (intro exI [of _ s'] exI [of _ d'] exI [of _ data] exI [of _ "[]"]) (use 3(2-) in simp)
  next
    case (4 st s' d' q)
    have a: "attempts (Suc m) ev p = (Some st, q)" using 4(1) by simp
    show ?thesis unfolding a
      by (intro exI [of _ s'] exI [of _ d'] exI [of _ "[]"] exI [of _ data]) (use 4(2-) in auto)
  qed
qed

definition demo_sock :: "read_answer list \<Rightarrow> write_answer list \<Rightarrow> sock" where
  "demo_sock rs ws = idle_sock\<lparr>sk_reads := rs, sk_writes := ws\<rparr>"

text \<open>Three bytes over a stream that takes two, blocks, and takes the rest.\<close>

theorem write_sends_prefix_witness:
  "\<exists>s' d'. iod_of (snd (attempts 3 1 (fold pool_do
       [OpAdoptTcp (demo_sock [] [WrTook 2, WrWouldBlock]), OpWrite 0 1 [7, 8, 9] (-1)] (pool_new 0)))) 1 = Some d' \<and>
     iod_tcp d' = Some s' \<and> sk_sent s' = [7, 8, 9]"
proof -
  let ?s = "demo_sock [] [WrTook 2, WrWouldBlock]"
  let ?p = "fold pool_do [OpAdoptTcp ?s, OpWrite 0 1 [7, 8, 9] (-1)] (pool_new 0)"
  have w: "tcp_write 1 1 [7, 8, 9] ?s 0 ?p"
    by (simp add: tcp_write_def create_iod_tcp_from_def iod_from_tcp_stream_def iod_new_tcp_def write_event_def
        enqueue_def new_pending_def pool_new_def put_iod_def Let_def)
  have st: "fst (attempts 3 1 ?p) = Some StSuccess" by code_simp
  obtain s' d' sent rest where "iod_of (snd (attempts 3 1 ?p)) 1 = Some d'" "iod_tcp d' = Some s'"
      "[7, 8, 9] = sent @ rest" "sk_sent s' = sk_sent ?s @ sent" "rest = []"
    using write_sends_prefix [OF w, of 3] st by blast
  then show ?thesis by (auto simp: demo_sock_def idle_sock_def)
qed

section \<open>Reading\<close>

fun stream_bytes :: "read_answer list \<Rightarrow> bytes" where
  "stream_bytes [] = []"
| "stream_bytes (RdChunk bs # rs) = bs @ stream_bytes rs"
| "stream_bytes (_ # rs) = stream_bytes rs"

definition tcp_read :: "nat \<Rightarrow> nat \<Rightarrow> pending \<Rightarrow> sock \<Rightarrow> nat \<Rightarrow> pool \<Rightarrow> bool" where
  "tcp_read ev i e s n p \<longleftrightarrow>
     event_of p ev = Some e \<and> pe_kind e = EvRead \<and> pe_iod e = Some i \<and>
     (\<exists>d. iod_of p i = Some d \<and> iod_kind d = IodTcp \<and> iod_tcp d = Some s \<and> iod_read_count d = n)"

lemma stream_read_cases:
  obtains (chunk) bs s' where "stream_read n s = (RdChunk bs, s')" "length bs \<le> n"
      "stream_bytes (sk_reads s) = bs @ stream_bytes (sk_reads s')"
  | (other) a s' where "stream_read n s = (a, s')" "a \<in> {RdWouldBlock, RdError}"
      "stream_bytes (sk_reads s) = stream_bytes (sk_reads s')"
proof (cases "sk_reads s")
  case Nil
  with other show thesis by (simp add: stream_read_def)
next
  case (Cons a rs)
  show thesis
  proof (cases a)
    case (RdChunk bs)
    with Cons chunk [of "take n bs"] show thesis by (simp add: stream_read_def)
  qed (use Cons other in \<open>simp_all add: stream_read_def\<close>)
qed

lemma tcp_read_step:
  assumes "tcp_read ev i e s n p"
  obtains (same) st s' q where "try_io ev p = (st, q)" "st \<in> {None, Some StEof, Some StError}" "tcp_read ev i e s' n q"
      "stream_bytes (sk_reads s) = stream_bytes (sk_reads s')"
  | (got) bs s' q where
      "try_io ev p = (if read_complete (e\<lparr>pe_buf := pe_buf e @ bs\<rparr>) then Some StSuccess else None, q)"
      "tcp_read ev i (e\<lparr>pe_buf := pe_buf e @ bs\<rparr>) s' (n + length bs) q" "bs \<noteq> []" "length bs \<le> 4096"
      "stream_bytes (sk_reads s) = bs @ stream_bytes (sk_reads s')"
proof -
  obtain d where e: "event_of p ev = Some e" "pe_kind e = EvRead" "pe_iod e = Some i"
    and d: "iod_of p i = Some d" "iod_kind d = IodTcp" "iod_tcp d = Some s" "iod_read_count d = n"
    using assms unfolding tcp_read_def by blast
  have io: "try_io ev p = try_read_tcp ev e i d s p"
    using e d by (simp add: try_io_def try_read_def event_iod_def)
  have keep: "tcp_read ev i e s' n (put_iod i (d\<lparr>iod_tcp := Some s'\<rparr>) p)" for s'
    using e d by (simp add: tcp_read_def)
  show thesis
  proof (cases rule: stream_read_cases [of 4096 s])
    case (chunk bs s')
    show thesis
    proof (cases "bs = []")
      case True
      then have "try_io ev p = (Some StEof, put_iod i (d\<lparr>iod_tcp := Some s'\<rparr>) p)"
        using chunk(1) unfolding io try_read_tcp_def by simp
      then show thesis by (rule same [OF _ _ keep]) (use chunk(3) True in simp_all)
    next
      case False
      let ?e' = "e\<lparr>pe_buf := pe_buf e @ bs\<rparr>"
        and ?d' = "d\<lparr>iod_tcp := Some s', iod_read_count := iod_read_count d + length bs\<rparr>"
      have io': "try_io ev p = (if read_complete ?e' then Some StSuccess else None, put_iod i ?d' (put_event ev ?e' p))"
        using False chunk(1) unfolding io try_read_tcp_def Let_def by simp
      have "tcp_read ev i ?e' s' (n + length bs) (put_iod i ?d' (put_event ev ?e' p))"
        using e d by (simp add: tcp_read_def)
      then show thesis by (rule got [OF io' _ False chunk(2,3)])
    qed
  next
    case (other a s')
    have "try_io ev p = (if a = RdError then Some StError else None, put_iod i (d\<lparr>iod_tcp := Some s'\<rparr>) p)"
      using other(1,2) unfolding io try_read_tcp_def by auto
    then show thesis by (rule same [OF _ _ keep other(3)]) simp
  qed
qed

text \<open>C12: Over any number of turns, a TCP read that nothing else interferes with appends to its
  buffer exactly the bytes it takes from the stream, in order, none lost and none invented, and counts
  them. It succeeds only when it is complete (a line read: a newline seen or the bound reached; another
  read: the bytes asked for reached), it is not complete while it has no result, and it runs past the
  quantity asked for by less than one read of 4096 bytes. Whatever its result, the buffer can be
  fetched after delivery.\<close>

theorem read_collects_stream:
  assumes "tcp_read ev i e s n p" "\<not> read_complete e" "0 < pe_target e"
  shows "\<exists>got s'. let q = snd (attempts m ev p); e' = e\<lparr>pe_buf := pe_buf e @ got\<rparr> in
    tcp_read ev i e' s' (n + length got) q \<and> stream_bytes (sk_reads s) = got @ stream_bytes (sk_reads s') \<and>
    (fst (attempts m ev p) = Some StSuccess \<longleftrightarrow> read_complete e') \<and>
    length (pe_buf e') < pe_target e + 4096 \<and>
    (\<not> pe_done e \<and> \<not> pe_cancelled e \<longrightarrow> fst (take_read_buf ev (deliver (ev, st) q)) = pe_buf e @ got)"
proof -
  have deliv: "fst (take_read_buf ev (deliver (ev, st) q)) = pe_buf e'"
    if "tcp_read ev i e' s' k q" "\<not> pe_done e'" "\<not> pe_cancelled e'" for e' s' k q
    using that by (simp add: tcp_read_def deliver_def Let_def take_read_buf_def update_conv')
  have "\<exists>got s'. tcp_read ev i (e\<lparr>pe_buf := pe_buf e @ got\<rparr>) s' (n + length got) (snd (attempts m ev p)) \<and>
      stream_bytes (sk_reads s) = got @ stream_bytes (sk_reads s') \<and>
      (fst (attempts m ev p) = Some StSuccess \<longleftrightarrow> read_complete (e\<lparr>pe_buf := pe_buf e @ got\<rparr>)) \<and>
      length (pe_buf e @ got) < pe_target e + 4096"
    using assms
  proof (induction m arbitrary: e s n p)
    case 0
    then show ?case
      by (intro exI [of _ "[]"] exI [of _ s]) (simp add: read_complete_def split: if_splits)
  next
    case (Suc m)
    have short: "length (pe_buf e) < pe_target e"
      using Suc.prems(2) by (simp add: read_complete_def split: if_splits)
    show ?case
    proof (cases rule: tcp_read_step [OF Suc.prems(1)])
      case (1 st s' q)
      show ?thesis
      proof (cases st)
        case None
        then have a: "attempts (Suc m) ev p = attempts m ev q" using 1(1) by simp
        show ?thesis unfolding a using Suc.IH [OF 1(3) Suc.prems(2,3)] unfolding 1(4) .
      next
        case (Some x)
        then have a: "attempts (Suc m) ev p = (Some x, q)" using 1(1) by simp
        have "x \<noteq> StSuccess" using 1(2) Some by auto
        then show ?thesis unfolding a using 1(3,4) Suc.prems(2) short
          by (intro exI [of _ "[]"] exI [of _ s']) simp
      qed
    next
      case (2 bs s' q)
      let ?e = "e\<lparr>pe_buf := pe_buf e @ bs\<rparr>"
      show ?thesis
      proof (cases "read_complete ?e")
        case True
        then have a: "attempts (Suc m) ev p = (Some StSuccess, q)" using 2(1) by simp
        have "length (pe_buf e @ bs) < pe_target e + 4096" using short 2(4) by simp
        then show ?thesis unfolding a using 2(2,5) True by (intro exI [of _ bs] exI [of _ s']) simp
      next
        case False
        then have a: "attempts (Suc m) ev p = attempts m ev q" using 2(1) by simp
        have pos: "0 < pe_target ?e" using Suc.prems(3) by simp
        obtain got s2 where r: "tcp_read ev i (?e\<lparr>pe_buf := pe_buf ?e @ got\<rparr>) s2 (n + length bs + length got) (snd (attempts m ev q))"
            "stream_bytes (sk_reads s') = got @ stream_bytes (sk_reads s2)"
            "fst (attempts m ev q) = Some StSuccess \<longleftrightarrow> read_complete (?e\<lparr>pe_buf := pe_buf ?e @ got\<rparr>)"
            "length (pe_buf ?e @ got) < pe_target ?e + 4096"
          using Suc.IH [OF 2(2) False pos] by blast
        show ?thesis unfolding a
          by (intro exI [of _ "bs @ got"] exI [of _ s2]) (use r 2(5) in \<open>simp add: add.assoc\<close>)
      qed
    qed
  qed
  then obtain got s' where "tcp_read ev i (e\<lparr>pe_buf := pe_buf e @ got\<rparr>) s' (n + length got) (snd (attempts m ev p))"
      "stream_bytes (sk_reads s) = got @ stream_bytes (sk_reads s')"
      "fst (attempts m ev p) = Some StSuccess \<longleftrightarrow> read_complete (e\<lparr>pe_buf := pe_buf e @ got\<rparr>)"
      "length (pe_buf e @ got) < pe_target e + 4096" by blast
  then show ?thesis
    using deliv [of "e\<lparr>pe_buf := pe_buf e @ got\<rparr>"]
    by (intro exI [of _ got] exI [of _ s']) (simp add: Let_def)
qed

text \<open>A read of three bytes that arrive in two pieces, with one byte to spare.\<close>

theorem read_collects_stream_witness:
  "\<exists>s'. tcp_read 1 1 ((new_pending (Some 1) EvRead None None 3 False)\<lparr>pe_buf := [1, 2, 3, 4]\<rparr>) s' 4
     (snd (attempts 2 1 (fold pool_do
        [OpAdoptTcp (demo_sock [RdChunk [1, 2], RdChunk [3, 4]] []), OpReadBytes 0 1 (-1) 3] (pool_new 0))))"
proof -
  let ?s = "demo_sock [RdChunk [1, 2], RdChunk [3, 4]] []" and ?e = "new_pending (Some 1) EvRead None None 3 False"
  let ?p = "fold pool_do [OpAdoptTcp ?s, OpReadBytes 0 1 (-1) 3] (pool_new 0)"
  have r: "tcp_read 1 1 ?e ?s 0 ?p"
    by (simp add: tcp_read_def create_iod_tcp_from_def iod_from_tcp_stream_def iod_new_tcp_def read_bytes_def
        enqueue_def new_pending_def pool_new_def put_iod_def deadline_after_def Let_def)
  have e: "\<not> read_complete ?e" "0 < pe_target ?e" by (simp_all add: read_complete_def new_pending_def)
  have buf: "map_option pe_buf (event_of (snd (attempts 2 1 ?p)) 1) = Some [1, 2, 3, 4]" by code_simp
  obtain got s' where got: "tcp_read 1 1 (?e\<lparr>pe_buf := pe_buf ?e @ got\<rparr>) s' (0 + length got) (snd (attempts 2 1 ?p))"
    using read_collects_stream [OF r e, of 2] unfolding Let_def by blast
  have "got = [1, 2, 3, 4]" using buf got by (simp add: tcp_read_def new_pending_def)
  with got show ?thesis by (intro exI [of _ s']) (simp add: new_pending_def eval_nat_numeral)
qed

text \<open>A line read takes whatever one read of the stream returns: when bytes of the next line
  have arrived with the line, it succeeds at once with all of them in its buffer, and the stream no longer
  has them, so a following line read cannot return them. (The operation is documented as fetching the
  line, including its newline.)\<close>

theorem readlines_swallows_next_line:
  assumes "tcp_read ev i e s n p" "pe_line e" "pe_buf e = []"
    "sk_reads s = RdChunk (line @ [10] @ rest) # rs" "length (line @ [10] @ rest) \<le> 4096"
  shows "fst (try_io ev p) = Some StSuccess \<and>
    map_option pe_buf (event_of (snd (try_io ev p)) ev) = Some (line @ [10] @ rest) \<and>
    (\<exists>d. iod_of (snd (try_io ev p)) i = Some d \<and> map_option sk_reads (iod_tcp d) = Some rs)"
proof -
  obtain d where d: "event_of p ev = Some e" "pe_kind e = EvRead" "pe_iod e = Some i"
      "iod_of p i = Some d" "iod_kind d = IodTcp" "iod_tcp d = Some s"
    using assms(1) unfolding tcp_read_def by blast
  have r: "stream_read 4096 s = (RdChunk (line @ [10] @ rest), s\<lparr>sk_reads := rs\<rparr>)"
    using assms(4,5) by (simp add: stream_read_def)
  have "try_io ev p = try_read_tcp ev e i d s p"
    using d by (simp add: try_io_def try_read_def event_iod_def)
  then show ?thesis
    using r assms(2,3) by (simp add: try_read_tcp_def Let_def read_complete_def)
qed

theorem readlines_swallows_next_line_witness:
  "map_option pe_buf (event_of (snd (try_io 1 (fold pool_do
     [OpAdoptTcp (demo_sock [RdChunk [65, 10, 66, 10]] []), OpReadLines 0 1 (-1) 80] (pool_new 0)))) 1) = Some [65, 10, 66, 10]"
proof -
  let ?s = "demo_sock [RdChunk [65, 10, 66, 10]] []" and ?e = "new_pending (Some 1) EvRead None None 80 True"
  let ?p = "fold pool_do [OpAdoptTcp ?s, OpReadLines 0 1 (-1) 80] (pool_new 0)"
  have r: "tcp_read 1 1 ?e ?s 0 ?p"
    by (simp add: tcp_read_def create_iod_tcp_from_def iod_from_tcp_stream_def iod_new_tcp_def readlines_def
        enqueue_def new_pending_def pool_new_def put_iod_def deadline_after_def Let_def)
  have e: "pe_line ?e" "pe_buf ?e = []" by (simp_all add: new_pending_def)
  have "sk_reads ?s = RdChunk ([65] @ [10] @ [66, 10]) # []" "length ([65 :: u8] @ [10] @ [66, 10]) \<le> 4096"
    by (simp_all add: demo_sock_def)
  from readlines_swallows_next_line [OF r e this] show ?thesis by simp
qed

section \<open>Connect results\<close>

lemma distinct_split_filter:
  "distinct (filter P xs) \<and> distinct (filter (\<lambda>x. \<not> P x) xs) \<longleftrightarrow> distinct xs"
  by (induction xs) auto

lemma is_order_front: "is_order (\<lambda>ks. filter ((=) k) ks @ filter (\<lambda>j. k \<noteq> j) ks)"
proof -
  have "distinct (filter ((=) k) ks @ filter (\<lambda>j. k \<noteq> j) ks) \<longleftrightarrow> distinct ks" for ks
    unfolding distinct_append distinct_split_filter [of "(=) k" ks, symmetric] by auto
  then show ?thesis unfolding is_order_def by auto
qed

lemma attach_stream_iods: "iod_of (attach_stream i s p) i = map_option
    (\<lambda>d. d\<lparr>iod_tcp := Some s, iod_kind := IodTcp, iod_peer := sk_peer s, iod_connected := True\<rparr>) (iod_of p i)"
  by (simp add: attach_stream_def split: option.split)

definition open_connects :: "nat \<Rightarrow> pool \<Rightarrow> nat set" where
  "open_connects i p = {k. \<exists>e. event_of p k = Some e \<and> \<not> pe_done e \<and> pe_kind e = EvConnect \<and> pe_iod e = Some i}"

lemma connect_target_in:
  assumes "is_order ord" "open_connects i p \<noteq> {}"
  shows "\<exists>k. connect_target ord i p = Some k \<and> k \<in> open_connects i p"
proof (cases "connect_target ord i p")
  case None
  have keys: "event_of p k \<noteq> None \<Longrightarrow> k \<in> set (ord (map fst (pool_pending p)))" for k
    using assms(1) unfolding is_order_def by (metis map_of_eq_None_iff set_map)
  obtain k e where e: "event_of p k = Some e" "\<not> pe_done e" "pe_kind e = EvConnect" "pe_iod e = Some i"
    using assms(2) by (auto simp: open_connects_def)
  then have "k \<in> set (ord (map fst (pool_pending p)))" using keys by simp
  with None e show ?thesis unfolding connect_target_def find_None_iff by fastforce
next
  case (Some k)
  then show ?thesis by (auto simp: open_connects_def elim: connect_target_some)
qed

lemma drain_connect:
  assumes "pool_wf p" "connect_target ord i p = Some k"
  shows "pool_log (drain_cmd ord (ConnectResult i res) p) = pool_log p @ [(k, if res = None then StError else StSuccess)]"
    and "event_of (drain_cmd ord (ConnectResult i res) p) = (event_of p)(k := None)"
    and "iod_of (drain_cmd ord (ConnectResult i (Some s)) p) i = map_option
           (\<lambda>d. d\<lparr>iod_tcp := Some s, iod_kind := IodTcp, iod_peer := sk_peer s, iod_connected := True\<rparr>) (iod_of p i)"
proof -
  obtain e where e: "event_of p k = Some e" "\<not> pe_done e" using connect_target_some [OF assms(2)] by metis
  then have f: "\<not> pe_cancelled e" "pe_armed e" using assms(1) unfolding pool_wf_def by blast+
  show "pool_log (drain_cmd ord (ConnectResult i res) p) = pool_log p @ [(k, if res = None then StError else StSuccess)]"
    "event_of (drain_cmd ord (ConnectResult i res) p) = (event_of p)(k := None)"
    using assms(2) e f by (cases res; simp)+
  show "iod_of (drain_cmd ord (ConnectResult i (Some s)) p) i = map_option
      (\<lambda>d. d\<lparr>iod_tcp := Some s, iod_kind := IodTcp, iod_peer := sk_peer s, iod_connected := True\<rparr>) (iod_of p i)"
    using assms(2) e f by (simp add: attach_stream_iods)
qed

text \<open>C36: The result of a connect names its descriptor only. Whatever the iteration order, when any
  connect is open on that descriptor exactly one of them is answered with the result and its entry
  removed; a stream that was obtained becomes the descriptor's. Which one it is depends on the hash map:
  every open connect of the descriptor can be the one answered, so the result of an attempt can complete
  a later one. A result for a descriptor with no open connect (timed out, cancelled, deleted) is dropped.\<close>

theorem connect_result_by_descriptor:
  assumes "pool_wf p"
  shows "(\<forall>ord. is_order ord \<and> open_connects i p \<noteq> {} \<longrightarrow>
       (\<exists>k \<in> open_connects i p. let q = drain_cmd ord (ConnectResult i res) p in
          pool_log q = pool_log p @ [(k, if res = None then StError else StSuccess)] \<and>
          event_of q = (event_of p)(k := None) \<and>
          (\<forall>s d. res = Some s \<and> iod_of p i = Some d \<longrightarrow>
             iod_of q i = Some (d\<lparr>iod_tcp := Some s, iod_kind := IodTcp, iod_peer := sk_peer s, iod_connected := True\<rparr>)))) \<and>
    (\<forall>k \<in> open_connects i p. \<exists>ord. is_order ord \<and>
       pool_log (drain_cmd ord (ConnectResult i res) p) = pool_log p @ [(k, if res = None then StError else StSuccess)]) \<and>
    (open_connects i p = {} \<longrightarrow> (\<forall>ord. is_order ord \<longrightarrow> drain_cmd ord (ConnectResult i res) p = p))"
proof (intro conjI allI impI ballI; (elim conjE)?)
  fix ord assume "is_order ord" "open_connects i p \<noteq> {}"
  then obtain k where k: "connect_target ord i p = Some k" "k \<in> open_connects i p" using connect_target_in by blast
  with drain_connect [OF assms k(1)]
  show "\<exists>k \<in> open_connects i p. let q = drain_cmd ord (ConnectResult i res) p in
      pool_log q = pool_log p @ [(k, if res = None then StError else StSuccess)] \<and>
      event_of q = (event_of p)(k := None) \<and>
      (\<forall>s d. res = Some s \<and> iod_of p i = Some d \<longrightarrow>
         iod_of q i = Some (d\<lparr>iod_tcp := Some s, iod_kind := IodTcp, iod_peer := sk_peer s, iod_connected := True\<rparr>))"
    unfolding Let_def by (intro bexI [of _ k]) auto
next
  fix k assume k: "k \<in> open_connects i p"
  then obtain e where e: "event_of p k = Some e" "\<not> pe_done e" "pe_kind e = EvConnect" "pe_iod e = Some i"
    by (auto simp: open_connects_def)
  let ?ord = "\<lambda>ks. filter ((=) k) ks @ filter (\<lambda>j. k \<noteq> j) ks"
  have "k \<in> set (map fst (pool_pending p))" using e(1) by (metis map_of_eq_None_iff option.distinct(1) set_map)
  then obtain rest where "filter ((=) k) (map fst (pool_pending p)) = k # rest"
    by (cases "filter ((=) k) (map fst (pool_pending p))") (auto simp: filter_empty_conv filter_eq_Cons_iff)
  then have "connect_target ?ord i p = Some k" using e by (simp add: connect_target_def)
  from drain_connect(1) [OF assms this] is_order_front
  show "\<exists>ord. is_order ord \<and>
      pool_log (drain_cmd ord (ConnectResult i res) p) = pool_log p @ [(k, if res = None then StError else StSuccess)]"
    by blast
next
  fix ord assume none: "open_connects i p = {}"
  have "connect_target ord i p = None"
  proof (cases "connect_target ord i p")
    case (Some k)
    then have "k \<in> open_connects i p" by (auto simp: open_connects_def elim: connect_target_some)
    with none show ?thesis by simp
  qed simp
  then show "drain_cmd ord (ConnectResult i res) p = p" by simp
qed

text \<open>Two connects on one descriptor: a failed result can go to the second.\<close>

theorem connect_result_by_descriptor_witness:
  "\<exists>ord. is_order ord \<and> pool_log (drain_cmd ord (ConnectResult 1 None)
     (fold pool_do [OpCreateTcp, OpConnect 0 1 100, OpConnect 50 1 100] (pool_new 0))) = [(2, StError)]"
proof -
  let ?p = "fold pool_do [OpCreateTcp, OpConnect 0 1 100, OpConnect 50 1 100] (pool_new 0)"
  have wf: "pool_wf ?p" by (rule pool_ledger.history_wf [OF pool_wf_new])
  have "2 \<in> open_connects 1 ?p" "pool_log ?p = []"
    by (simp_all add: open_connects_def create_iod_tcp_def connect_tcp_def enqueue_def new_pending_def pool_new_def Let_def)
  with connect_result_by_descriptor [OF wf, of 1 None] show ?thesis by fastforce
qed

text \<open>C37: The helper thread reports a failed connect only after its own deadline, which is no earlier
  than the deadline of the event it serves: an immediate refusal is retried until the time is up. So a
  turn that reads a clock between the event's deadline and the failure's arrival reports a timeout,
  and a failure is never reported before the event's deadline. A success is reported from an attempt
  begun before the deadline.\<close>

theorem connect_failure_waits:
  assumes "connect_bounded (started + connect_timeout timeout) tries = Some (now, res)"
    "event_of (snd (connect_tcp issued i timeout p)) (fst (connect_tcp issued i timeout p)) = Some e" "issued \<le> started"
  shows "(res = None \<longrightarrow> (\<exists>t. pe_deadline e = Some t \<and> t \<le> now)) \<and>
    (\<forall>s. res = Some s \<longrightarrow> now < started + connect_timeout timeout \<and> (now, Some s) \<in> set tries) \<and>
    (\<forall>fails. (\<forall>r \<in> set fails. fst r < started + connect_timeout timeout \<and> snd r = None) \<longrightarrow>
       connect_bounded (started + connect_timeout timeout) (fails @ tries) = Some (now, res))"
proof -
  let ?d = "started + connect_timeout timeout"
  have "pe_deadline e = Some (issued + connect_timeout timeout)"
    using assms(2) by (auto simp: connect_tcp_def enqueue_def new_pending_def Let_def)
  moreover have "res = None \<longrightarrow> ?d \<le> now" "\<forall>s. res = Some s \<longrightarrow> now < ?d \<and> (now, Some s) \<in> set tries"
    using assms(1) by (induction ?d tries rule: connect_bounded.induct) (auto split: if_splits option.splits)
  moreover have "connect_bounded ?d (fails @ tries) = Some (now, res)"
    if "\<forall>r \<in> set fails. fst r < ?d \<and> snd r = None" for fails
    using that assms(1) by (induction fails) (auto simp: split_beta)
  ultimately show ?thesis using assms(3) by auto
qed

theorem connect_failure_waits_witness:
  "connect_bounded (0 + connect_timeout 100) [(0, None), (50, None), (110, None)] = Some (110, None) \<and>
   (\<exists>e t. event_of (snd (connect_tcp 0 1 100 (pool_new 0))) 1 = Some e \<and> pe_deadline e = Some t \<and> t \<le> 110)"
proof -
  let ?e = "new_pending (Some 1) EvConnect (Some (0 + connect_timeout 100)) None 0 False"
  have c: "connect_bounded (0 + connect_timeout 100) [(0, None), (50, None), (110, None)] = Some (110, None)"
    by (simp add: connect_timeout_def)
  have e: "event_of (snd (connect_tcp 0 1 100 (pool_new 0))) (fst (connect_tcp 0 1 100 (pool_new 0))) = Some ?e"
    by (simp add: connect_tcp_def enqueue_def pool_new_def Let_def)
  have "fst (connect_tcp 0 1 100 (pool_new 0)) = 1" by (simp add: connect_tcp_def enqueue_def pool_new_def Let_def)
  with connect_failure_waits [OF c e] c e show ?thesis by force
qed

end
