(* ===== verification/Nsock_Udp.thy ===== *)
theory Nsock_Udp
  imports Nsock_Io
begin

text \<open>
  Datagram descriptors: what the events of the pool move between a UDP socket and its callers, and to
  which address datagrams go.
\<close>

definition udp_event :: "nat \<Rightarrow> nat \<Rightarrow> pending \<Rightarrow> sock \<Rightarrow> nat \<times> nat \<Rightarrow> pool \<Rightarrow> bool" where
  "udp_event ev i e s counts p \<longleftrightarrow>
     event_of p ev = Some e \<and> pe_iod e = Some i \<and>
     (\<exists>d. iod_of p i = Some d \<and> iod_kind d = IodUdp \<and> iod_udp d = Some s
        \<and> (iod_read_count d, iod_write_count d) = counts)"

lemma udp_eventE:
  assumes "udp_event ev i e s (nr, nw) p"
  obtains d where "event_of p ev = Some e" "pe_iod e = Some i" "iod_of p i = Some d" "iod_kind d = IodUdp"
    "iod_udp d = Some s" "iod_read_count d = nr" "iod_write_count d = nw"
  using assms unfolding udp_event_def by blast

section \<open>Writing\<close>

lemma udp_write_step:
  assumes "udp_event ev i e s (nr, nw) p" "pe_kind e = EvWrite" "pe_wbuf e = Some data"
  obtains (sent) a s' d' q where "try_io ev p = (Some StSuccess, q)" "sk_peer s = Some a"
      "iod_of q i = Some d'" "iod_udp d' = Some s'" "sk_datagrams s' = sk_datagrams s @ [(a, data)]"
      "iod_write_count d' = nw + length data"
  | (blocked) s' q where "try_io ev p = (None, q)" "udp_event ev i e s' (nr, nw) q"
      "sk_peer s' = sk_peer s" "sk_datagrams s' = sk_datagrams s"
  | (failed) s' d' q where "try_io ev p = (Some StError, q)" "iod_of q i = Some d'" "iod_udp d' = Some s'"
      "sk_datagrams s' = sk_datagrams s" "iod_write_count d' = nw"
proof -
  obtain d where e: "event_of p ev = Some e" "pe_iod e = Some i"
    and d: "iod_of p i = Some d" "iod_kind d = IodUdp" "iod_udp d = Some s" "iod_read_count d = nr" "iod_write_count d = nw"
    using assms(1) by (rule udp_eventE)
  have io: "try_io ev p = try_write_udp ev e i d s data p"
    using e d assms(2,3) by (simp add: try_io_def try_write_def event_iod_def)
  show thesis
  proof (cases "sk_peer s")
    case None
    then have "try_io ev p = (Some StError, put_iod i (d\<lparr>iod_udp := Some s\<rparr>) p)"
      by (simp add: io try_write_udp_def datagram_send_def)
    then show thesis by (rule failed) (use d in simp_all)
  next
    case (Some a)
    show thesis
    proof (cases "sk_writes s")
      case Nil
      with Some show thesis
        by (intro sent [OF _ Some]) (auto simp: io try_write_udp_def datagram_send_def d)
    next
      case (Cons w ws)
      note send = io try_write_udp_def datagram_send_def Some Cons
      show thesis
      proof (cases w)
        case (WrTook k)
        show thesis by (rule sent [OF _ Some]) (auto simp: send WrTook d)
      next
        case WrWouldBlock
        show thesis
          by (rule blocked [of "put_iod i (d\<lparr>iod_udp := Some (s\<lparr>sk_writes := ws\<rparr>)\<rparr>) p" "s\<lparr>sk_writes := ws\<rparr>"])
            (use e d in \<open>auto simp: send WrWouldBlock udp_event_def\<close>)
      next
        case WrError
        show thesis by (rule failed [of _ "d\<lparr>iod_udp := Some (s\<lparr>sk_writes := ws\<rparr>)\<rparr>" "s\<lparr>sk_writes := ws\<rparr>"])
            (auto simp: send WrError d)
      qed
    qed
  qed
qed

text \<open>C14: Over any number of turns a UDP write sends its data as one datagram, whole and at most once, to the
  address its socket is connected to, and succeeds exactly then; before, and when it fails, nothing has
  been sent or counted. On a socket that is not connected it fails.\<close>
theorem udp_write_one_datagram:
  assumes "udp_event ev i e s (nr, nw) p" "pe_kind e = EvWrite" "pe_wbuf e = Some data"
  shows "\<exists>d' s'. iod_of (snd (attempts m ev p)) i = Some d' \<and> iod_udp d' = Some s' \<and>
    (if fst (attempts m ev p) = Some StSuccess
     then (\<exists>a. sk_peer s = Some a \<and> sk_datagrams s' = sk_datagrams s @ [(a, data)])
          \<and> iod_write_count d' = nw + length data
     else fst (attempts m ev p) \<in> {None, Some StError} \<and> sk_datagrams s' = sk_datagrams s
          \<and> iod_write_count d' = nw)"
  using assms
proof (induction m arbitrary: s p)
  case 0
  then show ?case by (auto simp: udp_event_def)
next
  case (Suc m)
  show ?case
  proof (cases rule: udp_write_step [OF Suc.prems])
    case (2 s' q)
    then have a: "attempts (Suc m) ev p = attempts m ev q" by simp
    show ?thesis unfolding a using Suc.IH [OF 2(2) Suc.prems(2,3)] unfolding 2(3,4) .
  qed auto
qed

text \<open>A datagram over a connected socket that first blocks.\<close>

definition udp_sock :: "read_answer list \<Rightarrow> write_answer list \<Rightarrow> sock" where
  "udp_sock rs ws = idle_sock\<lparr>sk_peer := Some (SockV4 (Ipv4Addr 10 0 0 1) 53), sk_reads := rs, sk_writes := ws\<rparr>"

lemmas udp_pool_simps = create_iod_udp_from_def iod_from_udp_socket_def iod_new_tcp_def write_event_def read_bytes_def
  enqueue_def new_pending_def pool_new_def put_iod_def Let_def

theorem udp_write_one_datagram_witness:
  "\<exists>d' s'. iod_of (snd (attempts 2 1 (fold pool_do
       [OpAdoptUdp (udp_sock [] [WrWouldBlock]), OpWrite 0 1 [7, 8, 9] (-1)] (pool_new 0)))) 1 = Some d' \<and>
     iod_udp d' = Some s' \<and> sk_datagrams s' = [(SockV4 (Ipv4Addr 10 0 0 1) 53, [7, 8, 9])]"
proof -
  let ?s = "udp_sock [] [WrWouldBlock]" and ?e = "new_pending (Some 1) EvWrite None (Some [7, 8, 9]) 3 False"
  let ?p = "fold pool_do [OpAdoptUdp ?s, OpWrite 0 1 [7, 8, 9] (-1)] (pool_new 0)"
  have w: "udp_event 1 1 ?e ?s (0, 0) ?p"
    by (simp add: udp_event_def udp_pool_simps deadline_after_def)
  have st: "fst (attempts 2 1 ?p) = Some StSuccess" by code_simp
  show ?thesis
    using udp_write_one_datagram [OF w, of "[7, 8, 9]" 2] st
    by (auto simp: new_pending_def udp_sock_def idle_sock_def)
qed

section \<open>Where datagrams go\<close>

text \<open>C28: \<open>send_udp\<close> connects the socket when the request is made and sends when the loop gets to it, so two
  requests to different addresses made before the loop runs both go to the second address; the first
  address gets nothing, and both writes succeed. (Each is documented as sending to its own address.)\<close>
theorem udp_sends_share_destination:
  assumes "iod_of p i = Some d" "iod_udp d = Some s" "sk_accepts s b" "sk_writes s = []"
    and "send_udp now i a d1 t p = (ev1, p1)" "send_udp now i b d2 t p1 = (ev2, p2)"
    and "try_io ev1 p2 = (r1, p3)" "try_io ev2 p3 = (r2, p4)"
  shows "r1 = Some StSuccess \<and> r2 = Some StSuccess \<and>
    (\<exists>d' s'. iod_of p4 i = Some d' \<and> iod_udp d' = Some s' \<and> sk_datagrams s' = sk_datagrams s @ [(b, d1), (b, d2)])"
proof -
  let ?e = "\<lambda>d. new_pending (Some i) EvWrite (deadline_after now t) (Some d) (length d) False"
  let ?s = "datagram_connect b (datagram_connect a s)"
  have ev: "ev1 = pool_issued p + 1" "ev2 = pool_issued p + 2"
    using assms(5,6) by (auto simp: send_udp_def write_event_def enqueue_def connect_udp_def assms(1) Let_def)
  have e2: "event_of p2 ev1 = Some (?e d1)" "event_of p2 ev2 = Some (?e d2)"
    using assms(5,6) ev by (auto simp: send_udp_def write_event_def enqueue_def connect_udp_def assms(1) Let_def)
  obtain d0 where d0: "iod_of p2 i = Some d0" "iod_udp d0 = Some ?s" "iod_kind d0 = IodUdp"
    using assms(5,6) by (auto simp: send_udp_def write_event_def enqueue_def connect_udp_def assms(1,2) Let_def)
  have s: "sk_peer ?s = Some b" "sk_writes ?s = []" "sk_datagrams ?s = sk_datagrams s"
    using assms(3,4) by (simp_all add: datagram_connect_def)
  have step: "\<exists>q. try_io ev p' = (Some StSuccess, q) \<and> (\<forall>k. k \<noteq> ev \<longrightarrow> event_of q k = event_of p' k) \<and>
      iod_of q i = Some (d'\<lparr>iod_udp := Some (s'\<lparr>sk_datagrams := sk_datagrams s' @ [(b, data)]\<rparr>),
                           iod_write_count := iod_write_count d' + length data\<rparr>)"
    if "event_of p' ev = Some (?e data)" "iod_of p' i = Some d'" "iod_udp d' = Some s'" "iod_kind d' = IodUdp"
      "sk_peer s' = Some b" "sk_writes s' = []" for p' ev data d' s'
    using that by (simp add: try_io_def try_write_def event_iod_def new_pending_def try_write_udp_def datagram_send_def)
  from step [OF e2(1) d0(1,2,3) s(1,2)] assms(7)
  have r1: "r1 = Some StSuccess" "event_of p3 ev2 = Some (?e d2)"
    "iod_of p3 i = Some (d0\<lparr>iod_udp := Some (?s\<lparr>sk_datagrams := sk_datagrams ?s @ [(b, d1)]\<rparr>),
                           iod_write_count := iod_write_count d0 + length d1\<rparr>)"
    using e2(2) ev by auto
  from step [OF r1(2,3)] d0(3) s assms(8) show ?thesis using r1(1) by auto
qed

theorem udp_sends_share_destination_witness:
  "\<exists>p3 p4 d' s'. let a = SockV4 (Ipv4Addr 10 0 0 1) 53; b = SockV4 (Ipv4Addr 10 0 0 2) 53;
       p2 = fold pool_do [OpAdoptUdp idle_sock, OpSendUdp 0 1 a [1] (-1), OpSendUdp 0 1 b [2] (-1)] (pool_new 0) in
     try_io 1 p2 = (Some StSuccess, p3) \<and> try_io 2 p3 = (Some StSuccess, p4) \<and>
     iod_of p4 1 = Some d' \<and> iod_udp d' = Some s' \<and> sk_datagrams s' = [(b, [1]), (b, [2])]"
proof -
  let ?a = "SockV4 (Ipv4Addr 10 0 0 1) 53" and ?b = "SockV4 (Ipv4Addr 10 0 0 2) 53"
  let ?p = "snd (create_iod_udp_from idle_sock (pool_new 0))"
  obtain ev1 p1 where p1: "send_udp 0 1 ?a [1] (-1) ?p = (ev1, p1)" by (cases "send_udp 0 1 ?a [1] (-1) ?p")
  obtain ev2 p2 where p2: "send_udp 0 1 ?b [2] (-1) p1 = (ev2, p2)" by (cases "send_udp 0 1 ?b [2] (-1) p1")
  obtain r1 p3 where p3: "try_io ev1 p2 = (r1, p3)" by (cases "try_io ev1 p2")
  obtain r2 p4 where p4: "try_io ev2 p3 = (r2, p4)" by (cases "try_io ev2 p3")
  have i: "iod_of ?p 1 = Some (iod_from_udp_socket idle_sock 1)"
    by (simp add: create_iod_udp_from_def pool_new_def Let_def)
  have ev: "ev1 = 1" "ev2 = 2"
    using p1 p2 i by (auto simp: send_udp_def write_event_def enqueue_def connect_udp_def create_iod_udp_from_def
        pool_new_def Let_def)
  have "r1 = Some StSuccess \<and> r2 = Some StSuccess \<and>
    (\<exists>d' s'. iod_of p4 1 = Some d' \<and> iod_udp d' = Some s' \<and> sk_datagrams s' = sk_datagrams idle_sock @ [(?b, [1]), (?b, [2])])"
    by (rule udp_sends_share_destination [OF i _ _ _ p1 p2 p3 p4])
      (simp_all add: iod_from_udp_socket_def idle_sock_def)
  then show ?thesis using p1 p2 p3 p4 ev by (auto simp: idle_sock_def Let_def)
qed

section \<open>Reading\<close>

text \<open>C25: A UDP read blocks until a datagram is there and then succeeds with that datagram as its buffer, cut to
  65535 bytes, which can be fetched after delivery; what the buffer held before is replaced, and the
  following datagrams stay with the socket. Neither the number of bytes nor the line that the read asked
  for matters: it succeeds with fewer, even with none. (\<open>read_bytes\<close> is documented as reading at least
  the bytes asked for.)\<close>
theorem udp_read_one_datagram:
  assumes "udp_event ev i e s (nr, nw) p" "pe_kind e = EvRead"
    and "sk_reads s = replicate k RdWouldBlock @ RdChunk bs # rs" "k < m"
  shows "\<exists>q. attempts m ev p = (Some StSuccess, q)
    \<and> udp_event ev i (e\<lparr>pe_buf := take 65535 bs\<rparr>) (s\<lparr>sk_reads := rs\<rparr>) (nr + min (length bs) 65535, nw) q
    \<and> (pe_done e \<or> pe_cancelled e \<or> fst (take_read_buf ev (deliver (ev, StSuccess) q)) = take 65535 bs)"
  using assms
proof (induction k arbitrary: m s p)
  case 0
  obtain d where e: "event_of p ev = Some e" "pe_iod e = Some i"
    and d: "iod_of p i = Some d" "iod_kind d = IodUdp" "iod_udp d = Some s" "iod_read_count d = nr" "iod_write_count d = nw"
    using "0.prems"(1) by (rule udp_eventE)
  obtain n where m: "m = Suc n" using "0.prems"(4) by (cases m) simp_all
  let ?q = "put_iod i (d\<lparr>iod_udp := Some (s\<lparr>sk_reads := rs\<rparr>), iod_read_count := nr + min (length bs) 65535\<rparr>)
      (put_event ev (e\<lparr>pe_buf := take 65535 bs\<rparr>) p)"
  have "try_io ev p = (Some StSuccess, ?q)"
    using e d 0 by (simp add: try_io_def try_read_def event_iod_def try_read_udp_def datagram_recv_def min.commute)
  moreover have "fst (take_read_buf ev (deliver (ev, StSuccess) ?q)) = take 65535 bs" if "\<not> pe_done e" "\<not> pe_cancelled e"
    using that "0.prems"(2) by (simp add: deliver_def Let_def take_read_buf_def update_conv')
  ultimately show ?case
    unfolding m using e d by (intro exI [of _ ?q]) (auto simp: udp_event_def)
next
  case (Suc k)
  obtain d where e: "event_of p ev = Some e" "pe_iod e = Some i"
    and d: "iod_of p i = Some d" "iod_kind d = IodUdp" "iod_udp d = Some s" "iod_read_count d = nr" "iod_write_count d = nw"
    using Suc.prems(1) by (rule udp_eventE)
  obtain n where m: "m = Suc n" using Suc.prems(4) by (cases m) simp_all
  let ?s = "s\<lparr>sk_reads := replicate k RdWouldBlock @ RdChunk bs # rs\<rparr>"
  let ?q = "put_iod i (d\<lparr>iod_udp := Some ?s\<rparr>) p"
  have "try_io ev p = (None, ?q)"
    using e d Suc.prems by (simp add: try_io_def try_read_def event_iod_def try_read_udp_def datagram_recv_def)
  then have a: "attempts m ev p = attempts n ev ?q" by (simp add: m)
  have u: "udp_event ev i e ?s (nr, nw) ?q" using e d by (simp add: udp_event_def)
  have r: "sk_reads ?s = replicate k RdWouldBlock @ RdChunk bs # rs" "k < n" using Suc.prems(4) by (simp_all add: m)
  have "?s\<lparr>sk_reads := rs\<rparr> = s\<lparr>sk_reads := rs\<rparr>" by simp
  with Suc.IH [OF u Suc.prems(2) r] show ?case unfolding a by (simp only:)
qed

text \<open>A read of at least ten bytes that gets a datagram of one.\<close>

theorem udp_read_one_datagram_witness:
  "\<exists>q. attempts 2 1 (fold pool_do [OpAdoptUdp (udp_sock [RdWouldBlock, RdChunk [65]] []), OpReadBytes 0 1 (-1) 10]
      (pool_new 0)) = (Some StSuccess, q)
    \<and> fst (take_read_buf 1 (deliver (1, StSuccess) q)) = [65]"
proof -
  let ?s = "udp_sock [RdWouldBlock, RdChunk [65]] []" and ?e = "new_pending (Some 1) EvRead None None 10 False"
  let ?p = "fold pool_do [OpAdoptUdp ?s, OpReadBytes 0 1 (-1) 10] (pool_new 0)"
  have "udp_event 1 1 ?e ?s (0, 0) ?p"
    by (simp add: udp_event_def udp_pool_simps deadline_after_def)
  moreover have "pe_kind ?e = EvRead" "sk_reads ?s = replicate 1 RdWouldBlock @ RdChunk [65] # []" "1 < (2 :: nat)"
    by (simp_all add: new_pending_def udp_sock_def)
  ultimately show ?thesis
    using udp_read_one_datagram [of 1 1 ?e ?s 0 0 ?p 1 "[65]" "[]" 2] by (auto simp: new_pending_def)
qed

end
