(* ===== verification/Nsock_Connect.thy ===== *)
theory Nsock_Connect
  imports Nsock_Run Nsock_Io
begin

text \<open>
  Pools whose only events are connects, one for each descriptor and with the descriptor's number: how each
  of them is answered in a run of the loop. \<open>connect_verdict\<close> states it without a pool: the first result
  for the descriptor decides, a success or an error, unless the deadline has passed in an earlier turn
  without one, which is a timeout.
\<close>

section \<open>The verdict on a connect\<close>

text \<open>The first of the results for descriptor \<open>i\<close>.\<close>

fun first_result :: "nat \<Rightarrow> cmd list \<Rightarrow> event_status option" where
  "first_result i [] = None"
| "first_result i (ConnectResult j res # cs) =
     (if j = i then Some (if res = None then StError else StSuccess) else first_result i cs)"
| "first_result i (CmdQuit # cs) = first_result i cs"

text \<open>Descriptor \<open>i\<close>, its deadline, the turns.\<close>

fun connect_verdict :: "nat \<Rightarrow> nat \<Rightarrow> tick list \<Rightarrow> event_status option" where
  "connect_verdict i d [] = None"
| "connect_verdict i d (t # ts) =
     (case first_result i (tk_arrived t) of
        Some st \<Rightarrow> Some st
      | None \<Rightarrow> if d \<le> tk_now t then Some StTimeout else connect_verdict i d ts)"

text \<open>Every event is an open connect of the descriptor of its own number, with the given deadline.\<close>

definition own_connects :: "(nat \<Rightarrow> nat) \<Rightarrow> pool \<Rightarrow> bool" where
  "own_connects dl p \<longleftrightarrow> (\<forall>k e. event_of p k = Some e \<longrightarrow>
     pe_iod e = Some k \<and> pe_kind e = EvConnect \<and> pe_deadline e = Some (dl k) \<and> \<not> pe_done e)"

lemma own_connectsD:
  assumes "own_connects dl p" "event_of p k = Some e"
  shows "pe_iod e = Some k" "pe_kind e = EvConnect" "pe_deadline e = Some (dl k)" "\<not> pe_done e"
  using assms unfolding own_connects_def by blast+

lemma own_connects_open:
  assumes "own_connects dl p"
  shows "open_connects i p = (if event_of p i = None then {} else {i})"
proof (cases "event_of p i")
  case None
  then show ?thesis using own_connectsD [OF assms] unfolding open_connects_def by fastforce
next
  case (Some e)
  from own_connectsD [OF assms this] Some own_connectsD(1) [OF assms] show ?thesis
    unfolding open_connects_def by fastforce
qed

lemma own_connects_fewer:
  assumes "own_connects dl p" "\<And>k e. event_of q k = Some e \<Longrightarrow> \<exists>e'. event_of p k = Some e' \<and> same_request e' e"
  shows "own_connects dl q"
  unfolding own_connects_def
proof (intro allI impI)
  fix k e assume "event_of q k = Some e"
  then obtain e' where e': "event_of p k = Some e'" "same_request e' e" using assms(2) by blast
  from own_connectsD [OF assms(1) e'(1)] same_request_fields [OF e'(2)]
  show "pe_iod e = Some k \<and> pe_kind e = EvConnect \<and> pe_deadline e = Some (dl k) \<and> \<not> pe_done e" by simp
qed

section \<open>Draining\<close>

lemma own_connect_target:
  assumes "is_order ord" "own_connects dl p"
  shows "connect_target ord i p = (if event_of p i = None then None else Some i)"
proof (cases "event_of p i")
  case None
  have "connect_target ord i p = None"
  proof (rule ccontr)
    assume "connect_target ord i p \<noteq> None"
    then obtain ev e where "event_of p ev = Some e" "pe_iod e = Some i" by (auto elim: connect_target_some)
    with own_connectsD(1) [OF assms(2)] None show False by fastforce
  qed
  with None show ?thesis by simp
next
  case (Some e)
  then show ?thesis using connect_target_in [OF assms(1), of i p] own_connects_open [OF assms(2), of i] by auto
qed

lemma drain_one:
  assumes "is_order ord" "own_connects dl p" "pool_wf p"
  shows "case first_result k [c] of
      Some st \<Rightarrow> event_of p k \<noteq> None \<longrightarrow> event_of (drain_cmd ord c p) k = None \<and> (k, st) \<in> set (pool_log (drain_cmd ord c p))
    | None \<Rightarrow> event_of (drain_cmd ord c p) k = event_of p k"
proof (cases c)
  case (ConnectResult i res)
  note target = own_connect_target [OF assms(1,2), of i]
  show ?thesis
  proof (cases "event_of p i")
    case None
    then have idle: "drain_cmd ord c p = p" using target ConnectResult by simp
    show ?thesis unfolding idle using None ConnectResult by auto
  next
    case (Some e)
    then have "connect_target ord i p = Some i" using target by simp
    from drain_connect(1,2) [OF assms(3) this, of res] ConnectResult show ?thesis by (auto simp del: drain_cmd.simps)
  qed
qed simp

lemma drain_cmd_log: "set (pool_log p) \<subseteq> set (pool_log (drain_cmd ord c p))"
proof -
  have at: "pool_log (attach_stream i s q) = pool_log q" for i s q by (simp add: attach_stream_def split: option.split)
  show ?thesis by (cases c) (auto simp: at split: option.split)
qed

lemma drain_cmds_log: "set (pool_log p) \<subseteq> set (pool_log (fold (drain_cmd ord) cs p))"
proof (induction cs arbitrary: p)
  case (Cons c cs)
  from drain_cmd_log [of p ord c] Cons.IH [of "drain_cmd ord c p"] show ?case by simp
qed simp

lemma wf_drain_cmd: "pool_wf p \<Longrightarrow> pool_wf (drain_cmd ord c p)"
  using step_drain_cmd [of p ord c] by (simp add: pool_step_def)

lemma own_drain_cmd:
  assumes "own_connects dl p"
  shows "own_connects dl (drain_cmd ord c p)"
proof (rule own_connects_fewer [OF assms])
  fix k e assume "event_of (drain_cmd ord c p) k = Some e"
  with drain_cmd_entries [of ord c p k] have "event_of p k = Some e" by auto
  with same_request_refl show "\<exists>e'. event_of p k = Some e' \<and> same_request e' e" by blast
qed

lemma first_result_Cons:
  "first_result k (c # cs) = (case first_result k [c] of Some st \<Rightarrow> Some st | None \<Rightarrow> first_result k cs)"
  by (cases c) simp_all

lemma drain_all:
  assumes "is_order ord" "own_connects dl p" "pool_wf p" "event_of p k \<noteq> None"
  shows "case first_result k cs of
      Some st \<Rightarrow> event_of (fold (drain_cmd ord) cs p) k = None \<and> (k, st) \<in> set (pool_log (fold (drain_cmd ord) cs p))
    | None \<Rightarrow> event_of (fold (drain_cmd ord) cs p) k = event_of p k"
  using assms(2-4)
proof (induction cs arbitrary: p)
  case (Cons c cs)
  let ?q = "drain_cmd ord c p"
  note one = drain_one [OF assms(1) Cons.prems(1,2), where k = k and c = c]
  note IH = Cons.IH [OF own_drain_cmd [OF Cons.prems(1)] wf_drain_cmd [OF Cons.prems(2)]]
  show ?case
  proof (cases "first_result k [c]")
    case None
    with one have same: "event_of ?q k = event_of p k" by simp
    then have "event_of ?q k \<noteq> None" using Cons.prems(3) by simp
    from IH [OF this] same None show ?thesis
      by (simp add: first_result_Cons [of k c cs] del: drain_cmd.simps split: option.splits)
  next
    case (Some st)
    with one Cons.prems(3) have gone: "event_of ?q k = None" "(k, st) \<in> set (pool_log ?q)" by simp_all
    have "event_of (fold (drain_cmd ord) cs ?q) k = None"
      using drain_cmds_entries [of ord cs ?q k] gone(1) by auto
    with gone(2) drain_cmds_log [of ?q ord cs] Some show ?thesis
      by (auto simp: first_result_Cons [of k c cs] simp del: drain_cmd.simps)
  qed
qed simp

section \<open>Turns and runs\<close>

lemma turn_verdict:
  assumes "is_order (tk_order t)" "own_connects dl p" "pool_wf p" "pool_rx p = []" "event_of p k \<noteq> None"
  shows "case connect_verdict k (dl k) [t] of
      Some st \<Rightarrow> event_of (loop_turn t p) k = None \<and> (k, st) \<in> set (pool_log (loop_turn t p))
    | None \<Rightarrow> event_of (loop_turn t p) k \<noteq> None"
proof -
  let ?ord = "tk_order t" and ?now = "tk_now t"
  let ?q = "drain_commands ?ord (tk_arrived t) p"
  have same: "p\<lparr>pool_rx := []\<rparr> = p" using assms(4) by (cases p) simp
  have q: "?q = fold (drain_cmd ?ord) (tk_arrived t) p" unfolding drain_commands_def assms(4) same by simp
  note drained = drain_all [OF assms(1-3,5), of "tk_arrived t", folded q]
  note wf = wf_drain [OF assms(3), of ?ord "tk_arrived t"]
  note eff = loop_pass_effect [OF wf assms(1), where now = ?now]
  show ?thesis
  proof (cases "first_result k (tk_arrived t)")
    case (Some st)
    with drained have gone: "event_of ?q k = None" "(k, st) \<in> set (pool_log ?q)" by simp_all
    then have "k \<notin> open_events ?q" by (simp add: open_events_def)
    then have "k \<notin> fst ` set (turn_results ?ord ?now ?q)" using eff(1) unfolding results_for_def by blast
    from eff(4) [OF this] gone eff(2) Some show ?thesis by (simp add: loop_turn_def)
  next
    case None
    with drained have "event_of ?q k = event_of p k" by simp
    with assms(5) obtain e where e: "event_of ?q k = Some e" "event_of p k = Some e" by auto
    note own = own_connectsD [OF assms(2) e(2)]
    show ?thesis
    proof (cases "dl k \<le> ?now")
      case True
      then have "deadline_verdict ?now e = Some StTimeout" using own by (simp add: deadline_verdict_def)
      from expired_result [OF wf assms(1) e(1) own(4) this]
      have r: "(k, StTimeout) \<in> set (turn_results ?ord ?now ?q)" .
      then have "k \<in> fst ` set (turn_results ?ord ?now ?q)" by force
      from eff(3) [OF this] eff(2) r None True show ?thesis by (simp add: loop_turn_def)
    next
      case False
      then have dv: "deadline_verdict ?now e = None" using own by (simp add: deadline_verdict_def)
      have "k \<notin> fst ` set (turn_results ?ord ?now ?q)"
      proof
        assume "k \<in> fst ` set (turn_results ?ord ?now ?q)"
        then obtain st where "(k, st) \<in> set (turn_results ?ord ?now ?q)" by force
        with e(1) dv own(2) show False by (auto elim: turn_results_status [OF wf assms(1)])
      qed
      from eff(4) [OF this] e(1) None False show ?thesis by (auto simp: loop_turn_def option_rel_Some1)
    qed
  qed
qed

lemma own_turn:
  assumes "is_order (tk_order t)" "own_connects dl p" "pool_wf p"
  shows "own_connects dl (loop_turn t p)"
  by (rule own_connects_fewer [OF assms(2)]) (rule turn_entries [OF assms(3,1)])

lemma turn_log:
  assumes "is_order (tk_order t)" "pool_wf p"
  shows "set (pool_log p) \<subseteq> set (pool_log (loop_turn t p))"
  using drain_cmds_log [of "p\<lparr>pool_rx := []\<rparr>" "tk_order t" "pool_rx p @ tk_arrived t"]
    loop_pass_effect(2) [OF wf_drain [OF assms(2)] assms(1), where now = "tk_now t"]
  by (auto simp: loop_turn_def drain_commands_def)

lemma run_loop_log:
  assumes "pool_wf p" "\<forall>t \<in> set ts. is_order (tk_order t)"
  shows "set (pool_log p) \<subseteq> set (pool_log (snd (run_loop start limit ts p)))"
  using assms
proof (induction ts arbitrary: p)
  case (Cons t ts)
  have "set (pool_log p) \<subseteq> set (pool_log (loop_turn t p))" using turn_log Cons.prems by simp
  moreover have "set (pool_log (loop_turn t p)) \<subseteq> set (pool_log (snd (run_loop start limit ts (loop_turn t p))))"
    using Cons.IH [OF wf_turn [OF Cons.prems(1)]] Cons.prems(2) by simp
  ultimately show ?case by (auto simp: Let_def split: option.split)
qed simp

lemma turn_no_quit:
  assumes "is_order (tk_order t)" "pool_wf p" "CmdQuit \<notin> set (tk_arrived t)" "pool_rx p = []" "\<not> pool_quit p"
  shows "\<not> pool_quit (loop_turn t p)"
proof -
  have "\<not> pool_quit (drain_commands (tk_order t) (tk_arrived t) p)" using assms(3-5) by (simp add: drain_quit)
  then show ?thesis unfolding loop_turn_def using loop_pass_effect(5) [OF wf_drain [OF assms(2)] assms(1)] by simp
qed

lemma connect_verdict_Cons:
  "connect_verdict k d (t # ts) = (case connect_verdict k d [t] of Some st \<Rightarrow> Some st | None \<Rightarrow> connect_verdict k d ts)"
  by (simp split: option.split)

lemma run_verdict:
  assumes "\<forall>t \<in> set ts. is_order (tk_order t) \<and> CmdQuit \<notin> set (tk_arrived t)"
    "own_connects dl p" "pool_wf p" "pool_rx p = []" "\<not> pool_quit p" "event_of p k \<noteq> None"
    "fst (run_loop start None ts p) \<noteq> None"
  shows "\<exists>st. connect_verdict k (dl k) ts = Some st \<and> (k, st) \<in> set (pool_log (snd (run_loop start None ts p)))"
  using assms
proof (induction ts arbitrary: p)
  case (Cons t ts)
  let ?p = "loop_turn t p"
  have o: "is_order (tk_order t)" and os: "\<forall>t \<in> set ts. is_order (tk_order t)" using Cons.prems(1) by simp_all
  have nq: "\<not> pool_quit ?p" using turn_no_quit [OF o Cons.prems(3) _ Cons.prems(4,5)] Cons.prems(1) by simp
  note turn = turn_verdict [OF o Cons.prems(2-4,6)]
  note step = own_turn [OF o Cons.prems(2,3)] wf_turn [OF Cons.prems(3)]
  have run: "run_loop start None (t # ts) p =
      (if has_pending ?p then run_loop start None ts ?p else (Some LoopNoEvents, ?p))"
    using nq by (simp add: Let_def)
  show ?case
  proof (cases "connect_verdict k (dl k) [t]")
    case (Some st)
    with turn have "(k, st) \<in> set (pool_log ?p)" by simp
    then have "(k, st) \<in> set (pool_log (snd (run_loop start None (t # ts) p)))"
      using run_loop_log [OF step(2) os, where start = start and limit = None] unfolding run by auto
    with Some show ?thesis by (simp only: connect_verdict_Cons [of k _ t ts]) simp
  next
    case None
    with turn obtain e where e: "event_of ?p k = Some e" by auto
    have "k \<in> open_events ?p" using e own_connectsD(4) [OF step(1) e] by (auto simp: open_events_def)
    then have pend: "has_pending ?p" using has_pending_open [OF step(2)] by auto
    then have "fst (run_loop start None ts ?p) \<noteq> None" using Cons.prems(7) unfolding run by simp
    from Cons.IH [OF _ step _ nq _ this] Cons.prems(1) e turn_frame [of t p]
    have "\<exists>st. connect_verdict k (dl k) ts = Some st \<and> (k, st) \<in> set (pool_log (snd (run_loop start None ts ?p)))"
      by simp
    with None pend show ?thesis unfolding run by (simp only: connect_verdict_Cons [of k _ t ts]) simp
  qed
qed simp

end
