(* ===== verification/Wnr_Cli.thy ===== *)
theory Wnr_Cli
  imports Pcap_Capture Nsock_Connect "HOL-Library.Multiset"
begin

text \<open>
  \<open>wnr/src/main.rs\<close>: the command line. Commands and their arguments, the port list, the connect scan
  over an event pool, the report on a capture file, the interface table and the route query. Here what
  the commands find out is data (rows, counts, outcomes); Wnr\_Main turns it into the text they print.
  The resolver of host names is a parameter.
\<close>

section \<open>Commands\<close>

datatype command =
    CmdUsage | CmdInterfaces | CmdScan "string list" | CmdPcap "string list" | CmdRoute "string list"
  | CmdVersion | CmdUnknown string

definition dispatch :: "string list \<Rightarrow> command" where
  "dispatch args =
     (case args of
        _ # c # rest \<Rightarrow>
          (if c \<in> {''--interfaces'', ''-i''} then CmdInterfaces
           else if c \<in> {''--scan'', ''-s''} then CmdScan rest
           else if c \<in> {''--pcap'', ''-p''} then CmdPcap rest
           else if c \<in> {''--route'', ''-r''} then CmdRoute rest
           else if c \<in> {''--version'', ''-V''} then CmdVersion
           else if c \<in> {''--help'', ''-h''} then CmdUsage
           else CmdUnknown c)
      | _ \<Rightarrow> CmdUsage)"

definition is_flag :: "string \<Rightarrow> bool" where
  "is_flag a \<longleftrightarrow> (case a of c # _ \<Rightarrow> c = CHR ''-'' | [] \<Rightarrow> False)"

section \<open>Port lists\<close>

definition port_range :: "u16 \<Rightarrow> u16 \<Rightarrow> u16 list" where
  "port_range a b = map word_of_nat [unat a ..< Suc (unat (max b a))]"

definition part_ports :: "string \<Rightarrow> u16 list" where
  "part_ports part =
     (if CHR ''-'' \<in> set part
      then (let vs = split_on CHR ''-'' part;
                a = (case parse_u16 (vs ! 0) of Some v \<Rightarrow> v | None \<Rightarrow> 0);
                b = (case (if 1 < length vs then parse_u16 (vs ! 1) else None) of Some v \<Rightarrow> v | None \<Rightarrow> a)
            in port_range a b)
      else (case parse_u16 part of Some p \<Rightarrow> [p] | None \<Rightarrow> []))"

text \<open>\<open>if seen.insert(p) { out.push(p) }\<close>; the set \<open>seen\<close> holds the ports of \<open>out\<close>.\<close>

definition push_new :: "u16 \<Rightarrow> u16 list \<Rightarrow> u16 list" where
  "push_new p out = (if p \<in> set out then out else out @ [p])"

definition parse_ports :: "string \<Rightarrow> u16 list" where
  "parse_ports spec = fold (\<lambda>part out. fold push_new (part_ports part) out) (split_on CHR '','' spec) []"

section \<open>Scan arguments\<close>

text \<open>\<open>str::parse::<i32>\<close>.\<close>

definition parse_i32 :: "string \<Rightarrow> i32 option" where
  "parse_i32 s =
     (case s of
        [] \<Rightarrow> None
      | c # cs \<Rightarrow>
          (if c = CHR ''-''
           then (if cs = [] then None else map_option (\<lambda>n. - word_of_nat n) (digits_value 10 (2 ^ 31) 0 cs))
           else map_option word_of_nat (from_str_radix 10 (2 ^ 31 - 1) s)))"

record scan_opts =
  so_host :: "string option"
  so_ports :: "u16 list"
  so_timeout :: i32

fun scan_args :: "string list \<Rightarrow> scan_opts \<Rightarrow> scan_opts" where
  "scan_args [] so = so"
| "scan_args (a # rest) so =
     (if a = ''-p'' then
        (case rest of v # rest' \<Rightarrow> scan_args rest' (so\<lparr>so_ports := so_ports so @ parse_ports v\<rparr>) | [] \<Rightarrow> so)
      else if a = ''--timeout'' then
        (case rest of
           v # rest' \<Rightarrow> scan_args rest' (so\<lparr>so_timeout := (case parse_i32 v of Some t \<Rightarrow> t | None \<Rightarrow> 3000)\<rparr>)
         | [] \<Rightarrow> so)
      else if a = ''--filter'' then (case rest of _ # rest' \<Rightarrow> scan_args rest' so | [] \<Rightarrow> so)
      else if is_flag a then scan_args rest so
      else scan_args rest (so\<lparr>so_host := Some a\<rparr>))"

datatype ip_addr = IpV4 ipv4_addr | IpV6 ipv6_addr

datatype scan_plan = ScanNoHost | ScanUnresolved string | ScanOf string ip_addr "u16 list" i32

definition plan_scan :: "(string \<Rightarrow> ip_addr list) \<Rightarrow> string list \<Rightarrow> scan_plan" where
  "plan_scan resolver args =
     (let so = scan_args args \<lparr>so_host = None, so_ports = [], so_timeout = 3000\<rparr>
      in case so_host so of
           None \<Rightarrow> ScanNoHost
         | Some h \<Rightarrow>
             (case resolver h of
                [] \<Rightarrow> ScanUnresolved h
              | ip # _ \<Rightarrow>
                  ScanOf h ip (if so_ports so = [] then map word_of_nat [1 ..< 101] else so_ports so) (so_timeout so)))"

section \<open>The scan\<close>

text \<open>One descriptor and one connect per port, each at its time; the handler of the connect's event has
  captured the port. The handlers by event, and the pool.\<close>

fun scan_requests :: "i32 \<Rightarrow> (u16 \<times> nat) list \<Rightarrow> pool \<Rightarrow> (nat \<times> u16) list \<times> pool" where
  "scan_requests timeout [] p = ([], p)"
| "scan_requests timeout ((port, now) # reqs) p =
     (let (i, p1) = create_iod_tcp p;
          (ev, p2) = connect_tcp now i timeout p1;
          (hs, p3) = scan_requests timeout reqs p2
      in ((ev, port) # hs, p3))"

text \<open>The handlers print a port as open on success and as closed otherwise.\<close>

definition scan_lines :: "(nat \<times> u16) list \<Rightarrow> (nat \<times> event_status) list \<Rightarrow> (u16 \<times> bool) list" where
  "scan_lines hs calls =
     List.map_filter (\<lambda>(ev, st). map_option (\<lambda>port. (port, st = StSuccess)) (map_of hs ev)) calls"

record scan_report =
  sr_status :: "loop_status option"
  sr_lines :: "(u16 \<times> bool) list"
  sr_open :: nat
  sr_closed :: nat

definition run_scan :: "i32 \<Rightarrow> (u16 \<times> nat) list \<Rightarrow> nat \<Rightarrow> tick list \<Rightarrow> scan_report" where
  "run_scan timeout reqs start ticks =
     (let (hs, p) = scan_requests timeout reqs (pool_new 0);
          (st, p') = pool_run start (-1) ticks p;
          ls = scan_lines hs (pool_log p')
      in \<lparr>sr_status = st, sr_lines = ls, sr_open = length (filter snd ls),
          sr_closed = length (filter (\<lambda>l. \<not> snd l) ls)\<rparr>)"

section \<open>Capture files\<close>

fun pcap_args :: "string list \<Rightarrow> string option \<times> string option \<Rightarrow> string option \<times> string option" where
  "pcap_args [] acc = acc"
| "pcap_args (a # rest) (file, flt) =
     (if a = ''--filter'' \<and> rest \<noteq> [] then (case rest of v # rest' \<Rightarrow> pcap_args rest' (file, Some v) | [] \<Rightarrow> (file, flt))
      else if is_flag a then pcap_args rest (file, flt)
      else pcap_args rest (Some a, flt))"

text \<open>Number, bytes captured, bytes on the wire, bytes above the link layer and their offset.\<close>

record pcap_line =
  pl_number :: nat
  pl_caplen :: u32
  pl_len :: u32
  pl_l3_len :: nat
  pl_l3_off :: nat

datatype pcap_report =
    PcapNoFile | PcapOpenFailed string string | PcapBadFilter string string
  | PcapRead string "string option" nat nat "pcap_line list"

definition pcap_line_of :: "i32 \<Rightarrow> nat \<Rightarrow> packet_header \<times> bytes \<Rightarrow> pcap_line" where
  "pcap_line_of dlt n x =
     (let (off, len) = (case strip_link_header dlt (snd x) of Some (off, len, _) \<Rightarrow> (off, len) | None \<Rightarrow> (0, 0))
      in \<lparr>pl_number = n, pl_caplen = hd_caplen (fst x), pl_len = hd_len (fst x), pl_l3_len = len, pl_l3_off = off\<rparr>)"

definition count_packet :: "i32 \<Rightarrow> packet_header \<times> bytes \<Rightarrow> nat \<times> nat \<times> pcap_line list \<Rightarrow> nat \<times> nat \<times> pcap_line list" where
  "count_packet dlt x acc =
     (case acc of (total_n, bytes_n, ls) \<Rightarrow>
        (total_n + 1, bytes_n + unat (hd_caplen (fst x)),
         if total_n + 1 \<le> 10 then ls @ [pcap_line_of dlt (total_n + 1) x] else ls))"

definition cmd_pcap :: "(string \<Rightarrow> string + bytes) \<Rightarrow> string list \<Rightarrow> pcap_report option" where
  "cmd_pcap read_file args =
     (case pcap_args args (None, None) of
        (None, _) \<Rightarrow> Some PcapNoFile
      | (Some file, flt) \<Rightarrow>
          (case (case read_file file of Inl e \<Rightarrow> Inl e | Inr bs \<Rightarrow> open_offline bs) of
             Inl e \<Rightarrow> Some (PcapOpenFailed file e)
           | Inr cap \<Rightarrow>
               (case (case flt of None \<Rightarrow> (Inr (), cap) | Some f \<Rightarrow> set_filter f cap) of
                  (Inl e, _) \<Rightarrow> Some (PcapBadFilter (case flt of Some f \<Rightarrow> f | None \<Rightarrow> []) e)
                | (Inr _, cap') \<Rightarrow>
                    map_option
                      (\<lambda>(xs, _). case fold (count_packet (cap_linktype cap')) xs (0, 0, []) of
                                   (n, b, ls) \<Rightarrow> PcapRead file flt n b ls)
                      (capture_collect cap'))))"

section \<open>Interfaces and routes\<close>

record intf_row =
  ir_name :: string
  ir_addr :: string
  ir_mac :: string
  ir_mtu :: u32
  ir_flags :: "string list"

definition interface_rows :: "intf_entry list \<Rightarrow> intf_row list" where
  "interface_rows ifs =
     map (\<lambda>e. \<lparr>ir_name = intf_name e, ir_addr = addr_show (intf_addr e),
                ir_mac = (case link_addr_slice e of Some m \<Rightarrow> join_with '':'' (map fmt_02x m) | None \<Rightarrow> ''-''),
                ir_mtu = intf_mtu e,
                ir_flags = (if intf_is_up e then [''UP''] else []) @ (if intf_is_loopback e then [''LOOPBACK''] else [])
                  @ (if intf_is_point_to_point e then [''P2P''] else [])\<rparr>) ifs"

definition resolve_ip :: "(string \<Rightarrow> ip_addr list) \<Rightarrow> string \<Rightarrow> ip_addr option" where
  "resolve_ip resolver host =
     (case parse_ipv4 host of
        Some v4 \<Rightarrow> Some (IpV4 v4)
      | None \<Rightarrow>
          (case parse_ipv6 host of
             Some v6 \<Rightarrow> Some (IpV6 v6)
           | None \<Rightarrow> (case resolver host of ip # _ \<Rightarrow> Some ip | [] \<Rightarrow> None)))"

datatype route_report = RouteNoHost | RouteUnresolved string | RouteVia string ip_addr string addr
  | RouteNone string ip_addr

definition cmd_route ::
  "(string \<Rightarrow> ip_addr list) \<Rightarrow> 's os_udp \<Rightarrow> intf_entry list \<Rightarrow> string list \<Rightarrow> route_report" where
  "cmd_route resolver os ifs args =
     (case find (\<lambda>a. \<not> is_flag a) args of
        None \<Rightarrow> RouteNoHost
      | Some host \<Rightarrow>
          (case resolve_ip resolver host of
             None \<Rightarrow> RouteUnresolved host
           | Some ip \<Rightarrow>
               (case route_to os ifs (case ip of IpV4 v4 \<Rightarrow> addr_ipv4 v4 | IpV6 v6 \<Rightarrow> addr_ipv6 v6) of
                  Some (name, src) \<Rightarrow> RouteVia host ip name src
                | None \<Rightarrow> RouteNone host ip)))"

section \<open>The port list\<close>

lemma fold_push_new:
  "set (fold push_new ps out) = set out \<union> set ps"
  "distinct out \<Longrightarrow> distinct (fold push_new ps out)"
  by (induction ps arbitrary: out) (auto simp: push_new_def)

text \<open>First-seen order: the first occurrences of a list.\<close>

fun firsts :: "'a list \<Rightarrow> 'a list" where
  "firsts [] = []"
| "firsts (x # xs) = x # filter (\<lambda>y. y \<noteq> x) (firsts xs)"

lemma fold_push_firsts: "fold push_new ps out = out @ filter (\<lambda>p. p \<notin> set out) (firsts ps)"
proof (induction ps arbitrary: out)
  case (Cons p ps)
  have "filter (\<lambda>q. q \<notin> set (push_new p out)) (firsts ps)
      = filter (\<lambda>q. q \<notin> set out) (filter (\<lambda>q. q \<noteq> p) (firsts ps))"
    by (auto simp: push_new_def intro!: filter_cong)
  moreover have "p \<in> set out \<Longrightarrow> filter (\<lambda>q. q \<notin> set out) (firsts ps)
      = filter (\<lambda>q. q \<notin> set out) (filter (\<lambda>q. q \<noteq> p) (firsts ps))"
    by (auto intro!: filter_cong)
  ultimately show ?case using Cons.IH [of "push_new p out"] by (auto simp: push_new_def)
qed simp

lemma fold_parts: "fold (\<lambda>part out. fold push_new (part_ports part) out) parts out
    = fold push_new (concat (map part_ports parts)) out"
  by (induction parts arbitrary: out) simp_all

lemma parse_ports_firsts: "parse_ports spec = firsts (concat (map part_ports (split_on CHR '','' spec)))"
  unfolding parse_ports_def fold_parts by (simp add: fold_push_firsts)

lemma set_port_range: "a \<le> b \<Longrightarrow> set (port_range a b) = {a..b}"
proof -
  assume ab: "a \<le> b"
  then have m: "max b a = b" by (simp add: max_def)
  have mem: "p \<in> word_of_nat ` {unat a..<Suc (unat b)} \<longleftrightarrow> a \<le> p \<and> p \<le> b" for p :: u16
  proof
    assume "p \<in> word_of_nat ` {unat a..<Suc (unat b)}"
    then obtain n where n: "p = word_of_nat n" "unat a \<le> n" "n \<le> unat b" by auto
    then have "n < 2 ^ LENGTH(16)" using order_le_less_trans [OF n(3) unsigned_less] by simp
    then have "unat p = n" using n(1) by (simp add: unat_of_nat take_bit_nat_eq_self)
    with n show "a \<le> p \<and> p \<le> b" by (simp add: word_le_nat_alt)
  next
    assume "a \<le> p \<and> p \<le> b"
    then have "unat p \<in> {unat a..<Suc (unat b)}" by (simp add: word_le_nat_alt)
    then show "p \<in> word_of_nat ` {unat a..<Suc (unat b)}" by (intro image_eqI [of _ _ "unat p"]) simp_all
  qed
  have "set (port_range a b) = word_of_nat ` {unat a..<Suc (unat b)}"
    by (simp add: port_range_def m del: upt_Suc)
  then show ?thesis by (intro set_eqI) (simp only: mem atLeastAtMost_iff)
qed

text \<open>A port list as its grammar has it: single ports and ranges.\<close>

datatype port_item = Single u16 | Range u16 u16

fun item_text :: "port_item \<Rightarrow> string" where
  "item_text (Single p) = show_radix 10 (unat p)"
| "item_text (Range a b) = show_radix 10 (unat a) @ CHR ''-'' # show_radix 10 (unat b)"

fun item_ports :: "port_item \<Rightarrow> u16 list" where
  "item_ports (Single p) = [p]"
| "item_ports (Range a b) = port_range a b"

lemma part_ports_item: "part_ports (item_text it) = item_ports it"
proof (cases it)
  case (Single p)
  have "CHR ''-'' \<notin> set (show_radix 10 (unat p))" by (rule show_radix_no_dash) simp_all
  with Single show ?thesis by (simp add: part_ports_def parse_u16_show)
next
  case (Range a b)
  have d: "CHR ''-'' \<notin> set (show_radix 10 n)" for n by (rule show_radix_no_dash) simp_all
  have "split_on CHR ''-'' (item_text it) = [show_radix 10 (unat a), show_radix 10 (unat b)]"
    using Range split_on_append [OF d, of "unat a" "show_radix 10 (unat b)"] split_on_none [OF d] by simp
  with Range show ?thesis by (simp add: part_ports_def parse_u16_show)
qed

lemma item_text_no_comma: "CHR '','' \<notin> set (item_text it)"
proof -
  have "CHR '','' \<notin> set (show_radix 10 n)" for n
  proof
    assume "CHR '','' \<in> set (show_radix 10 n)"
    with show_radix_chars [of 10 _ n] obtain d where "d < 10" "CHR '','' = digit_char d" by auto
    with digit_char_no_separator(6) [of d] show False by simp
  qed
  then show ?thesis by (cases it) auto
qed

lemma firsts_spec: "set (firsts xs) = set xs" "distinct (firsts xs)"
  by (induction xs) auto

lemma set_item_ports:
  "set (item_ports it) = (case it of Single p \<Rightarrow> {p} | Range a b \<Rightarrow> if a \<le> b then {a..b} else {a})"
proof (cases it)
  case (Range a b)
  show ?thesis
  proof (cases "a \<le> b")
    case False
    then have "max b a = a" by (simp add: max_def) (metis linear)
    then have "port_range a b = [a]" by (simp add: port_range_def)
    with Range False show ?thesis by simp
  qed (use Range set_port_range in simp)
qed simp

text \<open>C34: A port list never repeats a port. The list printed for single ports and ranges is read back
  as the ports they name, each once, in the order in which they are first named; a range whose end is
  below its start names its start only.\<close>

theorem port_list_meaning:
  "distinct (parse_ports spec) \<and>
   (items \<noteq> [] \<longrightarrow>
      parse_ports (join_with '','' (map item_text items)) = firsts (concat (map item_ports items)) \<and>
      set (parse_ports (join_with '','' (map item_text items)))
        = (\<Union>it \<in> set items. case it of Single p \<Rightarrow> {p} | Range a b \<Rightarrow> if a \<le> b then {a..b} else {a}))"
proof (intro conjI impI)
  show "distinct (parse_ports spec)" by (simp add: parse_ports_firsts firsts_spec)
  assume "items \<noteq> []"
  then have "split_on CHR '','' (join_with '','' (map item_text items)) = map item_text items"
    using item_text_no_comma by (intro split_on_join) auto
  then show eq: "parse_ports (join_with '','' (map item_text items)) = firsts (concat (map item_ports items))"
    by (simp add: parse_ports_firsts part_ports_item comp_def)
  show "set (parse_ports (join_with '','' (map item_text items)))
      = (\<Union>it \<in> set items. case it of Single p \<Rightarrow> {p} | Range a b \<Rightarrow> if a \<le> b then {a..b} else {a})"
    unfolding eq firsts_spec set_concat set_map image_image set_item_ports [symmetric] by simp
qed

theorem port_list_meaning_witness: "parse_ports ''7-5,7,9'' = [7, 9]"
proof -
  have t: "join_with '','' (map item_text [Range 7 5, Single 7, Single 9]) = ''7-5,7,9''"
    by code_simp
  have p: "concat (map item_ports [Range 7 5, Single 7, Single 9]) = [7, 7, 9]"
    by (simp add: port_range_def max_def)
  have "parse_ports (join_with '','' (map item_text [Range 7 5, Single 7, Single 9])) = firsts [7, 7, 9]"
    using port_list_meaning [of "[]" "[Range 7 5, Single 7, Single 9]"] unfolding p by blast
  then show ?thesis unfolding t by simp
qed

text \<open>Malformed parts: a range with an unreadable start counts from 0, one with an unreadable end names
  its start, and an unreadable port is dropped.\<close>

lemma port_list_departures:
  "parse_ports ''abc-3'' = [0, 1, 2, 3]" "parse_ports ''5-x,80'' = [5, 80]" "parse_ports ''http,70000,22'' = [22]"
  by (simp_all add: parse_ports_firsts part_ports_def parse_u16_def from_str_radix_def to_digit_def port_range_def
      upt_rec max_def)

section \<open>The scan\<close>

text \<open>The pool after the requests: one open connect per port, in order.\<close>

lemma connect_tcp_pool:
  "fst (connect_tcp now i t p) = pool_issued p + 1"
  "event_of (snd (connect_tcp now i t p)) =
     (event_of p)(pool_issued p + 1 \<mapsto> new_pending (Some i) EvConnect (Some (now + connect_timeout t)) None 0 False)"
  "pool_issued (snd (connect_tcp now i t p)) = pool_issued p + 1" "pool_log (snd (connect_tcp now i t p)) = pool_log p"
  "pool_rx (snd (connect_tcp now i t p)) = pool_rx p"
  by (simp_all add: connect_tcp_def enqueue_def Let_def)

lemma create_iod_tcp_pool:
  "event_of (snd (create_iod_tcp p)) = event_of p" "pool_issued (snd (create_iod_tcp p)) = pool_issued p"
  "pool_log (snd (create_iod_tcp p)) = pool_log p" "pool_rx (snd (create_iod_tcp p)) = pool_rx p"
  by (simp_all add: create_iod_tcp_def Let_def)

definition scan_step :: "i32 \<Rightarrow> nat \<Rightarrow> pool \<Rightarrow> pool" where
  "scan_step t now p = snd (connect_tcp now (fst (create_iod_tcp p)) t (snd (create_iod_tcp p)))"

lemma scan_step_wf: "pool_wf p \<Longrightarrow> pool_wf (scan_step t now p)"
  using pool_step_then [OF step_descriptors(1) step_requests(1)] unfolding scan_step_def pool_step_def by blast

lemma scan_requests_Cons:
  "scan_requests t ((port, now) # reqs) p =
     (case scan_requests t reqs (scan_step t now p) of (hs, q) \<Rightarrow> ((pool_issued p + 1, port) # hs, q))"
  by (simp add: scan_step_def split_beta Let_def connect_tcp_pool(1) create_iod_tcp_pool(2))

lemma scan_requests_pool:
  assumes "scan_requests t reqs p = (hs, q)" "pool_wf p"
  shows "pool_wf q \<and> pool_log q = pool_log p \<and> pool_rx q = pool_rx p \<and> pool_issued q = pool_issued p + length reqs \<and>
    hs = zip [pool_issued p + 1 ..< pool_issued p + 1 + length reqs] (map fst reqs) \<and>
    open_events q = open_events p \<union> {pool_issued p<..pool_issued p + length reqs}"
  using assms
proof (induction reqs arbitrary: p hs)
  case (Cons r reqs)
  obtain port now where r: "r = (port, now)" by (cases r)
  let ?p = "scan_step t now p"
  obtain hs' where rest: "scan_requests t reqs ?p = (hs', q)" "hs = (pool_issued p + 1, port) # hs'"
    using Cons.prems(1) unfolding r scan_requests_Cons by (auto split: prod.splits)
  note IH = Cons.IH [OF rest(1) scan_step_wf [OF Cons.prems(2)]]
  have p': "pool_log ?p = pool_log p" "pool_rx ?p = pool_rx p" "pool_issued ?p = pool_issued p + 1"
    "event_of ?p = (event_of p)(pool_issued p + 1 \<mapsto>
       new_pending (Some (fst (create_iod_tcp p))) EvConnect (Some (now + connect_timeout t)) None 0 False)"
    by (simp_all add: scan_step_def connect_tcp_pool create_iod_tcp_pool)
  have "open_events ?p = insert (pool_issued p + 1) (open_events p)"
    unfolding open_events_def p'(4) by (auto simp: new_pending_def)
  moreover have "{pool_issued p<..pool_issued p + length (r # reqs)}
      = insert (pool_issued p + 1) {pool_issued ?p<..pool_issued ?p + length reqs}" unfolding p' by auto
  moreover have "[pool_issued p + 1 ..< pool_issued p + 1 + length (r # reqs)]
      = (pool_issued p + 1) # [pool_issued ?p + 1 ..< pool_issued ?p + 1 + length reqs]"
    unfolding p' by (simp add: upt_rec)
  ultimately show ?case using IH rest(2) p' r by auto
qed simp

text \<open>The connects of a scan have the numbers of their descriptors.\<close>

lemma scan_requests_own:
  assumes "scan_requests t reqs p = (hs, q)" "pool_iods_made p = pool_issued p" "own_connects dl p"
    "\<forall>j < length reqs. dl (pool_issued p + 1 + j) = snd (reqs ! j) + connect_timeout t"
  shows "own_connects dl q"
  using assms
proof (induction reqs arbitrary: p hs)
  case (Cons r reqs)
  obtain port now where r: "r = (port, now)" by (cases r)
  let ?p = "scan_step t now p"
  obtain hs' where rest: "scan_requests t reqs ?p = (hs', q)"
    using Cons.prems(1) unfolding r scan_requests_Cons by (auto split: prod.splits)
  have n: "pool_issued ?p = pool_issued p + 1" "pool_iods_made ?p = pool_issued ?p"
    using Cons.prems(2)
    by (simp_all add: scan_step_def connect_tcp_def create_iod_tcp_def enqueue_def put_event_def put_iod_def Let_def)
  have "dl (pool_issued p + 1) = now + connect_timeout t" using Cons.prems(4) r by force
  then have "own_connects dl ?p"
    using Cons.prems(2,3) unfolding own_connects_def
    by (simp add: scan_step_def connect_tcp_pool(2) create_iod_tcp_pool(1,2) new_pending_def)
      (simp add: create_iod_tcp_def Let_def)
  moreover have "\<forall>j < length reqs. dl (pool_issued ?p + 1 + j) = snd (reqs ! j) + connect_timeout t"
    using Cons.prems(4) unfolding n by fastforce
  ultimately show ?case using Cons.IH [OF rest n(2)] by blast
qed simp

lemma map_of_zip_port:
  assumes "0 < k" "k \<le> length ports"
  shows "map_of (zip [1 ..< 1 + length ports] ports) k = Some (ports ! (k - 1))"
proof -
  have "[1 ..< 1 + length ports] ! (k - 1) = k" using assms by (simp del: upt_Suc)
  then show ?thesis
    using map_of_zip_nth [of "[1 ..< 1 + length ports]" ports "k - 1"] assms by (simp del: upt_Suc)
qed

lemma scan_lines_ports:
  "\<forall>k \<in> fst ` set calls. map_of hs k = Some (port k)
     \<Longrightarrow> scan_lines hs calls = map (\<lambda>(k, st). (port k, st = StSuccess)) calls"
  by (induction calls) (auto simp: scan_lines_def)

lemma answers_in_order:
  assumes "distinct ks" "set ks = {0<..n}"
  shows "mset (map f ks) = mset (map (\<lambda>i. f (i + 1)) [0..<n])"
proof -
  let ?js = "[1 ..< Suc n]"
  have "set ks = set ?js" unfolding assms(2) set_upt by auto
  then have "mset ks = mset ?js"
    by (rule set_eq_iff_mset_eq_distinct [OF assms(1) distinct_upt, THEN iffD1])
  then have "mset (map f ks) = mset (map f ?js)" by (simp only: mset_map)
  also have "map f ?js = map (\<lambda>i. f (i + 1)) [0..<n]"
    by (rule nth_equalityI) (simp_all del: upt_Suc)
  finally show ?thesis .
qed

text \<open>The line that a scan is to print for its \<open>i\<close>-th request: the port is open when its connect succeeds.\<close>

definition expected_line :: "nat \<Rightarrow> tick list \<Rightarrow> (u16 \<times> nat) list \<Rightarrow> nat \<Rightarrow> u16 \<times> bool" where
  "expected_line wait ticks reqs i =
     (fst (reqs ! i), connect_verdict (i + 1) (snd (reqs ! i) + wait) ticks = Some StSuccess)"

text \<open>The pool that the requests leave, and the run of the loop on it.\<close>

lemma scan_opened:
  assumes "scan_requests timeout reqs (pool_new 0) = (hs, p)"
  shows "pool_wf p" "pool_log p = []" "pool_rx p = []" "pool_issued p = length reqs" "open_events p = {0<..length reqs}"
    "hs = zip [1 ..< 1 + length reqs] (map fst reqs)"
    "own_connects (\<lambda>k. snd (reqs ! (k - 1)) + connect_timeout timeout) p"
  using scan_requests_pool [OF assms pool_wf_new]
    scan_requests_own [OF assms, of "\<lambda>k. snd (reqs ! (k - 1)) + connect_timeout timeout"]
  by (auto simp: pool_new_def open_events_def own_connects_def)

lemma scan_run:
  assumes "\<forall>t \<in> set ticks. is_order (tk_order t) \<and> CmdQuit \<notin> set (tk_arrived t)"
    and "scan_requests timeout reqs (pool_new 0) = (hs, p)" "pool_run start (-1) ticks p = (Some st, q)"
  shows "st = LoopNoEvents \<and> distinct (map fst (pool_log q)) \<and> set (map fst (pool_log q)) = {0<..length reqs} \<and>
    (\<forall>i < length reqs. \<exists>v. connect_verdict (i + 1) (snd (reqs ! i) + connect_timeout timeout) ticks = Some v \<and>
       (i + 1, v) \<in> set (pool_log q))"
proof -
  note p = scan_opened [OF assms(2)]
  define dl where "dl = (\<lambda>k. snd (reqs ! (k - 1)) + connect_timeout timeout)"
  have own: "own_connects dl p" using p(7) by (simp add: dl_def)
  let ?p = "p\<lparr>pool_quit := False\<rparr>"
  have wf: "pool_wf ?p" using pool_step_same [of ?p p] p(1) by (simp add: pool_step_def)
  have loop: "run_loop start None ticks ?p = (Some st, q)" using assms(3) by (simp add: pool_run_def)
  have st: "st = LoopNoEvents" using run_loop_no_events [OF wf assms(1), of start st] p(3) loop by simp
  have q: "q = snd (pool_run start (-1) ticks p)" "open_events q = {}"
    using pool_run_no_events [OF p(1), of start "-1" ticks] assms(3) st by simp_all
  have "ledger_step {} (pool_view p) (pool_view q)"
    using step_pool_run [of p start "-1" ticks] p(1) q(1) by (simp add: pool_step_def)
  then have log: "distinct (map fst (pool_log q))" "set (map fst (pool_log q)) = {0<..length reqs}"
    using q p(2,4,5) run_issued [of start "-1" ticks p] unfolding ledger_step_def by auto
  have "\<exists>v. connect_verdict (i + 1) (dl (i + 1)) ticks = Some v \<and> (i + 1, v) \<in> set (pool_log q)" if "i < length reqs" for i
  proof -
    have "i + 1 \<in> open_events p" using that p(5) by simp
    then have "event_of ?p (i + 1) \<noteq> None" by (auto simp: open_events_def)
    moreover have "own_connects dl ?p" using own by (simp add: own_connects_def)
    ultimately show ?thesis using run_verdict [OF assms(1) _ wf, of dl "i + 1" start] loop p(3) by simp
  qed
  with st log show ?thesis by (simp add: dl_def)
qed

text \<open>A connect scan of any list of ports, over any arrivals of results and any iteration order:
  once the loop has returned it has no events left, every requested port has been reported exactly once,
  as open when the connect to it succeeded in time and else as closed, and the counts of open and closed
  ports add up to the number of ports. The loop does return: at the latest in the first turn after every
  connect's deadline.\<close>

lemma scan_reports_every_port:
  fixes timeout reqs start ticks
  defines "r \<equiv> run_scan timeout reqs start ticks"
  assumes "\<forall>t \<in> set ticks. is_order (tk_order t) \<and> CmdQuit \<notin> set (tk_arrived t)"
  shows "(sr_status r \<noteq> None \<longrightarrow> sr_status r = Some LoopNoEvents \<and> sr_open r + sr_closed r = length reqs \<and>
      mset (sr_lines r) = mset (map (expected_line (connect_timeout timeout) ticks reqs) [0..<length reqs])) \<and>
    ((\<exists>t \<in> set ticks. \<forall>r \<in> set reqs. snd r + connect_timeout timeout \<le> tk_now t) \<longrightarrow> sr_status r \<noteq> None)"
proof -
  obtain hs p where sc: "scan_requests timeout reqs (pool_new 0) = (hs, p)" by fastforce
  obtain s q where run: "pool_run start (-1) ticks p = (s, q)" by fastforce
  note p = scan_opened [OF sc]
  have rep: "sr_status r = s" "sr_lines r = scan_lines hs (pool_log q)"
    "sr_open r = length (filter snd (sr_lines r))" "sr_closed r = length (filter (\<lambda>l. \<not> snd l) (sr_lines r))"
    by (simp_all add: r_def run_scan_def sc run Let_def)
  have "s = Some LoopNoEvents \<and> length (sr_lines r) = length reqs \<and>
      mset (sr_lines r) = mset (map (expected_line (connect_timeout timeout) ticks reqs) [0..<length reqs])" if "s \<noteq> None"
  proof -
    from that obtain st where s: "s = Some st" by blast
    note sr = scan_run [OF assms(2) sc run [unfolded s]]
    define line where "line = (\<lambda>k. expected_line (connect_timeout timeout) ticks reqs (k - 1))"
    have "map_of hs k = Some (map fst reqs ! (k - 1))" if "k \<in> fst ` set (pool_log q)" for k
      using map_of_zip_port [of k "map fst reqs"] that sr unfolding p(6) by auto
    then have "sr_lines r = map (\<lambda>(k, st). (map fst reqs ! (k - 1), st = StSuccess)) (pool_log q)"
      unfolding rep(2) by (intro scan_lines_ports) blast
    also have "\<dots> = map (line \<circ> fst) (pool_log q)"
    proof (rule map_cong [OF refl])
      fix e assume e: "e \<in> set (pool_log q)"
      obtain k st where kst: "e = (k, st)" by (cases e)
      have "k \<in> set (map fst (pool_log q))" using e kst by force
      then have "0 < k" "k - 1 < length reqs" using sr by auto
      from sr \<open>k - 1 < length reqs\<close> have "\<exists>v. connect_verdict (k - 1 + 1) (snd (reqs ! (k - 1)) + connect_timeout timeout) ticks = Some v \<and>
          (k - 1 + 1, v) \<in> set (pool_log q)" by blast
      then obtain v where v: "connect_verdict k (snd (reqs ! (k - 1)) + connect_timeout timeout) ticks = Some v"
        "(k, v) \<in> set (pool_log q)" using \<open>0 < k\<close> by auto
      have "v = st" by (rule eq_key_imp_eq_value [OF conjunct1 [OF conjunct2 [OF sr]] v(2) e [unfolded kst]])
      with v(1) \<open>0 < k\<close> \<open>k - 1 < length reqs\<close>
      show "(case e of (k, st) \<Rightarrow> (map fst reqs ! (k - 1), st = StSuccess)) = (line \<circ> fst) e"
        by (simp add: kst line_def expected_line_def)
    qed
    finally have "mset (sr_lines r) = mset (map line (map fst (pool_log q)))" by simp
    also have "\<dots> = mset (map (\<lambda>i. line (i + 1)) [0..<length reqs])" using sr by (intro answers_in_order) blast+
    finally have ms: "mset (sr_lines r) = mset (map (expected_line (connect_timeout timeout) ticks reqs) [0..<length reqs])"
      by (simp add: line_def)
    from mset_eq_length [OF this] have "length (sr_lines r) = length reqs" by simp
    with ms sr s show ?thesis by blast
  qed
  moreover have "sr_open r + sr_closed r = length (sr_lines r)" unfolding rep(3,4) by (rule sum_length_filter_compl)
  moreover have "s \<noteq> None" if "\<exists>t \<in> set ticks. \<forall>r \<in> set reqs. snd r + connect_timeout timeout \<le> tk_now t"
  proof -
    from that obtain t where t: "t \<in> set ticks" "\<And>r. r \<in> set reqs \<Longrightarrow> snd r + connect_timeout timeout \<le> tk_now t" by blast
    have "\<exists>d. pe_deadline e = Some d \<and> d \<le> tk_now t" if e: "event_of p k = Some e" for k e
    proof -
      note own = own_connectsD [OF p(7) e]
      then have "k \<in> open_events p" using e by (auto simp: open_events_def)
      then have "k - 1 < length reqs" using p(5) by auto
      then show ?thesis using own(3) t(2) by simp
    qed
    then have "fst (pool_run start (-1) ticks p) \<noteq> None"
      using assms(2) t(1) by (intro run_deadlines_return [OF p(1)]) blast+
    then show ?thesis by (simp add: run)
  qed
  ultimately show ?thesis unfolding rep(1) by auto
qed

text \<open>Two ports, one stream that connects, one connect that runs out of time.\<close>

lemma scan_reports_every_port_witness:
  "sr_status (run_scan 100 [(80, 0), (443, 1)] 2
     [\<lparr>tk_arrived = [ConnectResult 1 (Some idle_sock)],
       tk_order = (\<lambda>ks. ks), tk_now = 3, tk_end = 4\<rparr>, demo_tick 200]) = Some LoopNoEvents"
proof -
  let ?ticks = "[\<lparr>tk_arrived = [ConnectResult 1 (Some idle_sock)],
       tk_order = (\<lambda>ks. ks), tk_now = 3, tk_end = 4\<rparr>, demo_tick 200]"
  have ok: "\<forall>t \<in> set ?ticks. is_order (tk_order t) \<and> CmdQuit \<notin> set (tk_arrived t)"
    by (simp add: demo_tick_def is_order_id)
  have "\<exists>t \<in> set ?ticks. \<forall>r \<in> set [(80 :: u16, 0), (443, 1)]. snd r + connect_timeout 100 \<le> tk_now t"
    by (simp add: demo_tick_def connect_timeout_def)
  with scan_reports_every_port [OF ok, where timeout = 100 and reqs = "[(80, 0), (443, 1)]" and start = 2] show ?thesis by blast
qed

section \<open>The report on a capture file\<close>

lemma count_packets:
  "fold (count_packet dlt) xs (n, b, ls) =
     (n + length xs, b + sum_list (map (\<lambda>x. unat (hd_caplen (fst x))) xs),
      ls @ map2 (pcap_line_of dlt) [n + 1 ..< n + 1 + length xs] (take (10 - n) xs))"
proof (induction xs arbitrary: n b ls)
  case (Cons x xs)
  have upt: "[n + 1 ..< n + 1 + length (x # xs)] = (n + 1) # [n + 1 + 1 ..< n + 1 + 1 + length xs]"
    by (simp add: upt_rec)
  have tk: "take (10 - n) (x # xs) = (if n + 1 \<le> 10 then x # take (10 - (n + 1)) xs else [])"
  proof (cases "n \<le> 9")
    case True
    then have "10 - n = Suc (9 - n)" by simp
    with True show ?thesis by simp
  qed simp
  show ?case
    unfolding fold_simps comp_apply count_packet_def [of dlt x] prod.case Cons.IH upt tk by simp
qed simp

text \<open>What the report on a capture file says: the file named last on the command line is read
  under the filter, the count is that of the packets the filter accepts, the bytes are their captured
  bytes, and the first ten of them are listed, numbered from one. An error that ends the reading early
  (a cut-off or corrupt record) leaves no trace in the report.\<close>

lemma pcap_report_counts:
  assumes "pcap_args args (None, None) = (Some file, flt)" "read_file file = Inr bs" "open_offline bs = Inr cap"
    "case flt of None \<Rightarrow> cap' = cap | Some f \<Rightarrow> set_filter f cap = (Inr (), cap')"
    "kind_packets (cap_kind cap) = (ps, err, k)" "\<forall>p \<in> set ps. length (pk_data p) < 2 ^ 32"
  shows "let qs = map packet_view (filter (cap_accepts (cap_filter cap')) ps) in
    cmd_pcap read_file args = Some (PcapRead file flt (length qs) (sum_list (map (\<lambda>x. unat (hd_caplen (fst x))) qs))
      (map2 (pcap_line_of (cap_linktype cap)) [1 ..< 1 + length qs] (take 10 qs)))"
proof -
  have cap: "cap_kind cap' = cap_kind cap" "cap_linktype cap' = cap_linktype cap"
    "\<And>prog. cap_filter cap' = Some prog \<Longrightarrow> \<exists>f. filter_compile f (cap_linktype cap) = Inr prog"
  proof -
    have "cap_filter cap = None" using assms(3) by (auto simp: open_offline_def split: sum.splits)
    then show "cap_kind cap' = cap_kind cap" "cap_linktype cap' = cap_linktype cap"
      "\<And>prog. cap_filter cap' = Some prog \<Longrightarrow> \<exists>f. filter_compile f (cap_linktype cap) = Inr prog"
      using assms(4) by (auto simp: set_filter_def split: option.splits sum.splits)
  qed
  have "\<forall>p \<in> set ps. filter_decides (cap_filter cap') p"
  proof
    fix p assume p: "p \<in> set ps"
    show "filter_decides (cap_filter cap') p"
    proof (cases "cap_filter cap'")
      case (Some prog)
      with cap(3) obtain f where "filter_compile f (cap_linktype cap) = Inr prog" by blast
      with compiled_filter_decides [OF this] p assms(6) Some show ?thesis by simp
    qed (simp add: filter_decides_def)
  qed
  then have "capture_collect cap' = Some (map packet_view (filter (cap_accepts (cap_filter cap')) ps), err, cap'\<lparr>cap_kind := k\<rparr>)"
    using capture_collect_filters [of cap' ps err k] assms(5) cap(1) by simp
  moreover have "(case flt of None \<Rightarrow> (Inr (), cap) | Some f \<Rightarrow> set_filter f cap) = (Inr (), cap')"
    using assms(4) by (cases flt) simp_all
  ultimately show ?thesis
    using assms(1-3) cap(2) by (simp add: cmd_pcap_def count_packets Let_def del: upt_Suc)
qed

text \<open>A file of one frame with a 14-byte header and two bytes above it, without a filter.\<close>

lemma pcap_report_counts_witness:
  "cmd_pcap (\<lambda>_. Inr (sw_out (write_all_packets 64 1 [(1, 0, replicate 16 0)]))) [''a.pcap''] =
     Some (PcapRead ''a.pcap'' None 1 16 [\<lparr>pl_number = 1, pl_caplen = 16, pl_len = 16, pl_l3_len = 2, pl_l3_off = 14\<rparr>])"
proof -
  let ?bs = "sw_out (write_all_packets 64 1 [(1, 0, replicate 16 0)])"
  obtain c where c: "open_offline ?bs = Inr c" "cap_linktype c = 1" "cap_filter c = None"
    "cap_kind c = Offline \<lparr>sr_header = pcap_file_header_new 64 1,
       sr_rest = concat (map (record_image False) (map (stored_packet 64) [(1, 0, replicate 16 0)]))\<rparr>"
    by (simp add: open_offline_written)
  have args: "pcap_args [''a.pcap''] (None, None) = (Some ''a.pcap'', None)" by (simp add: is_flag_def)
  have k: "kind_packets (cap_kind c) = (map (stored_packet 64) [(1, 0, replicate 16 0)], None,
      Offline \<lparr>sr_header = pcap_file_header_new 64 1, sr_rest = []\<rparr>)"
    using kind_packets_offline [OF written_reads(2) [of 64 1 "[(1, 0, replicate 16 0)]"]] unfolding c(4) by simp
  have "\<forall>p \<in> set (map (stored_packet 64) [(1, 0, replicate 16 0)]). length (pk_data p) < 2 ^ 32"
    using stored_packet_length by auto
  from pcap_report_counts [OF args _ c(1) _ k this, of "\<lambda>_. Inr ?bs" c]
  show ?thesis
    using c(2,3) by (simp add: cap_accepts_def packet_view_def stored_packet_def pcap_line_of_def strip_link_header_def
        link_header_len_def DLT_EN10MB_def Let_def)
qed

text \<open>The command on a capture file always returns: every filter that compiles decides every packet of a file.\<close>

lemma cmd_pcap_returns: "cmd_pcap read_file args \<noteq> None"
proof
  assume none: "cmd_pcap read_file args = None"
  obtain f flt where pa: "pcap_args args (None, None) = (f, flt)" by (cases "pcap_args args (None, None)")
  with none obtain path bs cap where c: "f = Some path" "read_file path = Inr bs" "open_offline bs = Inr cap"
    by (auto simp: cmd_pcap_def split: option.splits sum.splits)
  obtain ps err k where k: "kind_packets (cap_kind cap) = (ps, err, k)" by (cases "kind_packets (cap_kind cap)")
  note report = pcap_report_counts [OF pa [unfolded c(1)], where read_file = read_file, OF c(2,3) _ k opened_packets_small [OF c(3) k]]
  show False
  proof (cases flt)
    case None
    with report [of cap] none show False by (simp add: Let_def)
  next
    case (Some e)
    then obtain cap' where "set_filter e cap = (Inr (), cap')"
      using none pa c by (cases "filter_compile e (cap_linktype cap)") (auto simp: cmd_pcap_def set_filter_def)
    with report [of cap'] none Some show False by (simp add: Let_def)
  qed
qed

end
