(* ===== verification/Wnr_Main.thy ===== *)
theory Wnr_Main
  imports Wnr_Cli Rust_Unicode
begin

text \<open>
  The rest of \<open>wnr/src/main.rs\<close>: what the program prints. \<open>main\<close> dispatches on the arguments and each
  command prints its findings (see Wnr\_Cli); the result is the sequence of writes to the two streams.
  The record \<open>world\<close> holds what the program reads of its surroundings: the package version, the
  interfaces, the resolver, the UDP sockets, the files, and for a scan the clock and the turns of the event
  loop. Elapsed times and the packet rate, which are readings of the clock, are given as printed.
\<close>

section \<open>Formatting\<close>

datatype stream = Stdout | Stderr

type_synonym writes = "(stream \<times> string) list"

abbreviation NL :: string where "NL \<equiv> [CHR 0x0A]"

definition println :: "string \<Rightarrow> writes" where
  "println s = [(Stdout, s @ NL)]"

definition eprintln :: "string \<Rightarrow> writes" where
  "eprintln s = [(Stderr, s @ NL)]"

definition text_on :: "stream \<Rightarrow> writes \<Rightarrow> string" where
  "text_on f out = concat (map snd (filter (\<lambda>w. fst w = f) out))"

text \<open>\<open>{:<w}\<close> and \<open>{:>w}\<close> pad by the number of characters of the UTF-8 text.\<close>

definition char_count :: "string \<Rightarrow> nat" where
  "char_count s = length (filter (\<lambda>c. \<not> is_cont (of_char c)) s)"

definition pad_end :: "nat \<Rightarrow> string \<Rightarrow> string" where
  "pad_end w s = s @ replicate (w - char_count s) (CHR '' '')"

definition pad_start :: "nat \<Rightarrow> string \<Rightarrow> string" where
  "pad_start w s = replicate (w - char_count s) (CHR '' '') @ s"

definition in_quotes :: "string \<Rightarrow> string" where
  "in_quotes s = CHR 0x27 # s @ [CHR 0x27]"

definition show_nat :: "nat \<Rightarrow> string" where
  "show_nat n = show_radix 10 n"

definition show_i32 :: "i32 \<Rightarrow> string" where
  "show_i32 t = (if sint t < 0 then CHR ''-'' # show_nat (nat (- sint t)) else show_nat (nat (sint t)))"

fun show_ip :: "ip_addr \<Rightarrow> string" where
  "show_ip (IpV4 ip) = show_ipv4 ip"
| "show_ip (IpV6 ip) = show_ipv6 ip"

section \<open>Messages\<close>

definition print_version :: "string \<Rightarrow> writes" where
  "print_version v = println (''WNR (We Nmap in Rust) '' @ v)"

definition print_usage :: "string \<Rightarrow> writes" where
  "print_usage v = println
     (''WNR (We Nmap in Rust) '' @ v @ NL @ NL @
      ''USAGE:'' @ NL @
      ''  wnr --interfaces                 enumerate network interfaces'' @ NL @
      ''  wnr --scan <host> [-p PORT[,RANGE]...] [--timeout MS]'' @ NL @
      ''  wnr --pcap <file> [--filter EXPR]'' @ NL @
      ''  wnr --route <host>               show the route/next-hop to a host'' @ NL @
      ''  wnr --version'' @ NL)"

text \<open>The width given for the address has no effect: the \<open>Display\<close> of \<open>Addr\<close> writes with \<open>write!\<close>,
  which starts from a fresh format.\<close>

definition interface_line :: "intf_row \<Rightarrow> string" where
  "interface_line r = pad_end 16 (ir_name r) @ '' '' @ ir_addr r @ '' '' @ pad_end 9 (ir_mac r) @ '' ''
     @ pad_end 6 (show_nat (unat (ir_mtu r))) @ '' '' @ join_with '','' (ir_flags r)"

definition interface_header :: string where
  "interface_header = pad_end 16 ''INTERFACE'' @ '' '' @ pad_end 18 ''ADDRESS'' @ '' '' @ pad_end 9 ''MAC'' @ '' ''
     @ pad_end 6 ''MTU'' @ '' '' @ ''FLAGS''"

definition print_interfaces :: "intf_entry list \<Rightarrow> writes" where
  "print_interfaces ifs =
     (if ifs = [] then println ''No network interfaces could be enumerated.''
      else println interface_header @ concat (map (\<lambda>r. println (interface_line r)) (interface_rows ifs)))"

definition scan_line :: "u16 \<times> bool \<Rightarrow> string" where
  "scan_line l = pad_start 5 (show_nat (unat (fst l))) @ (if snd l then ''/tcp open'' else ''/tcp closed'')"

definition scan_header :: "string \<Rightarrow> nat \<Rightarrow> i32 \<Rightarrow> string" where
  "scan_header host n timeout = ''WNR connect-scan of '' @ host @ '' ('' @ show_nat n @ '' port(s), timeout ''
     @ show_i32 timeout @ ''ms)''"

text \<open>The counters are atomic \<open>u32\<close>; their sum is a \<open>u32\<close> as well.\<close>

definition scan_summary :: "string \<Rightarrow> nat \<Rightarrow> u32 \<Rightarrow> u32 \<Rightarrow> string \<Rightarrow> string" where
  "scan_summary host n open_n closed_n elapsed =
     ''WNR done: '' @ host @ '' host(s) scanned ('' @ show_nat (unat (open_n + closed_n)) @ ''/'' @ show_nat n
     @ '' port(s) responded: '' @ show_nat (unat open_n) @ '' open, '' @ show_nat (unat closed_n)
     @ '' closed) in '' @ elapsed"

definition pcap_text :: "pcap_line \<Rightarrow> string" where
  "pcap_text l = ''pkt #'' @ show_nat (pl_number l) @ '': '' @ show_nat (unat (pl_caplen l)) @ '' bytes captured (''
     @ show_nat (unat (pl_len l)) @ '' on wire), '' @ show_nat (pl_l3_len l) @ '' l3 bytes at off ''
     @ show_nat (pl_l3_off l)"

fun print_pcap :: "string \<Rightarrow> nat \<Rightarrow> pcap_report \<Rightarrow> writes" where
  "print_pcap elapsed rate PcapNoFile = eprintln ''no pcap file specified''"
| "print_pcap elapsed rate (PcapOpenFailed file e) = eprintln (''failed to open '' @ in_quotes file @ '': '' @ e)"
| "print_pcap elapsed rate (PcapBadFilter f e) = eprintln (''invalid filter '' @ in_quotes f @ '': '' @ e)"
| "print_pcap elapsed rate (PcapRead file flt n b ls) =
     concat (map (\<lambda>l. println (pcap_text l)) ls)
     @ println (''read '' @ show_nat n @ '' packets ('' @ show_nat b @ '' bytes) from '' @ in_quotes file @ '' in ''
                @ elapsed @ '' ('' @ show_nat rate @ '' pkts/sec)'')
     @ (case flt of Some f \<Rightarrow> println (''filter applied: '' @ in_quotes f) | None \<Rightarrow> [])"

fun print_route :: "route_report \<Rightarrow> writes" where
  "print_route RouteNoHost = eprintln ''no host specified''"
| "print_route (RouteUnresolved host) = eprintln (''could not resolve host '' @ in_quotes host)"
| "print_route (RouteVia host ip name src) =
     println (''route to '' @ host @ '' ('' @ show_ip ip @ '') -> via interface '' @ in_quotes name
              @ '' with source '' @ addr_show src)"
| "print_route (RouteNone host ip) = println (''no route to '' @ host @ '' ('' @ show_ip ip @ '')'')"

section \<open>The program\<close>

record 's world =
  w_version :: string
  w_interfaces :: "intf_entry list"
  w_resolver :: "string \<Rightarrow> ip_addr list"
  w_udp :: "'s os_udp"
  w_files :: "string \<Rightarrow> string + bytes"
  w_request_time :: "nat \<Rightarrow> nat"
  w_start :: nat
  w_ticks :: "tick list"
  w_elapsed :: string
  w_rate :: nat

text \<open>\<open>None\<close> when the scan has not returned by the end of the turns.\<close>

definition cmd_scan :: "'s world \<Rightarrow> string list \<Rightarrow> writes option" where
  "cmd_scan w args =
     (case plan_scan (w_resolver w) args of
        ScanNoHost \<Rightarrow> Some (eprintln ''no host specified'')
      | ScanUnresolved host \<Rightarrow> Some (eprintln (''could not resolve host '' @ in_quotes host))
      | ScanOf host ip ports timeout \<Rightarrow>
          (let r = run_scan timeout (zip ports (map (w_request_time w) [0..<length ports])) (w_start w) (w_ticks w)
           in if sr_status r = None then None
              else Some (println (scan_header host (length ports) timeout)
                     @ concat (map (\<lambda>l. println (scan_line l)) (sr_lines r))
                     @ println (scan_summary host (length ports) (of_nat (sr_open r)) (of_nat (sr_closed r))
                                  (w_elapsed w)))))"

definition wnr_main :: "'s world \<Rightarrow> string list \<Rightarrow> writes option" where
  "wnr_main w args =
     (case dispatch args of
        CmdUsage \<Rightarrow> Some (print_usage (w_version w))
      | CmdInterfaces \<Rightarrow> Some (print_interfaces (w_interfaces w))
      | CmdScan rest \<Rightarrow> cmd_scan w rest
      | CmdPcap rest \<Rightarrow> map_option (print_pcap (w_elapsed w) (w_rate w)) (cmd_pcap (w_files w) rest)
      | CmdRoute rest \<Rightarrow> Some (print_route (cmd_route (w_resolver w) (w_udp w) (w_interfaces w) rest))
      | CmdVersion \<Rightarrow> Some (print_version (w_version w))
      | CmdUnknown c \<Rightarrow> Some (eprintln (''unknown command '' @ in_quotes c) @ print_usage (w_version w)))"

lemma text_on_simps [simp]:
  "text_on f [] = []" "text_on f (a @ b) = text_on f a @ text_on f b"
  "text_on Stdout (println s) = s @ NL" "text_on Stderr (println s) = []"
  "text_on Stdout (eprintln s) = []" "text_on Stderr (eprintln s) = s @ NL"
  by (simp_all add: text_on_def println_def eprintln_def)

lemma text_on_lines [simp]:
  "text_on Stderr (concat (map (\<lambda>x. println (g x)) xs)) = []"
  "text_on Stdout (concat (map (\<lambda>x. println (g x)) xs)) = concat (map (\<lambda>x. g x @ NL) xs)"
  by (induction xs) simp_all

text \<open>A world without interfaces or network, whose resolver knows one host and which has one file.\<close>

definition sample_world :: "tick list \<Rightarrow> bytes \<Rightarrow> unit world" where
  "sample_world ticks bs =
     \<lparr>w_version = ''0.1.0'', w_interfaces = [], w_resolver = (\<lambda>h. if h = ''alpha'' then [IpV4 (Ipv4Addr 192 0 2 1)] else []),
      w_udp = \<lparr>udp_bind = (\<lambda>_. None), udp_connect = (\<lambda>_ _. None), udp_local_addr = (\<lambda>_. None)\<rparr>,
      w_files = (\<lambda>_. Inr bs), w_request_time = (\<lambda>i. i), w_start = 2, w_ticks = ticks, w_elapsed = ''1ms'', w_rate = 9\<rparr>"

section \<open>What a scan prints\<close>

lemma summary_counts:
  assumes "k + c = n" "n < 2 ^ 32"
  shows "scan_summary host n (of_nat k) (of_nat c) el
      = ''WNR done: '' @ host @ '' host(s) scanned ('' @ show_nat n @ ''/'' @ show_nat n @ '' port(s) responded: ''
          @ show_nat k @ '' open, '' @ show_nat (n - k) @ '' closed) in '' @ el"
proof -
  have small: "unat (of_nat m :: u32) = m" if "m \<le> n" for m
    using that assms(2) by (simp add: unat_of_nat take_bit_nat_eq_self)
  have "k \<le> n" "c \<le> n" "n - k = c" using assms(1) by auto
  moreover have "(of_nat k + of_nat c :: u32) = of_nat n" by (simp only: assms(1) flip: of_nat_add)
  ultimately show ?thesis unfolding scan_summary_def by (simp only: small order_refl)
qed

text \<open>C5: A scan named on the command line, over any arrivals of results and any iteration order, with
  some turn of the event loop after the deadlines of all connects: the program returns; it prints the
  header, exactly one line for every requested port, and a summary whose numbers agree with the lines.
  The line of a port says open when the first result for its connect is a success that arrives by the
  turn in which its deadline has passed, and closed when it is an error or there is none in time.\<close>
theorem scan_prints_every_port:
  assumes "dispatch args = CmdScan rest" "plan_scan (w_resolver w) rest = ScanOf host ip ports timeout"
    and "\<forall>t \<in> set (w_ticks w). is_order (tk_order t) \<and> CmdQuit \<notin> set (tk_arrived t)"
    and "\<exists>t \<in> set (w_ticks w). \<forall>i < length ports. w_request_time w i + connect_timeout timeout \<le> tk_now t"
    and "length ports < 2 ^ 32"
  shows "\<exists>ls. wnr_main w args = Some (println (scan_header host (length ports) timeout)
        @ concat (map (\<lambda>l. println (scan_line l)) ls)
        @ println (''WNR done: '' @ host @ '' host(s) scanned ('' @ show_nat (length ports) @ ''/'' @ show_nat (length ports)
            @ '' port(s) responded: '' @ show_nat (length (filter snd ls)) @ '' open, ''
            @ show_nat (length ports - length (filter snd ls)) @ '' closed) in '' @ w_elapsed w))
      \<and> mset ls = mset (map (\<lambda>i. (ports ! i,
            connect_verdict (i + 1) (w_request_time w i + connect_timeout timeout) (w_ticks w) = Some StSuccess))
          [0..<length ports])"
proof -
  let ?reqs = "zip ports (map (w_request_time w) [0..<length ports])"
  let ?r = "run_scan timeout ?reqs (w_start w) (w_ticks w)"
  have len: "length ?reqs = length ports" by simp_all
  have late: "\<exists>t \<in> set (w_ticks w). \<forall>r \<in> set ?reqs. snd r + connect_timeout timeout \<le> tk_now t"
    using assms(4) by (fastforce simp: set_zip)
  note scan = scan_reports_every_port [OF assms(3), where timeout = timeout and reqs = ?reqs and start = "w_start w",
      unfolded len]
  from scan late have st: "sr_status ?r \<noteq> None" by blast
  have "map (expected_line (connect_timeout timeout) (w_ticks w) ?reqs) [0..<length ports] = map (\<lambda>i. (ports ! i,
      connect_verdict (i + 1) (w_request_time w i + connect_timeout timeout) (w_ticks w) = Some StSuccess))
    [0..<length ports]" by (simp add: expected_line_def)
  with scan st have ports: "mset (sr_lines ?r) = mset (map (\<lambda>i. (ports ! i,
      connect_verdict (i + 1) (w_request_time w i + connect_timeout timeout) (w_ticks w) = Some StSuccess))
    [0..<length ports])" "sr_open ?r + sr_closed ?r = length ports" by metis+
  have "sr_open ?r = length (filter snd (sr_lines ?r))" by (simp add: run_scan_def Let_def split_beta)
  with summary_counts [OF ports(2) assms(5)]
  have "scan_summary host (length ports) (of_nat (sr_open ?r)) (of_nat (sr_closed ?r)) (w_elapsed w)
      = ''WNR done: '' @ host @ '' host(s) scanned ('' @ show_nat (length ports) @ ''/'' @ show_nat (length ports)
            @ '' port(s) responded: '' @ show_nat (length (filter snd (sr_lines ?r))) @ '' open, ''
            @ show_nat (length ports - length (filter snd (sr_lines ?r))) @ '' closed) in '' @ w_elapsed w"
    by simp
  with st have "wnr_main w args = Some (println (scan_header host (length ports) timeout)
        @ concat (map (\<lambda>l. println (scan_line l)) (sr_lines ?r))
        @ println (''WNR done: '' @ host @ '' host(s) scanned ('' @ show_nat (length ports) @ ''/'' @ show_nat (length ports)
            @ '' port(s) responded: '' @ show_nat (length (filter snd (sr_lines ?r))) @ '' open, ''
            @ show_nat (length ports - length (filter snd (sr_lines ?r))) @ '' closed) in '' @ w_elapsed w))"
    using assms(1,2) by (simp add: wnr_main_def cmd_scan_def Let_def del: append.simps)
  with ports(1) show ?thesis by blast
qed

theorem scan_prints_every_port_witness:
  "\<exists>header ls summary. wnr_main (sample_world [\<lparr>tk_arrived = [ConnectResult 1 (Some idle_sock)], tk_order = (\<lambda>ks. ks),
        tk_now = 3, tk_end = 4\<rparr>, demo_tick 200] [])
      [''wnr'', ''--scan'', ''alpha'', ''-p'', ''80,443'', ''--timeout'', ''100'']
      = Some (header @ concat (map (\<lambda>l. println (scan_line l)) ls) @ summary)
    \<and> mset ls = {#(80 :: u16, True), (443, False)#}"
proof -
  let ?w = "sample_world [\<lparr>tk_arrived = [ConnectResult 1 (Some idle_sock)], tk_order = (\<lambda>ks. ks),
        tk_now = 3, tk_end = 4\<rparr>, demo_tick 200] []"
  let ?args = "[''wnr'', ''--scan'', ''alpha'', ''-p'', ''80,443'', ''--timeout'', ''100'']"
  have d: "dispatch ?args = CmdScan [''alpha'', ''-p'', ''80,443'', ''--timeout'', ''100'']"
    by (simp add: dispatch_def)
  have "parse_ports ''80,443'' = [80, 443]" "parse_i32 ''100'' = Some 100"
    by (simp_all add: parse_ports_firsts part_ports_def parse_u16_def parse_i32_def from_str_radix_def to_digit_def)
  then have p: "plan_scan (w_resolver ?w) [''alpha'', ''-p'', ''80,443'', ''--timeout'', ''100'']
      = ScanOf ''alpha'' (IpV4 (Ipv4Addr 192 0 2 1)) [80, 443] 100"
    by (simp add: plan_scan_def sample_world_def is_flag_def)
  have orders: "\<forall>t \<in> set (w_ticks ?w). is_order (tk_order t) \<and> CmdQuit \<notin> set (tk_arrived t)"
    by (simp add: sample_world_def demo_tick_def is_order_id)
  have "\<exists>t \<in> set (w_ticks ?w). \<forall>i < length [80 :: u16, 443]. w_request_time ?w i + connect_timeout 100 \<le> tk_now t"
    by (simp add: sample_world_def demo_tick_def connect_timeout_def)
  note concl = scan_prints_every_port [OF d p orders this]
  have exp: "map (\<lambda>i. ([80 :: u16, 443] ! i, connect_verdict (i + 1) (w_request_time ?w i + connect_timeout 100) (w_ticks ?w)
      = Some StSuccess)) [0..<length [80 :: u16, 443]] = [(80, True), (443, False)]"
    by (simp add: sample_world_def demo_tick_def connect_timeout_def upt_rec)
  show ?thesis using concl unfolding exp by fastforce
qed

section \<open>Results and diagnostics\<close>

text \<open>The command line read afresh: the operands are the arguments that neither start with a dash nor are the
  value of an option; \<open>valued\<close> says which options take one. The values given to an option, in order.\<close>

fun operands :: "string set \<Rightarrow> string list \<Rightarrow> string list" where
  "operands valued [] = []"
| "operands valued (a # rest) =
     (if a \<in> valued then operands valued (drop 1 rest)
      else if is_flag a then operands valued rest else a # operands valued rest)"

fun option_values :: "string \<Rightarrow> string list \<Rightarrow> string list" where
  "option_values opt (a # v # rest) = (if a = opt then v # option_values opt rest else option_values opt (v # rest))"
| "option_values opt _ = []"

text \<open>What is wrong with a command line, if anything: the host of a scan and the capture file are the last
  operand, the host of a route query the first, and the last filter counts; a scan asks the resolver even
  for an address, a route query only for what is no address.\<close>

definition no_address_of :: "'s world \<Rightarrow> string \<Rightarrow> bool" where
  "no_address_of w h \<longleftrightarrow> parse_ipv4 h = None \<and> parse_ipv6 h = None \<and> w_resolver w h = []"

definition scan_fault :: "'s world \<Rightarrow> string list \<Rightarrow> string option" where
  "scan_fault w hosts =
     (if hosts = [] then Some ''no host specified''
      else if w_resolver w (last hosts) = [] then Some (''could not resolve host '' @ in_quotes (last hosts))
      else None)"

definition pcap_fault :: "'s world \<Rightarrow> string list \<Rightarrow> string list \<Rightarrow> string option" where
  "pcap_fault w files filters =
     (if files = [] then Some ''no pcap file specified''
      else (case w_files w (last files) of
          Inl e \<Rightarrow> Some (''failed to open '' @ in_quotes (last files) @ '': '' @ e)
        | Inr bs \<Rightarrow>
            (case open_offline bs of
               Inl e \<Rightarrow> Some (''failed to open '' @ in_quotes (last files) @ '': '' @ e)
             | Inr cap \<Rightarrow>
                 (if filters = [] then None
                  else (case filter_compile (last filters) (cap_linktype cap) of
                      Inl e \<Rightarrow> Some (''invalid filter '' @ in_quotes (last filters) @ '': '' @ e)
                    | Inr _ \<Rightarrow> None)))))"

definition route_fault :: "'s world \<Rightarrow> string list \<Rightarrow> string option" where
  "route_fault w hosts =
     (if hosts = [] then Some ''no host specified''
      else if no_address_of w (hd hosts) then Some (''could not resolve host '' @ in_quotes (hd hosts))
      else None)"

definition fault :: "'s world \<Rightarrow> command \<Rightarrow> string option" where
  "fault w cmd =
     (case cmd of
        CmdScan rest \<Rightarrow> scan_fault w (operands {''-p'', ''--timeout'', ''--filter''} rest)
      | CmdPcap rest \<Rightarrow> pcap_fault w (operands {''--filter''} rest) (option_values ''--filter'' rest)
      | CmdRoute rest \<Rightarrow> route_fault w (operands {} rest)
      | CmdUnknown c \<Rightarrow> Some (''unknown command '' @ in_quotes c)
      | _ \<Rightarrow> None)"

text \<open>The loops over the arguments find these.\<close>

definition last_of :: "'a list \<Rightarrow> 'a option \<Rightarrow> 'a option" where
  "last_of xs d = (if xs = [] then d else Some (last xs))"

lemma last_of_simps [simp]: "last_of [] d = d" "last_of (x # xs) d = last_of xs (Some x)"
  by (simp_all add: last_of_def)

lemma scan_host: "so_host (scan_args args so) = last_of (operands {''-p'', ''--timeout'', ''--filter''} args) (so_host so)"
  by (induction args so rule: scan_args.induct) (auto split: list.splits)

lemma pcap_operands:
  "pcap_args args (f, e) = (last_of (operands {''--filter''} args) f, last_of (option_values ''--filter'' args) e)"
proof (induction args "(f, e)" arbitrary: f e rule: pcap_args.induct)
  case (2 a rest f e)
  show ?case
  proof (cases rest)
    case Nil
    then show ?thesis by (auto simp: is_flag_def)
  next
    case (Cons v rest')
    with 2 show ?thesis by (auto simp: is_flag_def)
  qed
qed simp

lemma pcap_faults:
  assumes "cmd_pcap (w_files w) rest = Some r"
  shows "pcap_fault w (operands {''--filter''} rest) (option_values ''--filter'' rest) =
    (case r of
       PcapNoFile \<Rightarrow> Some ''no pcap file specified''
     | PcapOpenFailed f e \<Rightarrow> Some (''failed to open '' @ in_quotes f @ '': '' @ e)
     | PcapBadFilter f e \<Rightarrow> Some (''invalid filter '' @ in_quotes f @ '': '' @ e)
     | PcapRead f flt n b ls \<Rightarrow> None)"
  using assms
  by (auto simp: pcap_fault_def cmd_pcap_def pcap_operands last_of_def set_filter_def case_prod_beta
      split: sum.splits option.splits if_splits)

lemma route_host: "find (\<lambda>a. \<not> is_flag a) args = (case operands {} args of [] \<Rightarrow> None | h # _ \<Rightarrow> Some h)"
  by (induction args) auto

lemma resolve_none: "resolve_ip (w_resolver w) h = None \<longleftrightarrow> no_address_of w h"
  by (auto simp: resolve_ip_def no_address_of_def split: option.splits list.splits)

text \<open>C40: Which command lines are refused, and how: when something is wrong (an unknown command; no host, or
  one that does not resolve; no capture file, one that cannot be opened, a filter that does not compile)
  the program returns, having written exactly that diagnostic to the standard error and nothing to the
  standard output, but for an unknown command, after which the usage goes to the standard output. When
  nothing is wrong it writes nothing to the standard error and something to the standard output, or it is
  a scan whose connects have not all been answered by the end of the turns.\<close>
theorem diagnostics:
  "case fault w (dispatch args) of
     Some m \<Rightarrow> (\<exists>out. wnr_main w args = Some out \<and> text_on Stderr out = m @ NL
       \<and> text_on Stdout out = (case dispatch args of CmdUnknown c \<Rightarrow> text_on Stdout (print_usage (w_version w)) | _ \<Rightarrow> []))
   | None \<Rightarrow> (case wnr_main w args of
       Some out \<Rightarrow> text_on Stderr out = [] \<and> text_on Stdout out \<noteq> []
     | None \<Rightarrow> \<exists>rest host ip ports timeout. dispatch args = CmdScan rest
         \<and> plan_scan (w_resolver w) rest = ScanOf host ip ports timeout)"
proof (cases "dispatch args")
  case CmdInterfaces
  then show ?thesis by (cases "w_interfaces w = []") (auto simp: fault_def wnr_main_def print_interfaces_def)
next
  case (CmdScan rest)
  then show ?thesis
    using scan_host [of rest "\<lparr>so_host = None, so_ports = [], so_timeout = 3000\<rparr>"]
    by (auto simp: fault_def scan_fault_def wnr_main_def cmd_scan_def plan_scan_def last_of_def Let_def split: list.splits)
next
  case (CmdPcap rest)
  obtain r where r: "cmd_pcap (w_files w) rest = Some r" using cmd_pcap_returns [of "w_files w" rest] by blast
  then show ?thesis
    using CmdPcap pcap_faults [OF r] by (cases r) (auto simp: fault_def wnr_main_def split: option.splits)
next
  case (CmdRoute rest)
  then show ?thesis
    by (cases "operands {} rest")
      (auto simp: fault_def route_fault_def wnr_main_def cmd_route_def route_host resolve_none [symmetric]
        split: option.splits)
qed (auto simp: fault_def wnr_main_def print_usage_def print_version_def)

text \<open>A route query without a host, and a scan whose host the resolver does not know.\<close>

theorem diagnostics_witness:
  "(\<exists>out. wnr_main (sample_world [] []) [''wnr'', ''--route''] = Some out
      \<and> text_on Stderr out = ''no host specified'' @ NL \<and> text_on Stdout out = [])
   \<and> (\<exists>out. wnr_main (sample_world [] []) [''wnr'', ''-s'', ''beta'', ''-p'', ''80''] = Some out
      \<and> text_on Stderr out = ''could not resolve host '' @ in_quotes ''beta'' @ NL \<and> text_on Stdout out = [])"
  using diagnostics [where w = "sample_world [] []" and args = "[''wnr'', ''--route'']"]
    diagnostics [where w = "sample_world [] []" and args = "[''wnr'', ''-s'', ''beta'', ''-p'', ''80'']"]
  by (simp add: dispatch_def fault_def route_fault_def scan_fault_def sample_world_def is_flag_def)

section \<open>The columns of the interface table\<close>

lemma char_count_append [simp]: "char_count (a @ b) = char_count a + char_count b"
  by (simp add: char_count_def)

lemma char_count_Cons [simp]:
  "char_count (c # s) = (if is_cont (of_char c) then char_count s else Suc (char_count s))" "char_count [] = 0"
  by (simp_all add: char_count_def)

lemma char_count_le: "char_count s \<le> length s"
  by (simp add: char_count_def)

lemma char_count_pad: "char_count (pad_end w s) = max w (char_count s)"
  by (simp add: pad_end_def char_count_def is_cont_def)

lemma show_u8_short: "length (show_u8 b) \<le> 3"
proof -
  have "unat b < 256" using unsigned_less [of b] by simp
  then have "unat b div 10 div 10 < 10" by linarith
  then show ?thesis
    unfolding show_u8_def
    by (subst show_radix.simps, simp, subst show_radix.simps, simp, subst show_radix.simps, simp)
qed

lemma show_ipv4_short: "length (show_ipv4 ip) \<le> 15"
proof (cases ip)
  case (Ipv4Addr a b c d)
  show ?thesis
    using show_u8_short [of a] show_u8_short [of b] show_u8_short [of c] show_u8_short [of d]
    unfolding Ipv4Addr by simp
qed

text \<open>The header has its MAC column at position 36; the row of an interface with an IPv4 address and a
  name of at most 16 characters has it at 33 or before, at a place that varies with the address, since
  the address is printed without its padding.\<close>

lemma interface_mac_column:
  assumes "addr_type (intf_addr e) = ADDR_TYPE_IP" "char_count (intf_name e) \<le> 16"
  shows "\<exists>front rest hfront hrest mac. interface_line (hd (interface_rows [e])) = front @ pad_end 9 mac @ rest
     \<and> interface_header = hfront @ pad_end 9 ''MAC'' @ hrest
     \<and> char_count hfront = 36 \<and> 17 < char_count front \<and> char_count front \<le> 33"
proof -
  let ?r = "hd (interface_rows [e])"
  let ?front = "pad_end 16 (ir_name ?r) @ '' '' @ ir_addr ?r @ '' ''"
  have short: "char_count (addr_show (intf_addr e)) \<le> 15"
    using assms(1) order_trans [OF char_count_le show_ipv4_short] by (simp add: addr_show_def)
  have "char_count ''INTERFACE'' = 9" "char_count ''ADDRESS'' = 7" by (simp_all add: is_cont_def)
  then have head: "char_count (pad_end 16 ''INTERFACE'' @ '' '' @ pad_end 18 ''ADDRESS'' @ '' '') = 36"
    by (simp add: char_count_pad is_cont_def)
  have "ir_name ?r = intf_name e" "ir_addr ?r = addr_show (intf_addr e)"
    by (simp_all add: interface_rows_def)
  with assms(2) have front: "char_count ?front = 18 + char_count (addr_show (intf_addr e))"
    by (simp add: char_count_pad is_cont_def)
  show ?thesis
  proof (intro exI conjI)
    show "interface_line ?r = ?front @ pad_end 9 (ir_mac ?r)
      @ ('' '' @ pad_end 6 (show_nat (unat (ir_mtu ?r))) @ '' '' @ join_with '','' (ir_flags ?r))"
      by (simp add: interface_line_def)
    show "interface_header = (pad_end 16 ''INTERFACE'' @ '' '' @ pad_end 18 ''ADDRESS'' @ '' '') @ pad_end 9 ''MAC''
      @ ('' '' @ pad_end 6 ''MTU'' @ '' '' @ ''FLAGS'')"
      by (simp add: interface_header_def)
  qed (use head front short in simp_all)
qed


section \<open>What the report on a capture file prints\<close>

text \<open>C35: The report on a capture file named on the command line with a filter whose parse is \<open>q\<close>: the
  program returns, and prints a line for each of the first ten packets that \<open>q\<close> accepts, numbered from
  one, then the number of accepted packets and of their captured bytes, and the filter. An error
  \<open>err\<close> that ends the reading early (a cut-off or corrupt record) leaves no trace.\<close>
theorem pcap_prints_accepted:
  assumes "dispatch args = CmdPcap rest" "pcap_args rest (None, None) = (Some file, Some f)"
    and "w_files w file = Inr bs" "open_offline bs = Inr cap" "kind_packets (cap_kind cap) = (ps, err, k)"
    and "\<forall>p \<in> set ps. length (pk_data p) < 2 ^ 32"
    and "tokenize f \<noteq> []" "fst (parse_primitive \<lparr>fb_tokens = tokenize f, fb_pos = 0\<rparr>) = Inr q"
  shows "let qs = map packet_view (filter (\<lambda>p. prim_accepts (cap_linktype cap) q (pk_data p)) ps) in
    wnr_main w args = Some
      (concat (map (\<lambda>l. println (pcap_text l)) (map2 (pcap_line_of (cap_linktype cap)) [1 ..< 1 + length qs] (take 10 qs)))
       @ println (''read '' @ show_nat (length qs) @ '' packets ('' @ show_nat (sum_list (map (\<lambda>x. unat (hd_caplen (fst x))) qs))
           @ '' bytes) from '' @ in_quotes file @ '' in '' @ w_elapsed w @ '' ('' @ show_nat (w_rate w) @ '' pkts/sec)'')
       @ println (''filter applied: '' @ in_quotes f))"
proof -
  let ?qs = "map packet_view (filter (\<lambda>p. prim_accepts (cap_linktype cap) q (pk_data p)) ps)"
  obtain cap' where c: "set_filter f cap = (Inr (), cap')" "capture_collect cap' = Some (?qs, err, cap'\<lparr>cap_kind := k\<rparr>)"
    using filtered_collect [OF assms(5-8)] by blast
  then have "cap_linktype cap' = cap_linktype cap" by (auto simp: set_filter_def split: sum.splits)
  then have "cmd_pcap (w_files w) rest = Some (PcapRead file (Some f) (length ?qs)
      (sum_list (map (\<lambda>x. unat (hd_caplen (fst x))) ?qs))
      (map2 (pcap_line_of (cap_linktype cap)) [1 ..< 1 + length ?qs] (take 10 ?qs)))"
    using assms(2-4) c by (simp add: cmd_pcap_def count_packets del: upt_Suc)
  then show ?thesis
    unfolding Let_def wnr_main_def assms(1) by (simp del: upt_Suc append.simps map_map)
qed

text \<open>Two frames, the second of which the filter rejects.\<close>

theorem pcap_prints_accepted_witness:
  "map_option (text_on Stdout) (wnr_main (sample_world [] (sw_out (write_all_packets 64 1
      [(1, 0, replicate 12 0 @ [8, 6, 7]), (2, 0, replicate 12 0 @ [8, 0])]))) [''wnr'', ''--pcap'', ''a.pcap'', ''--filter'', ''arp'']) = Some
     (''pkt #1: 15 bytes captured (15 on wire), 1 l3 bytes at off 14'' @ NL
      @ ''read 1 packets (15 bytes) from '' @ in_quotes ''a.pcap'' @ '' in 1ms (9 pkts/sec)'' @ NL
      @ ''filter applied: '' @ in_quotes ''arp'' @ NL)"
proof -
  let ?ps = "[(1, 0, replicate 12 0 @ [8, 6, 7]), (2, 0, replicate 12 0 @ [8, 0])] :: (u32 \<times> u32 \<times> bytes) list"
  obtain c where c: "open_offline (sw_out (write_all_packets 64 1 ?ps)) = Inr c" "cap_linktype c = 1"
    "cap_kind c = Offline \<lparr>sr_header = pcap_file_header_new 64 1,
       sr_rest = concat (map (record_image False) (map (stored_packet 64) ?ps))\<rparr>"
    by (simp add: open_offline_written)
  have args: "dispatch [''wnr'', ''--pcap'', ''a.pcap'', ''--filter'', ''arp''] = CmdPcap [''a.pcap'', ''--filter'', ''arp'']"
    "pcap_args [''a.pcap'', ''--filter'', ''arp''] (None, None) = (Some ''a.pcap'', Some ''arp'')"
    by (simp_all add: dispatch_def is_flag_def)
  have tok: "tokenize ''arp'' = [''arp'']"
    by (simp add: tokenize_def tokenize_word_def split_whitespace_word is_word_def plain_char_def)
  have parse: "fst (parse_primitive \<lparr>fb_tokens = tokenize ''arp'', fb_pos = 0\<rparr>) = Inr (Proto 0x0806)"
    by (simp add: tok parse_primitive_def next_token_def to_ascii_lowercase_def)
  have k: "kind_packets (cap_kind c) = (map (stored_packet 64) ?ps, None,
      Offline \<lparr>sr_header = pcap_file_header_new 64 1, sr_rest = []\<rparr>)"
    using kind_packets_offline [OF written_reads(2) [of 64 1 ?ps]] unfolding c(3) by simp
  have small: "\<forall>p \<in> set (map (stored_packet 64) ?ps). length (pk_data p) < 2 ^ 32"
    using stored_packet_length by auto
  have "prim_accepts 1 (Proto 0x0806) (replicate 12 0 @ [8, 6, 7])"
    "\<not> prim_accepts 1 (Proto 0x0806) (replicate 12 0 @ [8, 0])" by code_simp+
  then have flt: "filter (\<lambda>p. prim_accepts (cap_linktype c) (Proto 0x0806) (pk_data p)) (map (stored_packet 64) ?ps)
      = [stored_packet 64 (1, 0, replicate 12 0 @ [8, 6, 7])]"
    by (simp add: stored_packet_def c(2))
  have digits: "show_nat 15 = ''15''" "show_nat (Suc 0) = ''1''" "show_nat 9 = ''9''" "show_nat 14 = ''14''" by code_simp+
  have w: "w_files (sample_world [] (sw_out (write_all_packets 64 1 ?ps))) ''a.pcap'' = Inr (sw_out (write_all_packets 64 1 ?ps))"
    "w_elapsed (sample_world [] bs) = ''1ms''" "w_rate (sample_world [] bs) = 9" for bs
    by (simp_all add: sample_world_def)
  show ?thesis
    using pcap_prints_accepted [OF args w(1) c(1) k small _ parse, unfolded flt w] tok c(2)
    by (simp add: Let_def packet_view_def stored_packet_def pcap_line_of_def strip_link_header_def
        link_header_len_def DLT_EN10MB_def pcap_text_def digits)
qed


end
