(* ===== verification/Tests_Dnet.thy ===== *)
theory Tests_Dnet
  imports Dnet_Arp Dnet_Order Dnet_Intf
begin

text \<open>
  The unit tests of \<open>wnr-dnet\<close> on the model: each test function is a definition whose value is the
  conjunction of its assertions, evaluated by the kernel. They check the translation against what the
  authors of the code expect of it.
\<close>

section \<open>Addresses\<close>

text \<open>\<open>"2001:db8::1".parse()\<close>.\<close>

definition doc_v6 :: ipv6_addr where
  "doc_v6 = Ipv6Addr [0x20, 0x01, 0x0d, 0xb8, 0, 0, 0, 0, 0, 0, 0, 0, 0, 0, 0, 1]"

definition test_ipv4_roundtrip :: bool where
  "test_ipv4_roundtrip \<longleftrightarrow>
     (let ip = Ipv4Addr 192 168 1 1; a = addr_ipv4 ip
      in to_ipv4 a = Some ip \<and> ip_version a = 4 \<and> addr_bits a = 32)"

definition test_ipv6_roundtrip :: bool where
  "test_ipv6_roundtrip \<longleftrightarrow>
     (case parse_ipv6 ''2001:db8::1'' of
        None \<Rightarrow> False
      | Some ip \<Rightarrow> (let a = addr_ipv6 ip in to_ipv6 a = Some ip \<and> ip_version a = 6))"

definition test_hw_roundtrip :: bool where
  "test_hw_roundtrip \<longleftrightarrow>
     (let mac = [0xde, 0xad, 0xbe, 0xef, 0x00, 0x01]; a = addr_hw mac
      in to_hw a = Some mac \<and> is_multicast_hw a = False \<and> addr_show a = ''de:ad:be:ef:00:01'')"

definition test_broadcast_detected :: bool where
  "test_broadcast_detected \<longleftrightarrow> (let bcast = replicate 6 0xff; a = addr_hw bcast in is_multicast_hw a)"

definition test_pton_ntoa_roundtrip :: bool where
  "test_pton_ntoa_roundtrip \<longleftrightarrow>
     (let ip = addr_ipv4 (Ipv4Addr 192 168 1 1)
      in addr_pton ''192.168.1.1'' = Some ip \<and> addr_ntoa ip = ''192.168.1.1'')
     \<and> (case parse_ipv6 ''2001:db8::1'' of
          None \<Rightarrow> False
        | Some v6 \<Rightarrow> (let ip6 = addr_ipv6 v6 in addr_pton ''2001:db8::1'' = Some ip6))
     \<and> (let mac = addr_hw [0xaa, 0xbb, 0xcc, 0xdd, 0xee, 0x01]
        in addr_pton ''aa:bb:cc:dd:ee:01'' = Some mac \<and> addr_ntoa mac = ''aa:bb:cc:dd:ee:01'')"

definition test_cmp_orders :: bool where
  "test_cmp_orders \<longleftrightarrow>
     (let a = addr_ipv4 (Ipv4Addr 10 0 0 1); b = addr_ipv4 (Ipv4Addr 10 0 0 2); c = addr_ipv4 (Ipv4Addr 10 0 0 1);
          d = addr_hw [0, 0, 0, 0, 0, 1]
      in sint (addr_cmp a b) < 0 \<and> 0 < sint (addr_cmp b a) \<and> addr_cmp a c = 0 \<and> addr_cmp a d \<noteq> 0)"

definition test_net_and_broadcast :: bool where
  "test_net_and_broadcast \<longleftrightarrow>
     (let a = (addr_ipv4 (Ipv4Addr 192 168 1 5))\<lparr>addr_bits := 24\<rparr>
      in to_ipv4 (network a) = Some (Ipv4Addr 192 168 1 0) \<and> to_ipv4 (broadcast a) = Some (Ipv4Addr 192 168 1 255))"

definition test_mask_bits_conversions :: bool where
  "test_mask_bits_conversions \<longleftrightarrow>
     addr_btom 24 4 = Some [255, 255, 255, 0] \<and> addr_mtob [255, 255, 255, 0] = Some 24
     \<and> addr_mtob [255, 255, 255, 255] = Some 32 \<and> addr_mtob [255, 255, 0, 255] = None
     \<and> addr_mtob [128, 0, 0, 0] = Some 1 \<and> addr_mtob [0, 0, 0, 0] = Some 0"

definition test_pack_sets_bytes :: bool where
  "test_pack_sets_bytes \<longleftrightarrow>
     (let a = addr_pack addr_default ADDR_TYPE_IP 24 [10, 0, 0]
      in addr_type a = ADDR_TYPE_IP \<and> addr_bits a = 24 \<and> take 3 (addr_data a) = [10, 0, 0] \<and> addr_data a ! 3 = 0
         \<and> addr_len a = 4)"

lemma parse_doc_v6: "parse_ipv6 ''2001:db8::1'' = Some doc_v6"
proof -
  have "read_groups 8 8 ''2001:db8::1'' = ([0x2001, 0xdb8], False, ''::1'')" "read_groups 5 5 ''1'' = ([1], False, [])"
    by (simp_all add: parse_closed)
  moreover have "replicate 5 (0 :: u16) = [0, 0, 0, 0, 0]"
    "groups_to_ipv6 [0x2001, 0xdb8, 0, 0, 0, 0, 0, 1] = doc_v6" by code_simp+
  ultimately show ?thesis by (simp add: parse_ipv6_def read_ipv6_def)
qed

lemma test_ipv4_roundtrip: test_ipv4_roundtrip
  by code_simp

lemma test_ipv6_roundtrip: test_ipv6_roundtrip
  unfolding test_ipv6_roundtrip_def parse_doc_v6 option.case by code_simp

lemma test_hw_roundtrip: test_hw_roundtrip
  by code_simp

lemma test_broadcast_detected: test_broadcast_detected
  by code_simp

lemma test_cmp_orders: test_cmp_orders
  by code_simp

lemma test_net_and_broadcast: test_net_and_broadcast
  by code_simp

lemma test_mask_bits_conversions: test_mask_bits_conversions
  by code_simp

lemma test_pack_sets_bytes: test_pack_sets_bytes
  by code_simp

lemma test_pton_ntoa_roundtrip: test_pton_ntoa_roundtrip
proof -
  have "parse_ipv4 ''2001:db8::1'' = None" by (rule parse_ipv4_no_dot) simp
  moreover have "trim ''2001:db8::1'' = ''2001:db8::1''" by (rule trim_id) (auto simp: plain_char_def)
  ultimately have v6: "addr_pton ''2001:db8::1'' = Some (addr_ipv6 doc_v6)"
    by (simp add: addr_pton_def addr_from_str_def parse_doc_v6)
  have v4: "addr_pton ''192.168.1.1'' = Some (addr_ipv4 (Ipv4Addr 192 168 1 1))" by code_simp
  have mac: "addr_ntoa (addr_hw [0xaa, 0xbb, 0xcc, 0xdd, 0xee, 0x01]) = ''aa:bb:cc:dd:ee:01''"
    "addr_ntoa (addr_ipv4 (Ipv4Addr 192 168 1 1)) = ''192.168.1.1''" by code_simp+
  let ?m = "[0xaa, 0xbb, 0xcc, 0xdd, 0xee, 0x01 :: u8]"
  have shown: "join_with '':'' (map fmt_02x ?m) = ''aa:bb:cc:dd:ee:01''" by code_simp
  have "parse_ipv6 ''aa:bb:cc:dd:ee:01'' = None"
    using parse_ipv6_mac [of "0xaa" "0xbb" "0xcc" "0xdd" "0xee" "0x01"] unfolding shown .
  moreover have "parse_ipv4 ''aa:bb:cc:dd:ee:01'' = None" by (rule parse_ipv4_no_dot) simp
  moreover have "eth_pton ''aa:bb:cc:dd:ee:01'' = Some (eth_addr_new ?m)"
    "trim ''aa:bb:cc:dd:ee:01'' = ''aa:bb:cc:dd:ee:01''"
    using eth_pton_separated [of ?m "CHR '':''"] separated_text [of ?m "CHR '':''"] unfolding shown by simp_all
  ultimately have "addr_pton ''aa:bb:cc:dd:ee:01'' = Some (addr_hw ?m)"
    by (simp add: addr_pton_def addr_from_str_def eth_addr_new_def)
  then show ?thesis unfolding test_pton_ntoa_roundtrip_def Let_def parse_doc_v6 option.case v4 v6 mac by simp
qed

section \<open>Ethernet\<close>

definition test_ntop_pton_roundtrip :: bool where
  "test_ntop_pton_roundtrip \<longleftrightarrow>
     (let mac = eth_addr_new [0x00, 0x11, 0x22, 0xaa, 0xbb, 0xcc]; txt = eth_ntop mac
      in txt = ''00:11:22:aa:bb:cc'' \<and> eth_pton txt = Some mac \<and> eth_pton ''00-11-22-AA-BB-CC'' = Some mac
         \<and> eth_pton ''001122aabbcc'' = Some mac)"

definition test_eth_broadcast :: bool where
  "test_eth_broadcast \<longleftrightarrow>
     (let b = eth_addr_new ETH_ADDR_BROADCAST in eth_is_broadcast b \<and> eth_is_multicast b)"

definition test_header_encode_decode :: bool where
  "test_header_encode_decode \<longleftrightarrow>
     (let hdr = \<lparr>hdr_dst = eth_addr_new ETH_ADDR_BROADCAST,
                 hdr_src = eth_addr_new [0xde, 0xad, 0xbe, 0xef, 0x00, 0x01], hdr_proto = ETH_TYPE_IP\<rparr>
      in case eth_hdr_encode hdr (replicate ETH_HDR_LEN 0) of
           None \<Rightarrow> False
         | Some buf \<Rightarrow> (case eth_hdr_parse buf of None \<Rightarrow> False | Some parsed \<Rightarrow> parsed = hdr))"

lemma test_ntop_pton_roundtrip: test_ntop_pton_roundtrip
  by code_simp

lemma test_eth_broadcast: test_eth_broadcast
  by code_simp

lemma test_header_encode_decode: test_header_encode_decode
  by code_simp

section \<open>ARP\<close>

definition test_arp_message_roundtrip :: bool where
  "test_arp_message_roundtrip \<longleftrightarrow>
     (let msg = arp_request (addr_ipv4 (Ipv4Addr 192 0 2 1)) (addr_ipv4 (Ipv4Addr 192 0 2 2))
                  (eth_addr_new [0xaa, 0xbb, 0xcc, 0xdd, 0xee, 0x01])
      in case arp_msg_encode msg (replicate (arp_total_len msg) 0) of
           None \<Rightarrow> False
         | Some buf \<Rightarrow>
             (case (arp_hdr_parse buf, arp_ethip_parse (drop ARP_HDR_LEN buf)) of
                (Some hdr, Some body) \<Rightarrow>
                  arp_op hdr = ARP_OP_REQUEST \<and> arp_hrd hdr = ARP_HRD_ETH
                  \<and> arp_spa body = arp_spa (msg_body msg) \<and> arp_tpa body = arp_tpa (msg_body msg)
              | _ \<Rightarrow> False))"

definition test_cache_ops :: bool where
  "test_cache_ops \<longleftrightarrow>
     (let pa = addr_ipv4 (Ipv4Addr 10 0 0 1); ha = addr_hw [0x00, 0x11, 0x22, 0x33, 0x44, 0x55];
          c0 = arp_cache_new; c1 = arp_cache_add \<lparr>arp_pa = pa, arp_ha = ha\<rparr> c0; c2 = arp_cache_delete pa c1
      in arp_cache_is_empty c0 \<and> arp_cache_len c1 = 1 \<and> map_option arp_ha (arp_cache_get pa c1) = Some ha
         \<and> arp_cache_is_empty c2)"

lemma test_arp_message_roundtrip: test_arp_message_roundtrip
  by code_simp

lemma test_cache_ops: test_cache_ops
  by code_simp

section \<open>Routes\<close>

definition test_net :: "ipv4_addr \<Rightarrow> u16 \<Rightarrow> addr" where
  "test_net ip bits = (addr_ipv4 ip)\<lparr>addr_bits := bits\<rparr>"

definition test_route :: "addr \<Rightarrow> addr \<Rightarrow> route_entry" where
  "test_route dst gw = \<lparr>route_dst = dst, route_gw = gw\<rparr>"

definition test_table_lives_and_loops :: bool where
  "test_table_lives_and_loops \<longleftrightarrow>
     (let t0 = route_table_new;
          t1 = route_table_add (test_route (test_net (Ipv4Addr 10 0 0 0) 24) (addr_ipv4 (Ipv4Addr 10 0 0 1))) t0;
          t2 = route_table_add (test_route (test_net (Ipv4Addr 0 0 0 0) 0) (addr_ipv4 (Ipv4Addr 192 168 1 1))) t1
      in route_table_is_empty t0 \<and> route_table_len t2 = 2
         \<and> route_dst (route_entries t2 ! 0) = test_net (Ipv4Addr 10 0 0 0) 24)"

definition test_get_prefers_most_specific :: bool where
  "test_get_prefers_most_specific \<longleftrightarrow>
     (let t = route_table_new;
          t = route_table_add (test_route (test_net (Ipv4Addr 0 0 0 0) 0) (addr_ipv4 (Ipv4Addr 192 168 1 1))) t;
          t = route_table_add (test_route (test_net (Ipv4Addr 10 0 0 0) 8) (addr_ipv4 (Ipv4Addr 10 0 0 1))) t;
          t = route_table_add (test_route (test_net (Ipv4Addr 10 1 0 0) 16) (addr_ipv4 (Ipv4Addr 10 1 0 1))) t;
          dst = addr_ipv4 (Ipv4Addr 10 1 2 3); other = addr_ipv4 (Ipv4Addr 203 0 113 1)
      in map_option (\<lambda>e. addr_bits (route_dst e)) (route_table_get dst t) = Some 16
         \<and> map_option (\<lambda>e. to_ipv4 (route_gw e)) (route_table_get dst t) = Some (Some (Ipv4Addr 10 1 0 1))
         \<and> map_option (\<lambda>e. addr_bits (route_dst e)) (route_table_get other t) = Some 0)"

definition test_get_respects_family :: bool where
  "test_get_respects_family \<longleftrightarrow>
     (case parse_ipv6 ''fe80::1'' of
        None \<Rightarrow> False
      | Some gw6 \<Rightarrow>
          (let t = route_table_new;
               t = route_table_add (test_route (test_net (Ipv4Addr 0 0 0 0) 0) (addr_ipv4 (Ipv4Addr 192 168 1 1))) t;
               t = route_table_add
                     (test_route ((addr_ipv6 (Ipv6Addr (replicate 16 0)))\<lparr>addr_bits := 0\<rparr>) (addr_ipv6 gw6)) t
           in map_option (\<lambda>e. to_ipv6 (route_gw e)) (route_table_get (addr_ipv6 doc_v6) t) = Some (Some gw6)
              \<and> map_option (\<lambda>e. to_ipv4 (route_gw e)) (route_table_get (addr_ipv4 (Ipv4Addr 1 2 3 4)) t)
                  = Some (Some (Ipv4Addr 192 168 1 1))))"

definition test_delete_removes :: bool where
  "test_delete_removes \<longleftrightarrow>
     (let d0 = test_net (Ipv4Addr 0 0 0 0) 0;
          t = route_table_add (test_route d0 (addr_ipv4 (Ipv4Addr 192 168 1 1))) route_table_new
      in route_table_is_empty (route_table_delete d0 t))"

definition test_add_dev_uses_network :: bool where
  "test_add_dev_uses_network \<longleftrightarrow>
     (let t = route_table_add_dev (test_route (test_net (Ipv4Addr 10 0 0 5) 24) (addr_ipv4 (Ipv4Addr 10 0 0 1)))
                route_table_new
      in to_ipv4 (route_dst (route_entries t ! 0)) = Some (Ipv4Addr 10 0 0 0)
         \<and> route_table_get (addr_ipv4 (Ipv4Addr 10 0 0 9)) t \<noteq> None)"

definition test_route_add_validates :: bool where
  "test_route_add_validates \<longleftrightarrow>
     (let gw = addr_ipv4 (Ipv4Addr 10 0 0 1);
          bad = test_route (test_net (Ipv4Addr 10 0 0 0) 33) gw;
          badgw = test_route (test_net (Ipv4Addr 10 0 0 0) 24) (addr_hw [0, 0, 0, 0, 0, 0]);
          ok = test_route (test_net (Ipv4Addr 10 0 0 0) 24) gw
      in is_err (route_add (test_route addr_default addr_default)) \<and> is_err (route_add bad)
         \<and> is_err (route_add badgw) \<and> is_err (route_add ok))"

definition test_route_delete_validates :: bool where
  "test_route_delete_validates \<longleftrightarrow> is_err (route_delete (test_route addr_default addr_default))"

lemma parse_fe80: "parse_ipv6 ''fe80::1'' = Some (Ipv6Addr [0xfe, 0x80, 0, 0, 0, 0, 0, 0, 0, 0, 0, 0, 0, 0, 0, 1])"
proof -
  have "read_groups 8 8 ''fe80::1'' = ([0xfe80], False, ''::1'')" "read_groups 6 6 ''1'' = ([1], False, [])"
    by (simp_all add: parse_closed)
  moreover have "replicate 6 (0 :: u16) = [0, 0, 0, 0, 0, 0]"
    "groups_to_ipv6 [0xfe80, 0, 0, 0, 0, 0, 0, 1] = Ipv6Addr [0xfe, 0x80, 0, 0, 0, 0, 0, 0, 0, 0, 0, 0, 0, 0, 0, 1]"
    by code_simp+
  ultimately show ?thesis by (simp add: parse_ipv6_def read_ipv6_def)
qed

lemma test_table_lives_and_loops: test_table_lives_and_loops
  by code_simp

lemma test_get_prefers_most_specific: test_get_prefers_most_specific
  by code_simp

lemma test_get_respects_family: test_get_respects_family
  unfolding test_get_respects_family_def parse_fe80 option.case by code_simp

lemma test_delete_removes: test_delete_removes
  by code_simp

lemma test_add_dev_uses_network: test_add_dev_uses_network
  by code_simp

lemma test_route_add_validates: test_route_add_validates
  by code_simp

lemma test_route_delete_validates: test_route_delete_validates
  by code_simp

section \<open>Interfaces\<close>

text \<open>\<open>os\<close> is the UDP of the machine the test runs on, \<open>ifs\<close> its interfaces.\<close>

definition test_flag_helpers :: bool where
  "test_flag_helpers \<longleftrightarrow>
     (let e = intf_default\<lparr>intf_flags := INTF_FLAG_UP OR INTF_FLAG_LOOPBACK\<rparr>
      in intf_is_up e \<and> intf_is_loopback e \<and> \<not> intf_is_point_to_point e)"

definition test_constants_match_mib :: bool where
  "test_constants_match_mib \<longleftrightarrow> INTF_TYPE_ETH = 6 \<and> INTF_TYPE_LOOPBACK = 24 \<and> INTF_FLAG_UP = 0x01"

fun sock_port :: "socket_addr \<Rightarrow> u16" where
  "sock_port (SockV4 _ p) = p"
| "sock_port (SockV6 _ p _ _) = p"

definition test_sockaddr_roundtrip :: bool where
  "test_sockaddr_roundtrip \<longleftrightarrow>
     (case addr_to_sockaddr (addr_ipv4 (Ipv4Addr 192 168 1 5)) of
        None \<Rightarrow> False
      | Some sa \<Rightarrow> sock_port sa = 9 \<and> to_ipv4 (sockaddr_to_addr sa) = Some (Ipv4Addr 192 168 1 5))
     \<and> (case addr_to_sockaddr (addr_ipv6 doc_v6) of
          None \<Rightarrow> False
        | Some sa6 \<Rightarrow> to_ipv6 (addr_ipv6 doc_v6) \<noteq> None
                     \<and> to_ipv6 (sockaddr_to_addr sa6) = to_ipv6 (addr_ipv6 doc_v6))"

definition test_bad_family_rejected :: "'s os_udp \<Rightarrow> bool" where
  "test_bad_family_rejected os \<longleftrightarrow>
     source_addr_for_family os 0 = None \<and> source_addr_for_family os 99 = None"

definition test_intf_set_requires_real_iface :: "intf_entry list \<Rightarrow> bool" where
  "test_intf_set_requires_real_iface ifs \<longleftrightarrow> is_err (intf_set ifs intf_default)"

lemma test_flag_helpers: test_flag_helpers
  by code_simp

lemma test_constants_match_mib: test_constants_match_mib
  by code_simp

lemma test_sockaddr_roundtrip: test_sockaddr_roundtrip
  by code_simp

lemma test_bad_family_rejected: "test_bad_family_rejected os"
  by (simp add: test_bad_family_rejected_def source_addr_for_family_def)

lemma test_intf_set_requires_real_iface: "test_intf_set_requires_real_iface ifs"
  by (simp add: test_intf_set_requires_real_iface_def intf_set_def intf_default_def is_err_def)

end
