(* ===== verification/Tests_Pcap.thy ===== *)
theory Tests_Pcap
  imports Pcap_Live Wnr_Cli "HOL-Library.Sublist"
begin

text \<open>
  The unit tests of \<open>wnr-pcap\<close> and of \<open>wnr/src/main.rs\<close> on the model, one definition per test function.
  A savefile in the temporary directory is its contents.
\<close>

section \<open>The send queue\<close>

definition test_pkt :: "u8 \<Rightarrow> pcap_packet" where
  "test_pkt n = \<lparr>pk_ts_sec = 1000 + ucast n, pk_ts_frac = 0, pk_caplen = ucast n, pk_origlen = ucast n,
     pk_pkttype = 0, pk_data = replicate (unat n) n\<rparr>"

definition test_alloc_and_queue :: bool where
  "test_alloc_and_queue \<longleftrightarrow>
     (let q0 = sendqueue_new 100; (r1, q1) = sendqueue_add (test_pkt 10) q0; (r2, q2) = sendqueue_add (test_pkt 20) q1
      in sendqueue_is_empty q0 \<and> sq_capacity q0 = 100 \<and> sendqueue_remaining q0 = 100
         \<and> r1 = Inr () \<and> r2 = Inr () \<and> sendqueue_len q2 = 2 \<and> sq_bytes q2 = 30 \<and> sendqueue_remaining q2 = 70)"

definition test_capacity_is_enforced :: bool where
  "test_capacity_is_enforced \<longleftrightarrow>
     (let q0 = sendqueue_new 10; (r1, q1) = sendqueue_add (test_pkt 6) q0; (r2, q2) = sendqueue_add (test_pkt 6) q1
      in r1 = Inr () \<and> is_err r2 \<and> sendqueue_len q2 = 1 \<and> sq_bytes q2 = 6)"

definition test_add_raw_uses_fields :: bool where
  "test_add_raw_uses_fields \<longleftrightarrow>
     (let (r, q) = sendqueue_add_raw 55 44 [1, 2, 3, 4] (sendqueue_new 64); e = sq_pkts q ! 0
      in r = Inr () \<and> pk_ts_sec e = 55 \<and> pk_ts_frac e = 44 \<and> pk_caplen e = 4 \<and> pk_origlen e = 4 \<and> sq_bytes q = 4)"

definition test_clear_resets_counters :: bool where
  "test_clear_resets_counters \<longleftrightarrow>
     (let q0 = sendqueue_new 100; (r1, q1) = sendqueue_add (test_pkt 10) q0; (r2, q2) = sendqueue_add (test_pkt 20) q1;
          q3 = sendqueue_clear q2
      in r1 = Inr () \<and> r2 = Inr () \<and> sendqueue_is_empty q3 \<and> sq_bytes q3 = 0 \<and> sendqueue_remaining q3 = 100)"

definition test_entries_preserves_order :: bool where
  "test_entries_preserves_order \<longleftrightarrow>
     (let q0 = sendqueue_new 100; (r1, q1) = sendqueue_add (test_pkt 1) q0; (r2, q2) = sendqueue_add (test_pkt 2) q1;
          (r3, q3) = sendqueue_add (test_pkt 3) q2
      in r1 = Inr () \<and> r2 = Inr () \<and> r3 = Inr () \<and> map pk_ts_sec (sq_pkts q3) = [1001, 1002, 1003])"

lemmas queue_eval = sendqueue_new_def sendqueue_add_def sendqueue_add_raw_def sendqueue_clear_def sendqueue_len_def sendqueue_is_empty_def
  sendqueue_remaining_def saturating_add_def saturating_sub_def test_pkt_def Let_def is_err_def

lemma test_alloc_and_queue: test_alloc_and_queue
  by (simp add: test_alloc_and_queue_def queue_eval)

lemma test_capacity_is_enforced: test_capacity_is_enforced
  by (simp add: test_capacity_is_enforced_def queue_eval)

lemma test_add_raw_uses_fields: test_add_raw_uses_fields
  by (simp add: test_add_raw_uses_fields_def queue_eval)

lemma test_clear_resets_counters: test_clear_resets_counters
  by (simp add: test_clear_resets_counters_def queue_eval)

lemma test_entries_preserves_order: test_entries_preserves_order
  by (simp add: test_entries_preserves_order_def queue_eval)

section \<open>Savefiles\<close>

definition test_savefile_roundtrip :: bool where
  "test_savefile_roundtrip \<longleftrightarrow>
     (let w = write_packet 1001 0 [1, 2, 3, 4, 5]
                (write_packet 1000 500 [0xde, 0xad, 0xbe, 0xef] (savefile_create 65535 1))
      in case savefile_open (sw_out w) of
           Inl _ \<Rightarrow> False
         | Inr r \<Rightarrow>
             (let (p1, r1) = savefile_next r; (p2, r2) = savefile_next r1; (p3, r3) = savefile_next r2
              in ph_linktype (sr_header r) = 1 \<and> ph_snaplen (sr_header r) = 65535
                 \<and> (case (p1, p2) of
                      (Inr (Some q1), Inr (Some q2)) \<Rightarrow>
                        pk_data q1 = [0xde, 0xad, 0xbe, 0xef] \<and> pk_ts_sec q1 = 1000 \<and> pk_caplen q2 = 5
                    | _ \<Rightarrow> False)
                 \<and> p3 = Inr None))"

lemma next_stored:
  "savefile_next \<lparr>sr_header = pcap_file_header_new sn lt, sr_rest = record_image False (stored_packet sn x) @ rest\<rparr>
    = (Inr (Some (stored_packet sn x)), \<lparr>sr_header = pcap_file_header_new sn lt, sr_rest = rest\<rparr>)"
proof -
  have "needs_swap (pcap_file_header_new sn lt) = False"
    by (simp add: needs_swap_def pcap_file_header_new_def magics)
  then show ?thesis by (subst savefile_next_record [OF _ _]) (simp_all add: stored_storable)
qed

lemma test_savefile_roundtrip: test_savefile_roundtrip
proof -
  let ?ps = "[(1000, 500, [0xde, 0xad, 0xbe, 0xef]), (1001, 0, [1, 2, 3, 4, 5])]"
  have "write_packet 1001 0 [1, 2, 3, 4, 5] (write_packet 1000 500 [0xde, 0xad, 0xbe, 0xef] (savefile_create 65535 1))
      = write_all_packets 65535 1 ?ps"
    by (simp add: write_all_packets_def)
  moreover have "savefile_next \<lparr>sr_header = h, sr_rest = []\<rparr> = (Inr None, \<lparr>sr_header = h, sr_rest = []\<rparr>)" for h
    by (simp add: savefile_next_parse rec_parse_def)
  ultimately show ?thesis
    by (simp add: test_savefile_roundtrip_def written_reads(1) next_stored
        next_stored [of _ _ _ "[]", simplified])
       (simp add: stored_packet_def pcap_file_header_new_def)
qed

section \<open>Filters\<close>

definition test_eth_frame :: "bytes \<Rightarrow> bytes \<Rightarrow> u16 \<Rightarrow> bytes \<Rightarrow> bytes" where
  "test_eth_frame dst src ethertype payload = dst @ src @ u16_to_be ethertype @ payload"

definition zero_mac :: bytes where
  "zero_mac = replicate 6 0"

definition test_ip_filter_accepts_ip_and_rejects_arp :: bool where
  "test_ip_filter_accepts_ip_and_rejects_arp \<longleftrightarrow>
     (case filter_compile ''ip'' DLT_EN10MB of
        Inl _ \<Rightarrow> False
      | Inr prog \<Rightarrow>
          bpf_filter prog (test_eth_frame zero_mac zero_mac 0x0800 [0x45, 0, 0, 0, 0, 0, 0, 0, 64, 6, 0, 0]) = Some True
          \<and> bpf_filter prog (test_eth_frame zero_mac zero_mac 0x0806 (replicate 20 0)) = Some False)"

definition test_tcp_filter_checks_protocol :: bool where
  "test_tcp_filter_checks_protocol \<longleftrightarrow>
     (case filter_compile ''tcp'' DLT_EN10MB of
        Inl _ \<Rightarrow> False
      | Inr prog \<Rightarrow>
          bpf_filter prog (test_eth_frame zero_mac zero_mac 0x0800
            ([0x45, 0, 0, 0, 0, 0, 0, 0, 64, 6, 0, 0] @ replicate 8 0)) = Some True
          \<and> bpf_filter prog (test_eth_frame zero_mac zero_mac 0x0800
            ([0x45, 0, 0, 0, 0, 0, 0, 0, 64, 17, 0, 0] @ replicate 8 0)) = Some False)"

definition test_empty_filter_accepts_all :: bool where
  "test_empty_filter_accepts_all \<longleftrightarrow>
     (case filter_compile [] DLT_EN10MB of
        Inl _ \<Rightarrow> False | Inr prog \<Rightarrow> bpf_filter prog (replicate 32 0) = Some True)"

definition test_host_filter :: bool where
  "test_host_filter \<longleftrightarrow>
     (case filter_compile ''host 1.2.3.4'' DLT_EN10MB of
        Inl _ \<Rightarrow> False
      | Inr prog \<Rightarrow>
          bpf_filter prog (test_eth_frame zero_mac zero_mac 0x0800
            ([0x45, 0, 0, 0, 0, 0, 0, 0, 64, 6, 0, 0] @ [9, 9, 9, 9] @ [1, 2, 3, 4])) = Some True)"

definition test_vm_program_executes :: bool where
  "test_vm_program_executes \<longleftrightarrow>
     (let prog = [load_insn BPF_LD BPF_H 12, jmp_insn BPF_JEQ 0x0800 1 0, ret_insn BPF_REJECT, ret_insn BPF_ACCEPT]
      in bpf_filter prog (test_eth_frame zero_mac zero_mac 0x0800 []) = Some True
         \<and> bpf_filter prog (test_eth_frame zero_mac zero_mac 0x0806 []) = Some False)"

lemma test_ip_filter_accepts_ip_and_rejects_arp: test_ip_filter_accepts_ip_and_rejects_arp
  by code_simp

lemma test_tcp_filter_checks_protocol: test_tcp_filter_checks_protocol
  by code_simp

lemma test_empty_filter_accepts_all: test_empty_filter_accepts_all
  by code_simp

lemma test_host_filter: test_host_filter
  by code_simp

lemma test_vm_program_executes: test_vm_program_executes
  by code_simp

section \<open>Captures\<close>

definition test_fixture :: bytes where
  "test_fixture = sw_out (fold (\<lambda>i. write_packet (1000 + of_nat i) 0 (replicate 8 (of_nat i))) [0..<4]
     (savefile_create 65535 (ucast DLT_EN10MB)))"

definition test_loop_reads_all_packets :: bool where
  "test_loop_reads_all_packets \<longleftrightarrow>
     (case open_offline test_fixture of
        Inl _ \<Rightarrow> False
      | Inr cap \<Rightarrow>
          (case pcap_loop 0 (\<lambda>h d seen. (Continue, seen @ [(hd_ts_sec h, length d)])) [] cap of
             Some (n, seen, _) \<Rightarrow> n = Inr 4 \<and> seen = [(1000, 8), (1001, 8), (1002, 8), (1003, 8)]
           | None \<Rightarrow> False))"

definition test_loop_counts_exactly :: bool where
  "test_loop_counts_exactly \<longleftrightarrow>
     (case open_offline test_fixture of
        Inl _ \<Rightarrow> False
      | Inr cap \<Rightarrow> (case pcap_loop 2 (\<lambda>_ _ u. (Continue, u)) () cap of Some (n, _) \<Rightarrow> n = Inr 2 | None \<Rightarrow> False))"

definition test_loop_break_stops_early :: bool where
  "test_loop_break_stops_early \<longleftrightarrow>
     (case open_offline test_fixture of
        Inl _ \<Rightarrow> False
      | Inr cap \<Rightarrow>
          (case pcap_loop 0 (\<lambda>_ _ count. (if count + 1 = 3 then Break else Continue, count + 1)) (0 :: nat) cap of
             Some (n, _) \<Rightarrow> n = Inr 3 | None \<Rightarrow> False))"

definition test_misc_pcap_parity :: "string option \<Rightarrow> bool \<Rightarrow> string + bytes \<Rightarrow> bool" where
  "test_misc_pcap_parity fcntl little answer \<longleftrightarrow>
     (case open_offline test_fixture of
        Inl _ \<Rightarrow> False
      | Inr c0 \<Rightarrow>
          (let (r1, c1) = set_nonblock fcntl True c0; (r2, c2) = inject (replicate 4 0) c1;
               (r3, c3) = set_direction DirIn c2
           in datalink_val_to_name c0 = ''EN10MB'' \<and> cap_snaplen c0 = 65535 \<and> r1 = Inr () \<and> cap_nonblock c1
              \<and> is_err r2 \<and> is_err r3 \<and> cap_last_err c3 \<noteq> [] \<and> fst (capture_stats little answer c3) = 0))"

definition test_lib_version_present :: "string \<Rightarrow> bool" where
  "test_lib_version_present pkg \<longleftrightarrow> prefix ''wnr-pcap '' (lib_version pkg)"

definition test_transmit_sendqueue_rejects_offline :: bool where
  "test_transmit_sendqueue_rejects_offline \<longleftrightarrow>
     (case open_offline test_fixture of
        Inl _ \<Rightarrow> False
      | Inr c0 \<Rightarrow>
          (let (r1, c1) = transmit_sendqueue (sendqueue_new 1024) c0;
               (added, q2) = sendqueue_add_raw 1 0 [0x00, 0x11, 0x22] (sendqueue_new 1024)
           in \<not> is_err r1 \<and> added = Inr () \<and> is_err (fst (transmit_sendqueue q2 c1))))"

definition test_direction_matching :: bool where
  "test_direction_matching \<longleftrightarrow>
     pkttype_matches_dir PKT_HOST DirIn \<and> pkttype_matches_dir PKT_BROADCAST DirIn
     \<and> \<not> pkttype_matches_dir PKT_OUTGOING DirIn
     \<and> pkttype_matches_dir PKT_OUTGOING DirOut \<and> \<not> pkttype_matches_dir PKT_HOST DirOut
     \<and> pkttype_matches_dir PKT_OUTGOING DirInOut \<and> pkttype_matches_dir PKT_HOST DirInOut"

definition fixture_packets :: "(u32 \<times> u32 \<times> bytes) list" where
  "fixture_packets = map (\<lambda>i. (1000 + of_nat i, 0, replicate 8 (of_nat i))) [0..<4]"

lemma fixture_open:
  obtains cap c' where "open_offline test_fixture = Inr cap"
    "capture_collect cap = Some (map (packet_view \<circ> stored_packet 65535) fixture_packets, None, c')"
    "\<exists>r. cap_kind cap = Offline r" "cap_snaplen cap = 65535" "cap_linktype cap = DLT_EN10MB"
proof -
  let ?h = "pcap_file_header_new 65535 DLT_EN10MB"
  let ?r = "\<lparr>sr_header = ?h, sr_rest = concat (map (record_image False) (map (stored_packet 65535) fixture_packets))\<rparr>"
  let ?c = "\<lparr>cap_kind = Offline ?r, cap_snaplen = 65535, cap_linktype = DLT_EN10MB, cap_filter = None,
    cap_direction = DirInOut, cap_nonblock = False, cap_last_err = []\<rparr>"
  have "test_fixture = sw_out (write_all_packets 65535 DLT_EN10MB fixture_packets)"
    by (simp add: test_fixture_def write_all_packets_def fixture_packets_def fold_map comp_def)
  then have o: "open_offline test_fixture = Inr ?c"
    using open_offline_written [of 65535 DLT_EN10MB fixture_packets] by (simp only: refl)
  have "kind_packets (cap_kind ?c) = (map (stored_packet 65535) fixture_packets, None, Offline \<lparr>sr_header = ?h, sr_rest = []\<rparr>)"
    by (simp add: kind_packets_backend written_reads(2) del: map_map)
  from capture_collect_filters [OF this]
  have "capture_collect ?c = Some (map (packet_view \<circ> stored_packet 65535) fixture_packets, None,
      ?c\<lparr>cap_kind := Offline \<lparr>sr_header = ?h, sr_rest = []\<rparr>\<rparr>)"
    by (simp add: filter_decides_def cap_accepts_def)
  with o show thesis by (rule that) simp_all
qed

lemma fixture_views:
  "map (packet_view \<circ> stored_packet 65535) fixture_packets
     = map (\<lambda>i. (\<lparr>hd_ts_sec = 1000 + i, hd_ts_frac = 0, hd_caplen = 8, hd_len = 8\<rparr>, replicate 8 (ucast i))) [0, 1, 2, 3]"
  by (simp add: fixture_packets_def stored_packet_def packet_view_def upt_rec)

lemma fixture_loop:
  fixes count :: i32 and n :: u32
  assumes "list_loop cb (unat (if sint count \<le> 0 then 0xffffffff else count)) 0 u
      (map (packet_view \<circ> stored_packet 65535) fixture_packets) None = (Inr (unat n), u')"
  shows "\<exists>cap c''. open_offline test_fixture = Inr cap \<and> pcap_loop count cb u cap = Some (Inr n, u', c'')"
proof -
  obtain cap c' where o: "open_offline test_fixture = Inr cap"
    "capture_collect cap = Some (map (packet_view \<circ> stored_packet 65535) fixture_packets, None, c')"
    by (rule fixture_open)
  from capture_loop_list [OF o(2), of cb "if sint count \<le> 0 then 0xffffffff else count" 0 u] assms
  obtain out c'' where l: "pcap_loop count cb u cap = Some (out, u', c'')" "map_sum id unat out = Inr (unat n)"
    by (auto simp: pcap_loop_def)
  from l(2) have "out = Inr n" by (cases out) (auto simp: word_unat_eq_iff)
  with o(1) l(1) show ?thesis by blast
qed

lemma test_loop_reads_all_packets: test_loop_reads_all_packets
  using fixture_loop [where count = 0 and n = 4 and u = "[]" and cb = "\<lambda>h d seen. (Continue, seen @ [(hd_ts_sec h, length d)])"
    and u' = "[(1000, 8), (1001, 8), (1002, 8), (1003, 8)]"]
  by (auto simp: test_loop_reads_all_packets_def fixture_views)

lemma test_loop_counts_exactly: test_loop_counts_exactly
  using fixture_loop [where count = 2 and n = 2 and u = "()" and cb = "\<lambda>_ _ u. (Continue, u)" and u' = "()"]
  by (auto simp: test_loop_counts_exactly_def fixture_views)

lemma test_loop_break_stops_early: test_loop_break_stops_early
  using fixture_loop [where count = 0 and n = 3 and u = "0 :: nat" and u' = 3
    and cb = "\<lambda>_ _ count. (if count + 1 = 3 then Break else Continue, count + 1)"]
  by (auto simp: test_loop_break_stops_early_def fixture_views)

lemma test_misc_pcap_parity: "test_misc_pcap_parity fcntl little answer"
proof -
  obtain cap r where o: "open_offline test_fixture = Inr cap" "cap_kind cap = Offline r" "cap_snaplen cap = 65535"
    "cap_linktype cap = DLT_EN10MB"
    by (rule fixture_open) blast
  have n: "datalink_ntop DLT_EN10MB = ''EN10MB''" by code_simp
  show ?thesis
    by (simp add: test_misc_pcap_parity_def o set_nonblock_def inject_def set_direction_def datalink_val_to_name_def
        capture_stats_def is_err_def n Let_def)
qed

lemma test_lib_version_present: "test_lib_version_present pkg"
  by (simp add: test_lib_version_present_def lib_version_def)

lemma test_transmit_sendqueue_rejects_offline: test_transmit_sendqueue_rejects_offline
proof -
  obtain cap r where o: "open_offline test_fixture = Inr cap" "cap_kind cap = Offline r"
    by (rule fixture_open) blast
  show ?thesis
    by (simp add: test_transmit_sendqueue_rejects_offline_def o transmit_sendqueue_def queue_eval inject_def)
qed

lemma test_direction_matching: test_direction_matching
  by code_simp

section \<open>The command line\<close>

definition test_parse_single_ports :: bool where
  "test_parse_single_ports \<longleftrightarrow> parse_ports ''80'' = [80] \<and> parse_ports ''80,443,22'' = [80, 443, 22]"

definition test_parse_ranges :: bool where
  "test_parse_ranges \<longleftrightarrow>
     parse_ports ''1000-1002'' = [1000, 1001, 1002] \<and> parse_ports ''1-3,80'' = [1, 2, 3, 80]"

definition test_parse_single_is_treated_as_range_of_one :: bool where
  "test_parse_single_is_treated_as_range_of_one \<longleftrightarrow> parse_ports ''5-5'' = [5]"

definition test_parse_dedups_overlapping_ranges :: bool where
  "test_parse_dedups_overlapping_ranges \<longleftrightarrow> parse_ports ''1-5,3-7,80,80'' = [1, 2, 3, 4, 5, 6, 7, 80]"

definition test_resolve_ip_literal :: "(string \<Rightarrow> ip_addr list) \<Rightarrow> bool" where
  "test_resolve_ip_literal resolver \<longleftrightarrow>
     resolve_ip resolver ''127.0.0.1'' = Some (IpV4 (Ipv4Addr 127 0 0 1))
     \<and> resolve_ip resolver ''not-a-real-host.invalid'' = None"

lemmas ports_eval = parse_ports_firsts part_ports_def parse_u16_def from_str_radix_def to_digit_def port_range_def
  upt_rec max_def Let_def word_le_nat_alt

lemma test_parse_single_ports: test_parse_single_ports
  by (simp add: test_parse_single_ports_def ports_eval)

lemma test_parse_ranges: test_parse_ranges
  by (simp add: test_parse_ranges_def ports_eval)

lemma test_parse_single_is_treated_as_range_of_one: test_parse_single_is_treated_as_range_of_one
  by (simp add: test_parse_single_is_treated_as_range_of_one_def ports_eval)

lemma test_parse_dedups_overlapping_ranges: test_parse_dedups_overlapping_ranges
proof -
  have "split_on CHR '','' ''1-5,3-7,80,80'' = [''1-5'', ''3-7'', ''80'', ''80'']" by simp
  moreover have "parse_u16 ''1'' = Some 1" "parse_u16 ''5'' = Some 5" "parse_u16 ''3'' = Some 3"
    "parse_u16 ''7'' = Some 7" "parse_u16 ''80'' = Some 80"
    by (simp_all add: parse_u16_def from_str_radix_def to_digit_def)
  moreover have "port_range 1 5 = [1, 2, 3, 4, 5]" "port_range 3 7 = [3, 4, 5, 6, 7]"
    by (simp_all add: port_range_def max_def word_le_nat_alt upt_rec)
  ultimately have "concat (map part_ports (split_on CHR '','' ''1-5,3-7,80,80''))
      = [1, 2, 3, 4, 5, 3, 4, 5, 6, 7, 80, 80]"
    by (simp add: part_ports_def Let_def)
  then show ?thesis by (simp add: test_parse_dedups_overlapping_ranges_def parse_ports_firsts)
qed

text \<open>The name of the second assertion is one that the resolver does not know.\<close>

lemma test_resolve_ip_literal:
  assumes "resolver ''not-a-real-host.invalid'' = []"
  shows "test_resolve_ip_literal resolver"
proof -
  have "parse_ipv4 ''127.0.0.1'' = Some (Ipv4Addr 127 0 0 1)" "parse_ipv4 ''not-a-real-host.invalid'' = None"
    by code_simp+
  moreover have "parse_ipv6 ''not-a-real-host.invalid'' = None"
    by (simp add: parse_ipv6_def read_ipv6_def parse_closed)
  ultimately show ?thesis using assms by (simp add: test_resolve_ip_literal_def resolve_ip_def)
qed

end
