(* ===== verification/Tests_Runs.thy ===== *)
theory Tests_Runs
  imports Wnr_Main Nsock_Udp "HOL-Library.Sublist"
begin

text \<open>
  The integration tests \<open>wnr-nsock/tests/loop.rs\<close> and \<open>wnr/tests/cli.rs\<close> on the model, one definition per
  test function. The other end of a connection, a thread of the test that echoes or sends a line, is the
  script of what the socket will read; a call of \<open>run\<close> comes with the turns of its loop. A run of the
  command is \<open>wnr_main\<close> in a given world; its exit code is that of a \<open>main\<close> that returns.
\<close>

section \<open>The event loop\<close>

definition turn_at :: "cmd list \<Rightarrow> nat \<Rightarrow> tick" where
  "turn_at cs now = \<lparr>tk_arrived = cs, tk_order = (\<lambda>ks. ks), tk_now = now, tk_end = now\<rparr>"

text \<open>The handlers of the tests assert that they are called with success.\<close>

definition all_success :: "pool \<Rightarrow> bool" where
  "all_success p \<longleftrightarrow> (\<forall>(ev, st) \<in> set (pool_log p). st = StSuccess)"

definition test_connect_write_read_roundtrip :: bool where
  "test_connect_write_read_roundtrip \<longleftrightarrow>
     (let sock = idle_sock\<lparr>sk_reads := [RdChunk (bytes_of ''hello nsock'')]\<rparr>;
          (iod, p) = create_iod_tcp (pool_new 0);
          (conn, p) = connect_tcp 0 iod 3000 p;
          (st1, p) = pool_run 0 (- 1) [turn_at [] 0, turn_at [ConnectResult iod (Some sock)] 5] p;
          connected = ((conn, StSuccess) \<in> set (pool_log p));
          (_, p) = cancel conn False p;
          (written, p) = write_event 10 iod (bytes_of ''hello nsock'') 3000 p;
          (st2, p) = pool_run 10 (- 1) [turn_at [] 10] p;
          (_, p) = cancel written False p;
          (read, p) = read_bytes 20 iod 3000 10 p;
          (st3, p) = pool_run 20 (- 1) [turn_at [] 20] p;
          (_, p) = cancel read False p
      in st1 \<noteq> None \<and> connected \<and> st2 \<noteq> None \<and> st3 \<noteq> None \<and> all_success p)"

definition test_timer_fires :: bool where
  "test_timer_fires \<longleftrightarrow>
     (let (_, p) = timer_create 0 50 (pool_new 0);
          (st, p) = pool_run 0 1000 [turn_at [] 0, turn_at [] 5, turn_at [] 50] p
      in st \<noteq> None \<and> length (filter (\<lambda>(_, st). st = StSuccess) (pool_log p)) = 1)"

definition test_readlines_gets_line :: bool where
  "test_readlines_gets_line \<longleftrightarrow>
     (let hello = bytes_of (''hello world'' @ NL);
          sock = idle_sock\<lparr>sk_reads := [RdChunk hello]\<rparr>;
          (iod, p) = create_iod_tcp (pool_new 0);
          (_, p) = connect_tcp 0 iod 3000 p;
          (st1, p) = pool_run 0 (- 1) [turn_at [ConnectResult iod (Some sock)] 1] p;
          (line, p) = readlines 5 iod 3000 256 p;
          (st2, p) = pool_run 5 (- 1) [turn_at [] 5] p;
          (buf, p) = take_read_buf line p
      in st1 \<noteq> None \<and> st2 \<noteq> None \<and> all_success p \<and> buf = hello \<and> map_option iod_id (iod_of p iod) = Some iod)"

definition test_write_fmt_and_printf_roundtrip :: bool where
  "test_write_fmt_and_printf_roundtrip \<longleftrightarrow>
     (let (iod, p) = create_iod_tcp (pool_new 0);
          (_, p) = connect_tcp 0 iod 3000 p;
          (st1, p) = pool_run 0 (- 1) [turn_at [ConnectResult iod (Some idle_sock)] 1] p;
          (_, p) = write_fmt 5 iod [''value='', ''42'', NL] 3000 p;
          (st2, p) = pool_run 5 (- 1) [turn_at [] 5] p;
          (_, p) = printf 10 iod ''literal'' 3000 p;
          (st3, p) = pool_run 10 (- 1) [turn_at [] 10] p
      in st1 \<noteq> None \<and> st2 \<noteq> None \<and> st3 \<noteq> None \<and> all_success p)"

definition test_delete_iod_kills_pending_events :: bool where
  "test_delete_iod_kills_pending_events \<longleftrightarrow>
     (let (iod, p) = create_iod_tcp (pool_new 0);
          (ev, p) = read_event 0 iod 60000 p;
          (existed, p) = delete_iod (\<lambda>ks. ks) iod p;
          gone = (iod_of p iod = None);
          pending = has_pending p;
          (st, p) = pool_run 0 100 [turn_at [] 1] p
      in existed \<and> gone \<and> \<not> pending \<and> st \<noteq> None \<and> (ev, StKill) \<in> set (pool_log p))"

definition test_send_udp_datagram :: "socket_addr \<Rightarrow> bool" where
  "test_send_udp_datagram r \<longleftrightarrow>
     (let (iod, p) = create_iod_udp (Some idle_sock) (pool_new 0);
          (_, p) = send_udp 0 iod r (bytes_of ''ping'') 3000 p;
          (st, p) = pool_run 0 (- 1) [turn_at [] 1] p
      in st \<noteq> None \<and> all_success p
         \<and> map_option (map_option sk_datagrams \<circ> iod_udp) (iod_of p iod) = Some (Some [(r, bytes_of ''ping'')]))"

definition test_create_iod_tcp_from_wraps_stream :: bool where
  "test_create_iod_tcp_from_wraps_stream \<longleftrightarrow>
     (let adopted = bytes_of (''adopted'' @ NL);
          (iod, p) = create_iod_tcp_from (idle_sock\<lparr>sk_reads := [RdChunk adopted]\<rparr>) (pool_new 0);
          same = (map_option iod_id (iod_of p iod) = Some iod);
          (line, p) = readlines 0 iod 3000 128 p;
          (st, p) = pool_run 0 (- 1) [turn_at [] 1] p
      in same \<and> st \<noteq> None \<and> all_success p \<and> fst (take_read_buf line p) = adopted)"

definition test_delete_pool_clears_state :: bool where
  "test_delete_pool_clears_state \<longleftrightarrow>
     (let (iod, p) = create_iod_tcp (pool_new 7);
          (_, p) = read_event 0 iod 60000 p;
          p = delete_pool (\<lambda>ks. ks) p
      in \<not> has_pending p \<and> pending_count p = 0)"

lemmas nsock_eval = turn_at_def all_success_def pool_new_def put_iod_def put_event_def drop_event_def fire_def
  create_iod_tcp_def create_iod_udp_def create_iod_tcp_from_def iod_new_tcp_def iod_new_udp_def iod_from_tcp_stream_def
  idle_sock_def enqueue_def new_pending_def deadline_after_def connect_timeout_def
  connect_tcp_def read_event_def read_bytes_def readlines_def write_event_def write_fmt_def printf_def send_udp_def
  connect_udp_def datagram_connect_def timer_create_def cancel_def
  delete_iod_def delete_pool_def kill_event_def events_of_iod_def take_read_buf_def pending_count_def has_pending_def
  pool_run_def loop_turn_def loop_pass_def drain_commands_def connect_target_def attach_stream_def open_list_def
  expired_def deadline_verdict_def deliver_def try_io_def event_iod_def try_write_def try_read_def
  try_write_tcp_def try_read_tcp_def try_write_udp_def stream_write_def stream_read_def datagram_send_def read_complete_def
  bytes_of_def Let_def

lemma test_connect_write_read_roundtrip: test_connect_write_read_roundtrip
  by (simp add: test_connect_write_read_roundtrip_def nsock_eval)

lemma test_timer_fires: test_timer_fires
  by (simp add: test_timer_fires_def nsock_eval)

lemma test_readlines_gets_line: test_readlines_gets_line
  by (simp add: test_readlines_gets_line_def nsock_eval)

lemma test_write_fmt_and_printf_roundtrip: test_write_fmt_and_printf_roundtrip
  by (simp add: test_write_fmt_and_printf_roundtrip_def nsock_eval)

lemma test_delete_iod_kills_pending_events: test_delete_iod_kills_pending_events
proof -
  define p1 where "p1 = snd (create_iod_tcp (pool_new 0))"
  define p2 where "p2 = snd (read_event 0 1 60000 p1)"
  define p3 where "p3 = p2\<lparr>pool_pending := [], pool_iods := [], pool_log := [(1, StKill)]\<rparr>"
  have "create_iod_tcp (pool_new 0) = (1, p1)" "read_event 0 1 60000 p1 = (1, p2)"
    by (simp_all add: p1_def p2_def create_iod_tcp_def pool_new_def read_event_def enqueue_def Let_def)
  moreover have "delete_iod (\<lambda>ks. ks) 1 p2 = (True, p3)"
    by (simp add: p1_def p2_def p3_def delete_iod_def kill_event_def events_of_iod_def pool_new_def create_iod_tcp_def
        read_event_def enqueue_def new_pending_def put_event_def put_iod_def fire_def drop_event_def Let_def)
  moreover have "pool_run 0 100 [turn_at [] 1] p3 = (Some LoopNoEvents, p3)"
    by (simp add: p1_def p2_def p3_def pool_run_def turn_at_def loop_turn_def loop_pass_def drain_commands_def open_list_def
        expired_def has_pending_def pool_new_def create_iod_tcp_def read_event_def enqueue_def put_event_def put_iod_def Let_def)
  ultimately show ?thesis
    by (simp add: test_delete_iod_kills_pending_events_def) (simp add: p3_def has_pending_def)
qed

lemma test_send_udp_datagram: "test_send_udp_datagram r"
  by (simp add: test_send_udp_datagram_def nsock_eval)

lemma test_create_iod_tcp_from_wraps_stream: test_create_iod_tcp_from_wraps_stream
  by (simp add: test_create_iod_tcp_from_wraps_stream_def nsock_eval)

lemma test_delete_pool_clears_state: test_delete_pool_clears_state
  by (simp add: test_delete_pool_clears_state_def nsock_eval)

section \<open>The command line\<close>

definition cli_run :: "'s world \<Rightarrow> string list \<Rightarrow> (string \<times> string \<times> int) option" where
  "cli_run w args = map_option (\<lambda>out. (text_on Stdout out, text_on Stderr out, 0)) (wnr_main w (''wnr'' # args))"

definition test_version_prints_name_and_version :: "'s world \<Rightarrow> bool" where
  "test_version_prints_name_and_version w \<longleftrightarrow>
     (case cli_run w [''--version''] of
        Some (out, _, _) \<Rightarrow> sublist ''WNR'' out \<and> sublist (w_version w) out | None \<Rightarrow> False)"

definition test_help_lists_commands :: "'s world \<Rightarrow> bool" where
  "test_help_lists_commands w \<longleftrightarrow>
     (case cli_run w [''--help''] of
        Some (out, _, _) \<Rightarrow>
          list_all (\<lambda>cmd. sublist cmd out) [''--interfaces'', ''--scan'', ''--pcap'', ''--route'', ''--version'']
      | None \<Rightarrow> False)"

definition test_unknown_command_reports_error :: "'s world \<Rightarrow> bool" where
  "test_unknown_command_reports_error w \<longleftrightarrow>
     (case cli_run w [''--bogus''] of
        Some (_, err, code) \<Rightarrow> code = 0 \<and> sublist ''unknown command'' err | None \<Rightarrow> False)"

definition test_scan_without_host_reports_error :: "'s world \<Rightarrow> bool" where
  "test_scan_without_host_reports_error w \<longleftrightarrow>
     (case cli_run w [''--scan''] of Some (_, err, _) \<Rightarrow> sublist ''no host'' err | None \<Rightarrow> False)"

definition test_route_to_literal_localhost_succeeds :: "'s world \<Rightarrow> bool" where
  "test_route_to_literal_localhost_succeeds w \<longleftrightarrow>
     (case cli_run w [''--route'', ''127.0.0.1''] of
        Some (out, _, _) \<Rightarrow> sublist ''route'' out \<or> sublist ''no route'' out | None \<Rightarrow> False)"

lemma test_version_prints_name_and_version: "test_version_prints_name_and_version w"
  using sublist_appendI [of "''WNR''" "[]" "'' (We Nmap in Rust) '' @ w_version w @ NL"]
    sublist_appendI [of "w_version w" "''WNR (We Nmap in Rust) ''" NL]
  by (simp add: test_version_prints_name_and_version_def cli_run_def wnr_main_def dispatch_def print_version_def)

lemma usage_commands:
  obtains front cmds where "text_on Stdout (print_usage v) = front @ cmds"
    "list_all (\<lambda>cmd. sublist cmd cmds) [''--interfaces'', ''--scan'', ''--pcap'', ''--route'', ''--version'']"
proof
  let ?cmds = "''  wnr --interfaces                 enumerate network interfaces'' @ NL @
      ''  wnr --scan <host> [-p PORT[,RANGE]...] [--timeout MS]'' @ NL @
      ''  wnr --pcap <file> [--filter EXPR]'' @ NL @
      ''  wnr --route <host>               show the route/next-hop to a host'' @ NL @
      ''  wnr --version'' @ NL @ NL"
  show "text_on Stdout (print_usage v) = (''WNR (We Nmap in Rust) '' @ v @ NL @ NL @ ''USAGE:'' @ NL) @ ?cmds"
    by (simp add: print_usage_def)
  show "list_all (\<lambda>cmd. sublist cmd ?cmds) [''--interfaces'', ''--scan'', ''--pcap'', ''--route'', ''--version'']"
    by code_simp
qed

lemma test_help_lists_commands: "test_help_lists_commands w"
proof -
  obtain front cmds where "text_on Stdout (print_usage (w_version w)) = front @ cmds"
    "list_all (\<lambda>cmd. sublist cmd cmds) [''--interfaces'', ''--scan'', ''--pcap'', ''--route'', ''--version'']"
    by (rule usage_commands)
  then show ?thesis
    by (simp add: test_help_lists_commands_def cli_run_def wnr_main_def dispatch_def sublist_append)
qed

lemma test_unknown_command_reports_error: "test_unknown_command_reports_error w"
  using sublist_appendI [of "''unknown command''" "[]" "'' '' @ in_quotes ''--bogus'' @ NL"]
  by (simp add: test_unknown_command_reports_error_def cli_run_def wnr_main_def dispatch_def print_usage_def)

lemma test_scan_without_host_reports_error: "test_scan_without_host_reports_error w"
  using sublist_appendI [of "''no host''" "[]" "'' specified'' @ NL"]
  by (simp add: test_scan_without_host_reports_error_def cli_run_def wnr_main_def dispatch_def cmd_scan_def plan_scan_def)

lemma test_route_to_literal_localhost_succeeds: "test_route_to_literal_localhost_succeeds w"
proof -
  have ip: "parse_ipv4 ''127.0.0.1'' = Some (Ipv4Addr 127 0 0 1)" by code_simp
  have at: "sublist ''route'' (''route'' @ s)" "sublist ''route'' (''no route'' @ s)" for s
    using sublist_appendI [of "''route''" "[]" s] sublist_appendI [of "''route''" "''no ''" s] by simp_all
  show ?thesis
    using at
    by (auto simp: test_route_to_literal_localhost_succeeds_def cli_run_def wnr_main_def dispatch_def cmd_route_def
        is_flag_def resolve_ip_def ip split: option.splits)
qed

end
