(* ===== verification/Spec2Isabelle.thy ===== *)
theory Spec2Isabelle
  imports Interfaces Dnet_Arp Dnet_Order Dnet_Intf Pcap_Classic Pcap_Live Nsock_Run Nsock_Udp Wnr_Main
    Tests_Dnet Tests_Pcap Tests_Runs
begin

text \<open>
  We Nmap in Rust (WNR): a verification development.

  The program. WNR is a workspace of three library crates and a command line. \<open>wnr-dnet\<close> is a port of
  libdnet: addresses, Ethernet and ARP formats, a routing table, interface enumeration. \<open>wnr-pcap\<close> is a
  port of libpcap: a packet filter language with its virtual machine, capture files, a raw-socket back-end
  and the capture handle over both. \<open>wnr-nsock\<close> is a port of nsock: a pool of descriptors and timed
  events with its event loop. \<open>wnr\<close> is the command line: a connect scan over the event pool, a report on a
  capture file, an interface table and a route query. The crates meet in the capture handle (which lists
  devices from \<open>wnr-dnet\<close>), and in the command line.

  Theories and sources.
  \<^item> Wnr\_Prelude: machine integers, byte order, slices, list operations. Rust\_Text: the parts of the
    Rust standard library's text handling that the code uses (trimming, splitting, parsing and printing of
    numbers and addresses), on strings as their UTF-8 bytes. Rust\_Ipv6: the parser of IPv6 addresses reads
    what their \<open>Display\<close> writes. Rust\_Unicode: the decoders of foreign text. Interfaces: the contracts as locales.
  \<^item> Dnet\_Addr, Dnet\_Prefix, Dnet\_Order: \<open>wnr-dnet/src/addr.rs\<close>. An \<open>Addr\<close> is the record \<open>addr\<close> (type,
    prefix length, 16 bytes). Dnet\_Prefix has the mask and network arithmetic, Dnet\_Order the comparison
    and the text form.
  \<^item> Dnet\_Eth: \<open>wnr-dnet/src/eth.rs\<close>. Dnet\_Arp: \<open>wnr-dnet/src/arp.rs\<close>, with the cache as a list of entries.
    Dnet\_Route: \<open>wnr-dnet/src/route.rs\<close>, the table as a list of entries. Dnet\_Intf: \<open>wnr-dnet/src/intf.rs\<close>
    over the records that the operating system returns, with Dnet\_Text for the names in them.
  \<^item> Pcap\_Datalink, Pcap\_Savefile, Pcap\_Sendqueue, Pcap\_Raw: the files of \<open>wnr-pcap/src\<close> of these names;
    Pcap\_Backends has the rest of \<open>raw.rs\<close>: opening and closing on Linux, Windows, and the stubs.
    Pcap\_Bpf and Pcap\_Filter: \<open>wnr-pcap/src/bpf.rs\<close>, the virtual machine (one definition per class of
    instructions, the loop of \<open>BpfVm::run\<close> as a partial function) and the compiler of filter expressions.
    Pcap\_Classic is the machine that the module says it matches, as a reference.
    Pcap\_Capture: \<open>wnr-pcap/src/capture.rs\<close>. Pcap\_Live: live captures from end to end.
  \<^item> Nsock\_Iod: \<open>wnr-nsock/src/event.rs\<close> and \<open>iod.rs\<close>. Nsock\_Pool and Nsock\_Loop: \<open>wnr-nsock/src/pool.rs\<close>,
    the operations of the caller and the event loop. Nsock\_Ledger, Nsock\_Turn, Nsock\_Run, Nsock\_Io,
    Nsock\_Udp, Nsock\_Connect: its theorems, on the accounting of events, single turns, whole runs, the bytes
    moved, and the verdict on each connect of a run.
  \<^item> Wnr\_Cli and Wnr\_Main: \<open>wnr/src/main.rs\<close>. Wnr\_Cli has what each command computes, as a report;
    Wnr\_Main has \<open>main\<close> and what it prints, as a list of writes to the two streams, from a record \<open>world\<close>
    of what the program reads of its surroundings.

  State and effects. Structs are records, enums datatypes, machine integers words of their width.
  Fallible calls return a sum or an option, a panic is \<open>None\<close>. Operations that mutate return the updated
  state. Files are their bytes; a socket is the list of answers that the operating system will give to its
  coming calls, with what it has accepted; a \<open>HashMap\<close> is an association list, and an operation that
  iterates over one takes the order as an argument, so its theorems hold for every order. Handlers of
  events are represented by the calls they receive. A turn of the event loop is given by what arrives on
  the command channel, the iteration order and the clock. Event and descriptor numbers and byte counters of
  64 bits, and the clock, are natural numbers: they cannot wrap in practice.

  Interfaces (locales, each interpreted on the program's definitions).
  \<^item> \<open>wire_codec\<close> and its extension \<open>wire_format\<close>: a fixed-size format that decodes what it encodes;
    instances: the Ethernet header, both parts of an ARP message, the record header of a capture file.
  \<^item> \<open>keyed_table\<close>: a table with one entry per key refines a finite map; instances: the ARP cache and the
    routing table.
  \<^item> \<open>packet_source\<close>: reading makes progress, so reading to the end terminates with the list of packets;
    instances: capture files, raw sockets on Linux and on Windows, and the capture handle over either.
  \<^item> \<open>delivery_ledger\<close>: requests are numbered, and answered at most once; instance: the event pool with
    all its operations.

  Theorems.
  \<^item> Addresses, masks, text forms, comparison: network and broadcast keep the prefix bits; masks and
    prefix lengths are inverse; the printed text of an IPv4, IPv6 or hardware address parses to the same
    octets, and comes back unchanged exactly for host addresses; the comparison agrees with a linear order on
    well-formed addresses. Interfaces: the Windows enumeration lists each adapter with all that its record says.
  \<^item> Routing: a lookup returns a longest covering prefix; tables with the same history as maps answer
    alike; verdicts of the kernel operations. ARP: messages round trip, the cache is a map.
  \<^item> Filters: a program with forward jumps stops within one step per instruction. Compiled code makes the
    tests \<open>prim_accepts\<close> on every packet; what a primitive means by the comments and the filter language is
    \<open>prim_means\<close>, stated apart from the code, and \<open>filter_compile_correct\<close> says where the two differ, in both
    directions, and where they do not. The theorems on filtered captures are in terms of the tests. The
    interpreter agrees with the classic machine on every valid program, but for a list of departures that
    is exact instruction by instruction.
  \<^item> Captures: the reader inverts the writer; a filtered read of a file yields the accepted packets in
    order; the loop calls back on them; a raw capture yields the frames of the chosen direction, a
    Windows capture the datagrams received; opening one leaks no descriptor but in one case; queues
    are transmitted in order and stay within their budget. A live capture, opened, directed, filtered and
    read, yields the accepted frames. The export of a capture writes the accepted packets, or returns the
    error of the first call on its file that fails.
  \<^item> Events: no handler is called twice; a run that ends without events has answered all of them;
    deadlines are respected by turns and by the sleep between them; runs return; what cancelling and deleting
    do; reads and writes lose, repeat and reorder no bytes; datagrams go out
    whole, and to which address; where connect results go.
  \<^item> Command line: a scan returns and prints every port exactly once, open or closed by the first
    result for its connect or its deadline; the meaning of port lists; the
    lines printed for a capture file; which command lines are refused, read afresh from the arguments, and with
    which single message on the error stream; all others print on the output stream only.
  Some theorems record where the code departs from its documentation or from what it means to do, in the
  model's terms; they are stated for the code as it is.

  Tests\_Runs holds the integration tests (wnr-nsock/tests and wnr/tests), on turns of the event loop and
  worlds as the tests arrange them. Tests\_Dnet and Tests\_Pcap hold the unit tests of the three crates that have some, one definition
  \<open>test_f\<close> for each test function \<open>f\<close>: evaluated on the model, all their assertions hold.

  Bounds and fuel. The virtual machine is a partial function: \<open>None\<close> is a program that never stops, and
  \<open>bpf_run_bounded\<close> bounds the steps of the programs that do. \<open>pool_run\<close> runs over a list of turns and has
  the status \<open>None\<close> when it has not returned by their end; \<open>run_returns\<close> and \<open>scan_prints_every_port\<close> say
  which turns are enough. \<open>connect_bounded\<close> runs over a list of attempts in the same way. All other
  definitions are total by their recursion.

  Not modelled, and why. System calls and their arguments (opening, binding and configuring sockets and
  files, \<open>getifaddrs\<close>, \<open>GetAdaptersAddresses\<close>): operating-system I/O, whose results are parameters.
  Accessors that return a field; the crate roots, which only re-export; the formatting of elapsed times and
  of the packet rate, which print readings of the clock. Waiting: a socket answers its coming receives from
  its list, and at the end of the list there is nothing yet, as for a non-blocking socket; a socket that
  \<open>set_nonblock(false)\<close> has made blocking would wait there instead. The depth of the stack: \<open>next_packet\<close> calls
  itself for each packet that the filter rejects, and a long run of them could exhaust the stack, which
  the model does not show. Threads: \<open>connect_tcp\<close> starts one for each attempt; the model has the command with
  its result arrive in some turn, and \<open>connect_bounded\<close> is what the thread runs. The bytes that a failed
  export leaves in its file, and the exit status, which is 0 also after a diagnostic.
\<close>

end
